(* ===== verification/Prelude.thy ===== *)
theory Prelude
  imports Main "HOL-Library.Word" "HOL-Library.List_Lexorder"
begin

text \<open>
  What the components share: bytes and memory images of machine words, the
  unsigned lexicographic order on byte strings (the order of
  \<^verbatim>\<open>memcmp\<close> and of \<^verbatim>\<open>rocksdb::Slice::compare\<close>), the range
  of \<^verbatim>\<open>int64_t\<close>, the C string functions on a buffer, the error codes of the
  protocol, and the generic lemmas on them.
\<close>

unbundle bit_operations_syntax

section \<open>Types and collections\<close>

type_synonym byte = "8 word"
type_synonym bytes = "byte list"

named_theorems key_simps \<open>evaluation of key encodings\<close>
named_theorems log_simps \<open>facts on log storage states\<close>
named_theorems meta_simps \<open>facts on the meta server's tables\<close>

section \<open>Ranges of the signed machine integers\<close>

definition in_i64 :: "int \<Rightarrow> bool" where
  "in_i64 x \<longleftrightarrow> - (2 ^ 63) \<le> x \<and> x < 2 ^ 63"

lemma sint_word_of_int_i64 [simp]:
  "in_i64 x \<Longrightarrow> sint (word_of_int x :: 64 word) = x"
  by (simp add: in_i64_def sint_sbintrunc' signed_take_bit_int_eq_self)

lemma sint_in_i64 [simp]: "in_i64 (sint (w :: 64 word))"
  using sint_greater_eq [of w] sint_less [of w] by (simp add: in_i64_def)

lemma in_i64_inject:
  assumes "in_i64 x" and "in_i64 y"
    and "(word_of_int x :: 64 word) = word_of_int y"
  shows "x = y"
  using assms sint_word_of_int_i64 by metis

section \<open>Memory images of words\<close>

text \<open>
  The bytes of the object representation of an unsigned integer, on a little
  endian and on a big endian host.
\<close>

definition le_bytes :: "nat \<Rightarrow> 'a::len word \<Rightarrow> bytes" where
  "le_bytes n w = map (\<lambda>i. ucast (drop_bit (8 * i) w)) [0..<n]"

definition be_bytes :: "nat \<Rightarrow> 'a::len word \<Rightarrow> bytes" where
  "be_bytes n w = rev (le_bytes n w)"

fun le_word :: "bytes \<Rightarrow> 'a::len word" where
  "le_word [] = 0"
| "le_word (b # bs) = ucast b OR push_bit 8 (le_word bs)"

definition be_word :: "bytes \<Rightarrow> 'a::len word" where
  "be_word bs = le_word (rev bs)"

definition mem_bytes :: "bool \<Rightarrow> nat \<Rightarrow> 'a::len word \<Rightarrow> bytes" where
  "mem_bytes big n w = (if big then be_bytes n w else le_bytes n w)"

definition mem_word :: "bool \<Rightarrow> bytes \<Rightarrow> 'a::len word" where
  "mem_word big bs = (if big then be_word bs else le_word bs)"

text \<open>The number a list of base-256 digits stands for, most significant first.\<close>

fun be_val :: "bytes \<Rightarrow> nat" where
  "be_val [] = 0"
| "be_val (b # bs) = unat b * 256 ^ length bs + be_val bs"

lemma length_le_bytes [simp]: "length (le_bytes n w) = n"
  by (simp add: le_bytes_def)

lemma length_be_bytes [simp]: "length (be_bytes n w) = n"
  by (simp add: be_bytes_def)

lemma length_mem_bytes [simp]: "length (mem_bytes big n w) = n"
  by (simp add: mem_bytes_def)

lemma le_bytes_Suc:
  "le_bytes (Suc n) w = ucast w # le_bytes n (drop_bit 8 w)"
  by (simp add: le_bytes_def map_upt_Suc drop_bit_drop_bit add.commute del: upt_Suc)

lemma bit_le_word:
  "bit (le_word bs :: 'a::len word) k \<longleftrightarrow>
     k < LENGTH('a) \<and> k div 8 < length bs \<and> bit (bs ! (k div 8)) (k mod 8)"
proof (induction bs arbitrary: k)
  case Nil
  show ?case by simp
next
  case (Cons b bs)
  show ?case
  proof (cases "k < 8")
    case True
    then show ?thesis
      by (simp add: bit_or_iff bit_ucast_iff bit_push_bit_iff)
  next
    case False
    then obtain j where k: "k = j + 8"
      by (metis add.commute le_add_diff_inverse not_less)
    have "\<not> bit (ucast b :: 'a word) k"
      using False bit_imp_le_length [of b k] by (auto simp: bit_ucast_iff)
    moreover have "k div 8 = Suc (j div 8)" and "k mod 8 = j mod 8"
      by (simp_all add: k)
    ultimately show ?thesis
      by (auto simp: k bit_or_iff bit_push_bit_iff Cons.IH)
  qed
qed

lemma le_bytes_inverse:
  assumes "LENGTH('a::len) = 8 * n"
  shows "le_word (le_bytes n (w :: 'a word)) = w"
proof (rule bit_word_eqI)
  fix k assume k: "k < LENGTH('a)"
  then have "k div 8 < n" using assms by (simp add: less_mult_imp_div_less mult.commute)
  moreover have "8 * (k div 8) + k mod 8 = k" by simp
  ultimately show "bit (le_word (le_bytes n w) :: 'a word) k = bit w k"
    using k by (simp add: bit_le_word le_bytes_def bit_ucast_iff bit_drop_bit_eq)
qed

lemma be_bytes_inverse:
  "LENGTH('a::len) = 8 * n \<Longrightarrow> be_word (be_bytes n (w :: 'a word)) = w"
  by (simp add: be_word_def be_bytes_def le_bytes_inverse)

lemma mem_bytes_inverse:
  "LENGTH('a::len) = 8 * n \<Longrightarrow> mem_word big (mem_bytes big n (w :: 'a word)) = w"
  by (simp add: mem_word_def mem_bytes_def le_bytes_inverse be_bytes_inverse)

lemma be_val_append: "be_val (xs @ ys) = be_val xs * 256 ^ length ys + be_val ys"
  by (induction xs) (simp_all add: algebra_simps power_add)

lemma be_val_less: "be_val bs < 256 ^ length bs"
proof (induction bs)
  case Nil
  show ?case by simp
next
  case (Cons b bs)
  have "unat b + 1 \<le> 256" using unsigned_less [where 'a = nat, of b] by simp
  then have "(unat b + 1) * 256 ^ length bs \<le> 256 * 256 ^ length bs"
    by (rule mult_le_mono1)
  then have "unat b * 256 ^ length bs + 256 ^ length bs \<le> 256 * 256 ^ length bs"
    by (simp only: add_mult_distrib nat_mult_1)
  moreover have "be_val (b # bs) < unat b * 256 ^ length bs + 256 ^ length bs"
    using Cons.IH by simp
  ultimately have "be_val (b # bs) < 256 * 256 ^ length bs"
    by (rule order.strict_trans2 [rotated])
  then show ?case by simp
qed

lemma be_val_be_bytes_mod: "be_val (be_bytes n w) = unat w mod 256 ^ n"
proof (induction n arbitrary: w)
  case 0
  show ?case by (simp add: be_bytes_def le_bytes_def)
next
  case (Suc n)
  have "be_val (be_bytes (Suc n) w) =
      be_val (be_bytes n (drop_bit 8 w)) * 256 + unat (ucast w :: byte)"
    by (simp add: be_bytes_def le_bytes_Suc be_val_append)
  also have "\<dots> = (unat w div 256) mod 256 ^ n * 256 + unat w mod 256"
    by (simp add: Suc.IH unat_drop_bit_eq flip: drop_bit_eq_div)
       (simp add: drop_bit_eq_div unsigned_ucast_eq take_bit_eq_mod)
  also have "\<dots> = unat w mod (256 * 256 ^ n)"
    by (simp add: mod_mult2_eq mult.commute add.commute)
  finally show ?case by simp
qed

lemma be_val_be_bytes:
  assumes "LENGTH('a::len) = 8 * n"
  shows "be_val (be_bytes n (w :: 'a word)) = unat w"
proof -
  have "(256 :: nat) ^ n = 2 ^ LENGTH('a)" by (simp add: assms power_mult)
  then show ?thesis using unsigned_less [where 'a = nat, of w] by (simp add: be_val_be_bytes_mod)
qed

section \<open>Lexicographic order of byte strings\<close>

lemma lex_append_same: "(xs @ ys < xs @ zs) = (ys < (zs :: 'a::order list))"
  by (induction xs) simp_all

lemma lex_append_less:
  "xs < (ys :: 'a::order list) \<Longrightarrow> length xs = length ys \<Longrightarrow> xs @ us < ys @ vs"
proof (induction xs arbitrary: ys)
  case Nil
  then show ?case by simp
next
  case (Cons x xs)
  then show ?case by (cases ys) auto
qed

lemma lex_less_iff_be_val:
  "length xs = length ys \<Longrightarrow> xs < ys \<longleftrightarrow> be_val xs < be_val ys"
proof (induction xs arbitrary: ys)
  case Nil
  then show ?case by simp
next
  case (Cons x xs)
  then obtain y zs where ys: "ys = y # zs" and len: "length xs = length zs"
    by (cases ys) auto
  let ?m = "256 ^ length zs :: nat"
  have bx: "be_val xs < ?m" and bz: "be_val zs < ?m"
    using be_val_less [of xs] be_val_less [of zs] len by simp_all
  consider "x < y" | "x = y" | "y < x" by fastforce
  then show ?case
  proof cases
    case 1
    then have "unat x + 1 \<le> unat y" by (simp add: word_less_nat_alt)
    then have "(unat x + 1) * ?m \<le> unat y * ?m" by (rule mult_le_mono1)
    then show ?thesis using 1 bx len ys by (simp add: algebra_simps)
  next
    case 2
    then show ?thesis using Cons.IH [OF len] ys len by simp
  next
    case 3
    then have "unat y + 1 \<le> unat x" by (simp add: word_less_nat_alt)
    then have "(unat y + 1) * ?m \<le> unat x * ?m" by (rule mult_le_mono1)
    then show ?thesis using 3 bz len ys by (auto simp: algebra_simps)
  qed
qed

lemma be_bytes_less_iff:
  assumes "LENGTH('a::len) = 8 * n"
  shows "be_bytes n (v :: 'a word) < be_bytes n w \<longleftrightarrow> v < w"
  using assms by (simp add: lex_less_iff_be_val be_val_be_bytes word_less_nat_alt)

section \<open>C strings in a buffer\<close>

text \<open>
  \<^verbatim>\<open>strlen\<close> of the string at the start of a buffer: \<^verbatim>\<open>None\<close> when the
  buffer has no terminating NUL, where the C function reads past its end.
\<close>

definition c_strlen :: "bytes \<Rightarrow> nat option" where
  "c_strlen bs = (if 0 \<in> set bs then Some (length (takeWhile (\<lambda>b. b \<noteq> 0) bs)) else None)"

lemma takeWhile_nul_append [simp]:
  "0 \<notin> set s \<Longrightarrow> takeWhile (\<lambda>b. b \<noteq> 0) (s @ (0 :: byte) # r) = s"
  by (induction s) auto

lemma c_strlen_append [simp]: "0 \<notin> set s \<Longrightarrow> c_strlen (s @ 0 # r) = Some (length s)"
  by (simp add: c_strlen_def)

end
