(* ===== verification/KeyEncoder.thy ===== *)
theory KeyEncoder
  imports Prelude
begin

text \<open>
  The class \<^verbatim>\<open>KeyEncoder\<close> of \<^verbatim>\<open>include/common/key_encoder.h\<close>: byte
  order conversion, the sign flip that makes two's complement integers
  comparable as unsigned ones, and the bit tricks that do the same for IEEE
  floats. A signed integer is the word of its two's complement bits, read by
  \<^term>\<open>sint\<close>; a float is the word of its IEEE bits. The endianness of the host
  is the argument \<open>big\<close>.
\<close>

section \<open>Byte order\<close>

definition is_big_endian :: "bool \<Rightarrow> bool" where
  "is_big_endian big =
     (let c = mem_bytes big 2 (0x1234 :: 16 word) in c ! 1 = 0x34 \<and> c ! 0 = 0x12)"

definition to_endian_u16 :: "bool \<Rightarrow> 16 word \<Rightarrow> 16 word" where
  "to_endian_u16 big x =
     (if is_big_endian big then x
      else push_bit 8 (x AND 0x00FF) OR drop_bit 8 (x AND 0xFF00))"

definition to_endian_u32 :: "bool \<Rightarrow> 32 word \<Rightarrow> 32 word" where
  "to_endian_u32 big x =
     (if is_big_endian big then x
      else push_bit 24 (x AND 0x000000FF) OR push_bit 8 (x AND 0x0000FF00) OR
           drop_bit 8 (x AND 0x00FF0000) OR drop_bit 24 (x AND 0xFF000000))"

definition to_endian_u64 :: "bool \<Rightarrow> 64 word \<Rightarrow> 64 word" where
  "to_endian_u64 big x =
     (if is_big_endian big then x
      else push_bit 56 (x AND 0x00000000000000FF) OR
           push_bit 40 (x AND 0x000000000000FF00) OR
           push_bit 24 (x AND 0x0000000000FF0000) OR
           push_bit 8 (x AND 0x00000000FF000000) OR
           drop_bit 8 (x AND 0x000000FF00000000) OR
           drop_bit 24 (x AND 0x0000FF0000000000) OR
           drop_bit 40 (x AND 0x00FF000000000000) OR
           drop_bit 56 (x AND 0xFF00000000000000))"

definition to_little_endian_u16 :: "bool \<Rightarrow> 16 word \<Rightarrow> 16 word" where
  "to_little_endian_u16 big x =
     (if \<not> is_big_endian big then x
      else push_bit 8 (x AND 0x00FF) OR drop_bit 8 (x AND 0xFF00))"

definition to_little_endian_u32 :: "bool \<Rightarrow> 32 word \<Rightarrow> 32 word" where
  "to_little_endian_u32 big x =
     (if \<not> is_big_endian big then x
      else push_bit 24 (x AND 0x000000FF) OR push_bit 8 (x AND 0x0000FF00) OR
           drop_bit 8 (x AND 0x00FF0000) OR drop_bit 24 (x AND 0xFF000000))"

definition to_little_endian_u64 :: "bool \<Rightarrow> 64 word \<Rightarrow> 64 word" where
  "to_little_endian_u64 big x =
     (if \<not> is_big_endian big then x
      else push_bit 56 (x AND 0x00000000000000FF) OR
           push_bit 40 (x AND 0x000000000000FF00) OR
           push_bit 24 (x AND 0x0000000000FF0000) OR
           push_bit 8 (x AND 0x00000000FF000000) OR
           drop_bit 8 (x AND 0x000000FF00000000) OR
           drop_bit 24 (x AND 0x0000FF0000000000) OR
           drop_bit 40 (x AND 0x00FF000000000000) OR
           drop_bit 56 (x AND 0xFF00000000000000))"

section \<open>Integers\<close>

definition encode_i8 :: "8 word \<Rightarrow> 8 word" where "encode_i8 x = x XOR 0x80"
definition decode_i8 :: "8 word \<Rightarrow> 8 word" where "decode_i8 x = x XOR 0x80"
definition encode_i16 :: "16 word \<Rightarrow> 16 word" where "encode_i16 x = x XOR 0x8000"
definition decode_i16 :: "16 word \<Rightarrow> 16 word" where "decode_i16 x = x XOR 0x8000"
definition encode_i32 :: "32 word \<Rightarrow> 32 word" where "encode_i32 x = x XOR 0x80000000"
definition decode_i32 :: "32 word \<Rightarrow> 32 word" where "decode_i32 x = x XOR 0x80000000"
definition encode_i64 :: "64 word \<Rightarrow> 64 word" where "encode_i64 x = x XOR 0x8000000000000000"
definition decode_i64 :: "64 word \<Rightarrow> 64 word" where "decode_i64 x = x XOR 0x8000000000000000"

section \<open>Floats\<close>

text \<open>
  The comparisons of the language on IEEE values, on their bits: a value with
  an all-ones exponent and a nonzero fraction is a NaN, every comparison with
  it is false; the two zeros are equal; otherwise sign and magnitude decide.
\<close>

definition f32_is_nan :: "32 word \<Rightarrow> bool" where
  "f32_is_nan x \<longleftrightarrow> 0x7F800000 < x AND 0x7FFFFFFF"

definition f32_ord :: "32 word \<Rightarrow> int" where
  "f32_ord x = (if bit x 31 then - uint (x AND 0x7FFFFFFF) else uint (x AND 0x7FFFFFFF))"

definition f32_less :: "32 word \<Rightarrow> 32 word \<Rightarrow> bool" where
  "f32_less x y \<longleftrightarrow> \<not> f32_is_nan x \<and> \<not> f32_is_nan y \<and> f32_ord x < f32_ord y"

definition f32_ge_zero :: "32 word \<Rightarrow> bool" where
  "f32_ge_zero x \<longleftrightarrow> \<not> f32_is_nan x \<and> 0 \<le> f32_ord x"

definition f64_is_nan :: "64 word \<Rightarrow> bool" where
  "f64_is_nan x \<longleftrightarrow> 0x7FF0000000000000 < x AND 0x7FFFFFFFFFFFFFFF"

definition f64_ord :: "64 word \<Rightarrow> int" where
  "f64_ord x = (if bit x 63 then - uint (x AND 0x7FFFFFFFFFFFFFFF)
                else uint (x AND 0x7FFFFFFFFFFFFFFF))"

definition f64_less :: "64 word \<Rightarrow> 64 word \<Rightarrow> bool" where
  "f64_less x y \<longleftrightarrow> \<not> f64_is_nan x \<and> \<not> f64_is_nan y \<and> f64_ord x < f64_ord y"

definition f64_ge_zero :: "64 word \<Rightarrow> bool" where
  "f64_ge_zero x \<longleftrightarrow> \<not> f64_is_nan x \<and> 0 \<le> f64_ord x"

definition encode_f32 :: "32 word \<Rightarrow> 32 word" where
  "encode_f32 x = (if f32_ge_zero x then x OR 0x80000000 else NOT x)"

definition decode_f32 :: "32 word \<Rightarrow> 32 word" where
  "decode_f32 x =
     (if drop_bit 31 (x AND 0x80000000) > 0 then x AND NOT 0x80000000 else NOT x)"

definition encode_f64 :: "64 word \<Rightarrow> 64 word" where
  "encode_f64 x = (if f64_ge_zero x then x OR 0x8000000000000000 else NOT x)"

definition decode_f64 :: "64 word \<Rightarrow> 64 word" where
  "decode_f64 x =
     (if drop_bit 63 (x AND 0x8000000000000000) > 0 then x AND NOT 0x8000000000000000
      else NOT x)"

section \<open>Byte order lemmas\<close>

lemma is_big_endian_host [simp]: "is_big_endian big = big"
proof -
  have "is_big_endian True = True" and "is_big_endian False = False"
    by code_simp+
  then show ?thesis by (cases big) simp_all
qed

lemma nth_le_bytes [simp]: "i < n \<Longrightarrow> le_bytes n w ! i = ucast (drop_bit (8 * i) w)"
  by (simp add: le_bytes_def)

lemma le_bytes_eq_be_bytesI:
  assumes "\<And>i k. i < n \<Longrightarrow> k < 8 \<Longrightarrow> bit v (8 * i + k) \<longleftrightarrow> bit w (8 * (n - 1 - i) + k)"
    and "LENGTH('a::len) = 8 * n"
  shows "le_bytes n (v :: 'a word) = be_bytes n (w :: 'a word)"
proof (rule nth_equalityI)
  fix i assume "i < length (le_bytes n v)"
  then have i: "i < n" by simp
  have "(ucast (drop_bit (8 * i) v) :: byte) = ucast (drop_bit (8 * (n - 1 - i)) w)"
  proof (rule bit_word_eqI)
    fix k assume "k < LENGTH(8)"
    with i assms show "bit (ucast (drop_bit (8 * i) v) :: byte) k =
        bit (ucast (drop_bit (8 * (n - 1 - i)) w) :: byte) k"
      by (simp add: bit_ucast_iff bit_drop_bit_eq)
  qed
  with i show "le_bytes n v ! i = be_bytes n w ! i"
    by (simp add: be_bytes_def rev_nth)
qed simp

lemma to_endian_u16_little: "le_bytes 2 (to_endian_u16 False x) = be_bytes 2 x"
proof (rule le_bytes_eq_be_bytesI)
  have m: "0xFF = push_bit 0 (mask 8 :: 16 word)" "0xFF00 = push_bit 8 (mask 8 :: 16 word)"
    by (simp_all add: mask_eq_exp_minus_1 push_bit_eq_mult)
  fix i k :: nat assume "i < 2" and k: "k < 8"
  then have "i \<in> {0, 1}" by auto
  then show "bit (to_endian_u16 False x) (8 * i + k) = bit x (8 * (2 - 1 - i) + k)"
    using k by (elim insertE emptyE) (simp_all add: to_endian_u16_def m bit_simps)
qed simp

lemma to_endian_u32_little: "le_bytes 4 (to_endian_u32 False x) = be_bytes 4 x"
proof (rule le_bytes_eq_be_bytesI)
  have m: "0xFF = push_bit 0 (mask 8 :: 32 word)" "0xFF00 = push_bit 8 (mask 8 :: 32 word)"
    "0xFF0000 = push_bit 16 (mask 8 :: 32 word)" "0xFF000000 = push_bit 24 (mask 8 :: 32 word)"
    by (simp_all add: mask_eq_exp_minus_1 push_bit_eq_mult)
  fix i k :: nat assume "i < 4" and k: "k < 8"
  then have "i \<in> {0, 1, 2, 3}" by auto
  then show "bit (to_endian_u32 False x) (8 * i + k) = bit x (8 * (4 - 1 - i) + k)"
    using k by (elim insertE emptyE) (simp_all add: to_endian_u32_def m bit_simps)
qed simp

lemma to_endian_u64_little: "le_bytes 8 (to_endian_u64 False x) = be_bytes 8 x"
proof (rule le_bytes_eq_be_bytesI)
  have m: "0xFF = push_bit 0 (mask 8 :: 64 word)" "0xFF00 = push_bit 8 (mask 8 :: 64 word)"
    "0xFF0000 = push_bit 16 (mask 8 :: 64 word)" "0xFF000000 = push_bit 24 (mask 8 :: 64 word)"
    "0xFF00000000 = push_bit 32 (mask 8 :: 64 word)"
    "0xFF0000000000 = push_bit 40 (mask 8 :: 64 word)"
    "0xFF000000000000 = push_bit 48 (mask 8 :: 64 word)"
    "0xFF00000000000000 = push_bit 56 (mask 8 :: 64 word)"
    by (simp_all add: mask_eq_exp_minus_1 push_bit_eq_mult)
  fix i k :: nat assume "i < 8" and k: "k < 8"
  then have "i \<in> {0, 1, 2, 3, 4, 5, 6, 7}" by auto
  then show "bit (to_endian_u64 False x) (8 * i + k) = bit x (8 * (8 - 1 - i) + k)"
    using k by (elim insertE emptyE) (simp_all add: to_endian_u64_def m bit_simps)
qed simp

lemma mem_to_endian_u16 [key_simps]: "mem_bytes big 2 (to_endian_u16 big x) = be_bytes 2 x"
  by (cases big) (simp_all add: mem_bytes_def to_endian_u16_little, simp add: to_endian_u16_def)

lemma mem_to_endian_u32 [key_simps]: "mem_bytes big 4 (to_endian_u32 big x) = be_bytes 4 x"
  by (cases big) (simp_all add: mem_bytes_def to_endian_u32_little, simp add: to_endian_u32_def)

lemma mem_to_endian_u64 [key_simps]: "mem_bytes big 8 (to_endian_u64 big x) = be_bytes 8 x"
  by (cases big) (simp_all add: mem_bytes_def to_endian_u64_little, simp add: to_endian_u64_def)

lemma le_bytes_inject:
  "LENGTH('a::len) = 8 * n \<Longrightarrow> le_bytes n (v :: 'a word) = le_bytes n w \<Longrightarrow> v = w"
  by (metis le_bytes_inverse)

lemma be_bytes_rev_le: "be_bytes n v = le_bytes n w \<longleftrightarrow> le_bytes n v = be_bytes n w"
  by (metis be_bytes_def rev_rev_ident)

lemma to_endian_u16_twice: "to_endian_u16 big (to_endian_u16 big x) = x"
proof (cases big)
  case False
  have "le_bytes 2 (to_endian_u16 False (to_endian_u16 False x)) = le_bytes 2 x"
    by (simp add: to_endian_u16_little be_bytes_rev_le)
  then show ?thesis using False by (auto intro: le_bytes_inject [where n = 2])
qed (simp add: to_endian_u16_def)

lemma to_endian_u32_twice: "to_endian_u32 big (to_endian_u32 big x) = x"
proof (cases big)
  case False
  have "le_bytes 4 (to_endian_u32 False (to_endian_u32 False x)) = le_bytes 4 x"
    by (simp add: to_endian_u32_little be_bytes_rev_le)
  then show ?thesis using False by (auto intro: le_bytes_inject [where n = 4])
qed (simp add: to_endian_u32_def)

lemma to_endian_u64_twice: "to_endian_u64 big (to_endian_u64 big x) = x"
proof (cases big)
  case False
  have "le_bytes 8 (to_endian_u64 False (to_endian_u64 False x)) = le_bytes 8 x"
    by (simp add: to_endian_u64_little be_bytes_rev_le)
  then show ?thesis using False by (auto intro: le_bytes_inject [where n = 8])
qed (simp add: to_endian_u64_def)

lemma to_endian_mem_u16 [key_simps]: "to_endian_u16 big (mem_word big (be_bytes 2 x)) = x"
  using mem_bytes_inverse [of 2 big "to_endian_u16 big x"]
  by (simp add: mem_to_endian_u16 to_endian_u16_twice)

lemma to_endian_mem_u32 [key_simps]: "to_endian_u32 big (mem_word big (be_bytes 4 x)) = x"
  using mem_bytes_inverse [of 4 big "to_endian_u32 big x"]
  by (simp add: mem_to_endian_u32 to_endian_u32_twice)

lemma to_endian_mem_u64 [key_simps]: "to_endian_u64 big (mem_word big (be_bytes 8 x)) = x"
  using mem_bytes_inverse [of 8 big "to_endian_u64 big x"]
  by (simp add: mem_to_endian_u64 to_endian_u64_twice)

lemma mem_to_little_endian_u16: "mem_bytes big 2 (to_little_endian_u16 big x) = le_bytes 2 x"
  using to_endian_u16_little [of x]
  by (simp add: mem_bytes_def to_little_endian_u16_def to_endian_u16_def be_bytes_rev_le)

lemma mem_to_little_endian_u32: "mem_bytes big 4 (to_little_endian_u32 big x) = le_bytes 4 x"
  using to_endian_u32_little [of x]
  by (simp add: mem_bytes_def to_little_endian_u32_def to_endian_u32_def be_bytes_rev_le)

lemma mem_to_little_endian_u64: "mem_bytes big 8 (to_little_endian_u64 big x) = le_bytes 8 x"
  using to_endian_u64_little [of x]
  by (simp add: mem_bytes_def to_little_endian_u64_def to_endian_u64_def be_bytes_rev_le)

section \<open>Integer lemmas\<close>

lemma top_bit_double:
  assumes s: "s = push_bit (LENGTH('a::len) - 1) (1 :: 'a word)"
  shows "s + s = 0"
proof -
  obtain n where n: "LENGTH('a) = Suc n"
    by (metis len_not_eq_0 not0_implies_Suc)
  have "s = 2 ^ n" by (simp add: s n push_bit_eq_mult)
  then have "s + s = 2 ^ Suc n" by simp
  also have "\<dots> = 0" by (metis n word_exp_length_eq_0)
  finally show ?thesis .
qed

lemma xor_top_bit_add:
  fixes x s :: "'a::len word"
  assumes s: "s = push_bit (LENGTH('a) - 1) 1"
  shows "x XOR s = x + s"
proof (cases "bit x (LENGTH('a) - 1)")
  case False
  then have "x AND s = 0"
    by (auto simp: s intro!: bit_word_eqI simp: bit_simps)
  then show ?thesis by (simp add: disjunctive_xor_eq_or disjunctive_add_eq_xor)
next
  case True
  have "(x XOR s) AND s = 0"
    using True by (auto simp: s intro!: bit_word_eqI simp: bit_simps)
  then have "(x XOR s) + s = (x XOR s) XOR s" by (rule disjunctive_add_eq_xor)
  then have "x XOR s = x - s" by (simp add: xor.assoc eq_diff_eq)
  moreover have "- s = s" by (rule minus_unique [OF top_bit_double [OF s]])
  ultimately show ?thesis by (metis diff_conv_add_uminus)
qed

lemma uint_xor_top_bit:
  fixes x s :: "'a::len word"
  assumes s: "s = push_bit (LENGTH('a) - 1) 1"
  shows "uint (x XOR s) = sint x + 2 ^ (LENGTH('a) - 1)"
proof -
  have p: "(2::int) ^ LENGTH('a) = 2 * 2 ^ (LENGTH('a) - 1)"
    by (metis One_nat_def Suc_pred len_gt_0 power_Suc)
  have "x XOR s = x + s" by (rule xor_top_bit_add [OF s])
  also have "\<dots> = word_of_int (sint x + 2 ^ (LENGTH('a) - 1))"
    by (simp add: s push_bit_eq_mult)
  finally have "uint (x XOR s) = (sint x + 2 ^ (LENGTH('a) - 1)) mod 2 ^ LENGTH('a)"
    by (simp only: uint_word_of_int)
  also have "\<dots> = sint x + 2 ^ (LENGTH('a) - 1)"
    using sint_greater_eq [of x] sint_less [of x] p by (intro mod_pos_pos_trivial) auto
  finally show ?thesis .
qed

lemma less_xor_top_bit:
  fixes x y s :: "'a::len word"
  assumes "s = push_bit (LENGTH('a) - 1) 1"
  shows "x XOR s < y XOR s \<longleftrightarrow> sint x < sint y"
  by (simp add: word_less_alt uint_xor_top_bit [OF assms])

lemma encode_i8_less: "encode_i8 x < encode_i8 y \<longleftrightarrow> sint x < sint y"
  unfolding encode_i8_def by (rule less_xor_top_bit) (simp add: push_bit_eq_mult)

lemma encode_i16_less: "encode_i16 x < encode_i16 y \<longleftrightarrow> sint x < sint y"
  unfolding encode_i16_def by (rule less_xor_top_bit) (simp add: push_bit_eq_mult)

lemma encode_i32_less: "encode_i32 x < encode_i32 y \<longleftrightarrow> sint x < sint y"
  unfolding encode_i32_def by (rule less_xor_top_bit) (simp add: push_bit_eq_mult)

lemma encode_i64_less: "encode_i64 x < encode_i64 y \<longleftrightarrow> sint x < sint y"
  unfolding encode_i64_def by (rule less_xor_top_bit) (simp add: push_bit_eq_mult)

lemma decode_encode_int [simp]:
  "decode_i8 (encode_i8 a) = a" "decode_i16 (encode_i16 b) = b"
  "decode_i32 (encode_i32 c) = c" "decode_i64 (encode_i64 d) = d"
  by (simp_all add: decode_i8_def encode_i8_def decode_i16_def encode_i16_def
      decode_i32_def encode_i32_def decode_i64_def encode_i64_def xor.assoc)

section \<open>Float lemmas\<close>

lemma uint_top_split:
  fixes x :: "'a::len word"
  assumes "LENGTH('a) = Suc n"
  shows "uint x = of_bool (bit x n) * 2 ^ n + uint (x AND mask n)"
proof -
  have "uint x = take_bit (Suc n) (uint x)" by (metis assms bintr_uint order_refl)
  also have "\<dots> = 2 ^ n * of_bool (bit x n) + take_bit n (uint x)"
    by (simp add: take_bit_Suc_from_most bit_uint_iff assms)
  also have "take_bit n (uint x) = uint (x AND mask n)"
    by (simp add: unsigned_take_bit_eq flip: take_bit_eq_mask)
  finally show ?thesis by simp
qed

lemma uint_or_top:
  fixes x :: "'a::len word"
  assumes n: "LENGTH('a) = Suc n"
  shows "uint (x OR push_bit n 1) = 2 ^ n + uint (x AND mask n)"
proof -
  have "bit (x OR push_bit n 1) n" using n by (simp add: bit_simps)
  moreover have "(x OR push_bit n 1) AND mask n = x AND mask n"
    by (rule bit_word_eqI) (auto simp: bit_simps)
  ultimately show ?thesis using uint_top_split [OF n, of "x OR push_bit n 1"] by simp
qed

lemma uint_not_word:
  fixes x :: "'a::len word"
  shows "uint (NOT x) = 2 ^ LENGTH('a) - 1 - uint x"
proof -
  have "uint (NOT x) = take_bit LENGTH('a) (NOT (uint x))" by (rule unsigned_not_eq)
  also have "\<dots> = (- uint x - 1) mod 2 ^ LENGTH('a)"
    by (simp only: not_eq_complement take_bit_eq_mod)
  also have "\<dots> = ((- uint x - 1) + 2 ^ LENGTH('a)) mod 2 ^ LENGTH('a)"
    by (rule mod_add_self2 [symmetric])
  also have "(- uint x - 1) + 2 ^ LENGTH('a) = 2 ^ LENGTH('a) - 1 - uint x" by simp
  also have "\<dots> mod 2 ^ LENGTH('a) = \<dots>"
    using unsigned_less [where 'a = int, of x] unsigned_greater_eq [where 'a = int, of x]
    by (intro mod_pos_pos_trivial) linarith+
  finally show ?thesis .
qed

lemma f32_bits:
  fixes x :: "32 word"
  shows "uint (x OR 0x80000000) = 2 ^ 31 + uint (x AND 0x7FFFFFFF)"
    and "uint x = of_bool (bit x 31) * 2 ^ 31 + uint (x AND 0x7FFFFFFF)"
    and "0 \<le> uint (x AND 0x7FFFFFFF)"
  using uint_or_top [of 31 x] uint_top_split [of 31 x]
  by (simp_all add: push_bit_eq_mult mask_eq_exp_minus_1)

lemma f64_bits:
  fixes x :: "64 word"
  shows "uint (x OR 0x8000000000000000) = 2 ^ 63 + uint (x AND 0x7FFFFFFFFFFFFFFF)"
    and "uint x = of_bool (bit x 63) * 2 ^ 63 + uint (x AND 0x7FFFFFFFFFFFFFFF)"
    and "0 \<le> uint (x AND 0x7FFFFFFFFFFFFFFF)"
  using uint_or_top [of 63 x] uint_top_split [of 63 x]
  by (simp_all add: push_bit_eq_mult mask_eq_exp_minus_1)

lemma uint_encode_f32:
  assumes "\<not> f32_is_nan x"
  shows "uint (encode_f32 x) = f32_ord x + (if 0 \<le> f32_ord x then 2 ^ 31 else 2 ^ 31 - 1)"
proof (cases "0 \<le> f32_ord x")
  case True
  then have "f32_ord x = uint (x AND 0x7FFFFFFF)"
    using f32_bits(3) [of x] by (simp add: f32_ord_def split: if_splits)
  moreover have "encode_f32 x = x OR 0x80000000"
    using True assms by (simp add: encode_f32_def f32_ge_zero_def)
  ultimately show ?thesis using True f32_bits(1) [of x] by simp
next
  case False
  then have "bit x 31" and "f32_ord x = - uint (x AND 0x7FFFFFFF)"
    using f32_bits(3) [of x] by (simp_all add: f32_ord_def split: if_splits)
  moreover have "encode_f32 x = NOT x"
    using False by (simp add: encode_f32_def f32_ge_zero_def)
  ultimately show ?thesis
    using False f32_bits(2) [of x] uint_not_word [of x] by (simp del: not_eq_complement)
qed

lemma uint_encode_f64:
  assumes "\<not> f64_is_nan x"
  shows "uint (encode_f64 x) = f64_ord x + (if 0 \<le> f64_ord x then 2 ^ 63 else 2 ^ 63 - 1)"
proof (cases "0 \<le> f64_ord x")
  case True
  then have "f64_ord x = uint (x AND 0x7FFFFFFFFFFFFFFF)"
    using f64_bits(3) [of x] by (simp add: f64_ord_def split: if_splits)
  moreover have "encode_f64 x = x OR 0x8000000000000000"
    using True assms by (simp add: encode_f64_def f64_ge_zero_def)
  ultimately show ?thesis using True f64_bits(1) [of x] by simp
next
  case False
  then have "bit x 63" and "f64_ord x = - uint (x AND 0x7FFFFFFFFFFFFFFF)"
    using f64_bits(3) [of x] by (simp_all add: f64_ord_def split: if_splits)
  moreover have "encode_f64 x = NOT x"
    using False by (simp add: encode_f64_def f64_ge_zero_def)
  ultimately show ?thesis
    using False f64_bits(2) [of x] uint_not_word [of x] by (simp del: not_eq_complement)
qed

lemma encode_f32_less:
  "\<not> f32_is_nan x \<Longrightarrow> \<not> f32_is_nan y \<Longrightarrow> encode_f32 x < encode_f32 y \<longleftrightarrow> f32_less x y"
  by (simp add: word_less_alt uint_encode_f32 f32_less_def)

lemma encode_f64_less:
  "\<not> f64_is_nan x \<Longrightarrow> \<not> f64_is_nan y \<Longrightarrow> encode_f64 x < encode_f64 y \<longleftrightarrow> f64_less x y"
  by (simp add: word_less_alt uint_encode_f64 f64_less_def)

lemma top_bit_words:
  fixes x :: "'a::len word"
  assumes n: "LENGTH('a) = Suc n"
  shows "drop_bit n (x AND push_bit n 1) = of_bool (bit x n)"
    and "x AND NOT (push_bit n 1) = x AND mask n"
    and "bit (x OR push_bit n 1) n"
    and "(x OR push_bit n 1) AND mask n = x AND mask n"
  by (rule bit_word_eqI; use n in \<open>auto simp: bit_simps\<close>)+
     (use n in \<open>auto simp: bit_simps intro!: bit_word_eqI\<close>)

lemma decode_f32_alt: "decode_f32 x = (if bit x 31 then x AND 0x7FFFFFFF else NOT x)"
  using top_bit_words(1,2) [of 31 x]
  by (simp add: decode_f32_def push_bit_eq_mult mask_eq_exp_minus_1)

lemma f32_or_top:
  fixes x :: "32 word"
  shows "bit (x OR 0x80000000) 31" and "(x OR 0x80000000) AND 0x7FFFFFFF = x AND 0x7FFFFFFF"
  using top_bit_words(3,4) [of 31 x] by (simp_all add: push_bit_eq_mult mask_eq_exp_minus_1)

lemma decode_encode_f32:
  assumes "\<not> f32_is_nan x"
  shows "decode_f32 (encode_f32 x) = (if x = 0x80000000 then 0 else x)"
proof (cases "0 \<le> f32_ord x")
  case True
  then have enc: "encode_f32 x = x OR 0x80000000"
    using assms by (simp add: encode_f32_def f32_ge_zero_def)
  have dec: "decode_f32 (encode_f32 x) = x AND 0x7FFFFFFF"
    by (simp add: enc decode_f32_alt f32_or_top)
  show ?thesis
  proof (cases "bit x 31")
    case False
    then have "uint x = uint (x AND 0x7FFFFFFF)" using f32_bits(2) [of x] by simp
    then have "x = x AND 0x7FFFFFFF" by (simp only: word_uint_eq_iff)
    moreover have "x \<noteq> 0x80000000" using False by auto
    ultimately show ?thesis using dec by simp
  next
    case bit: True
    then have z: "uint (x AND 0x7FFFFFFF) = 0"
      using True f32_bits(3) [of x] by (simp add: f32_ord_def)
    then have "uint x = uint (0x80000000 :: 32 word)"
      using bit f32_bits(2) [of x] by simp
    then have "x = 0x80000000" by (simp only: word_uint_eq_iff)
    then show ?thesis using dec by simp
  qed
next
  case False
  then have "encode_f32 x = NOT x" by (simp add: encode_f32_def f32_ge_zero_def)
  moreover have "bit x 31" and "uint (x AND 0x7FFFFFFF) \<noteq> 0"
    using False f32_bits(3) [of x] by (simp_all add: f32_ord_def split: if_splits)
  moreover from this have "x \<noteq> 0x80000000" by auto
  moreover have "\<not> bit (NOT x) 31" using \<open>bit x 31\<close> by (simp add: bit_not_iff)
  ultimately show ?thesis by (simp add: decode_f32_alt)
qed

lemma decode_f64_alt: "decode_f64 x = (if bit x 63 then x AND 0x7FFFFFFFFFFFFFFF else NOT x)"
  using top_bit_words(1,2) [of 63 x]
  by (simp add: decode_f64_def push_bit_eq_mult mask_eq_exp_minus_1)

lemma f64_or_top:
  fixes x :: "64 word"
  shows "bit (x OR 0x8000000000000000) 63" and "(x OR 0x8000000000000000) AND 0x7FFFFFFFFFFFFFFF = x AND 0x7FFFFFFFFFFFFFFF"
  using top_bit_words(3,4) [of 63 x] by (simp_all add: push_bit_eq_mult mask_eq_exp_minus_1)

lemma decode_encode_f64:
  assumes "\<not> f64_is_nan x"
  shows "decode_f64 (encode_f64 x) = (if x = 0x8000000000000000 then 0 else x)"
proof (cases "0 \<le> f64_ord x")
  case True
  then have enc: "encode_f64 x = x OR 0x8000000000000000"
    using assms by (simp add: encode_f64_def f64_ge_zero_def)
  have dec: "decode_f64 (encode_f64 x) = x AND 0x7FFFFFFFFFFFFFFF"
    by (simp add: enc decode_f64_alt f64_or_top)
  show ?thesis
  proof (cases "bit x 63")
    case False
    then have "uint x = uint (x AND 0x7FFFFFFFFFFFFFFF)" using f64_bits(2) [of x] by simp
    then have "x = x AND 0x7FFFFFFFFFFFFFFF" by (simp only: word_uint_eq_iff)
    moreover have "x \<noteq> 0x8000000000000000" using False by auto
    ultimately show ?thesis using dec by simp
  next
    case bit: True
    then have z: "uint (x AND 0x7FFFFFFFFFFFFFFF) = 0"
      using True f64_bits(3) [of x] by (simp add: f64_ord_def)
    then have "uint x = uint (0x8000000000000000 :: 64 word)"
      using bit f64_bits(2) [of x] by simp
    then have "x = 0x8000000000000000" by (simp only: word_uint_eq_iff)
    then show ?thesis using dec by simp
  qed
next
  case False
  then have "encode_f64 x = NOT x" by (simp add: encode_f64_def f64_ge_zero_def)
  moreover have "bit x 63" and "uint (x AND 0x7FFFFFFFFFFFFFFF) \<noteq> 0"
    using False f64_bits(3) [of x] by (simp_all add: f64_ord_def split: if_splits)
  moreover from this have "x \<noteq> 0x8000000000000000" by auto
  moreover have "\<not> bit (NOT x) 63" using \<open>bit x 63\<close> by (simp add: bit_not_iff)
  ultimately show ?thesis by (simp add: decode_f64_alt)
qed

lemma encode_f32_eq:
  "\<not> f32_is_nan x \<Longrightarrow> \<not> f32_is_nan y \<Longrightarrow> \<not> f32_less x y \<Longrightarrow> \<not> f32_less y x \<Longrightarrow>
   encode_f32 x = encode_f32 y"
  using encode_f32_less [of x y] encode_f32_less [of y x] by simp

lemma encode_f64_eq:
  "\<not> f64_is_nan x \<Longrightarrow> \<not> f64_is_nan y \<Longrightarrow> \<not> f64_less x y \<Longrightarrow> \<not> f64_less y x \<Longrightarrow>
   encode_f64 x = encode_f64 y"
  using encode_f64_less [of x y] encode_f64_less [of y x] by simp

lemma f32_positive_nan:
  assumes "f32_is_nan x" and "\<not> bit x 31"
  shows "decode_f32 (encode_f32 x) = NOT x AND 0x7FFFFFFF"
proof -
  have "encode_f32 x = NOT x" using assms by (simp add: encode_f32_def f32_ge_zero_def)
  moreover have "bit (NOT x) 31" using assms by (simp add: bit_not_iff)
  ultimately show ?thesis by (simp add: decode_f32_alt)
qed

end
