(* ===== verification/TableKeys.thy ===== *)
theory TableKeys
  imports KeyEncoder
begin

text \<open>
  Memory-comparable keys: the builder \<^verbatim>\<open>MutTableKey\<close>
  (\<^verbatim>\<open>include/common/mut_table_key.h\<close>, \<^verbatim>\<open>src/common/mut_table_key.cpp\<close>)
  and the reader \<^verbatim>\<open>TableKey\<close> (\<^verbatim>\<open>include/common/table_key.h\<close>,
  \<^verbatim>\<open>src/common/table_key.cpp\<close>). A read outside the key's buffer, which the code
  does not check in the \<^verbatim>\<open>extract_*\<close> functions, is the value \<^term>\<open>None\<close>.
  The locale \<open>key_codec\<close> is the contract of one append/extract pair; it is
  interpreted on every pair of the two classes and on whole values.
\<close>

section \<open>Values and keys\<close>

datatype primitive_type =
    INVALID_TYPE | NULL_TYPE | BOOL | INT8 | INT16 | INT32 | INT64 | UINT8 | UINT16 | UINT32
  | UINT64 | FLOAT | DOUBLE | STRING | DATETIME | TIMESTAMP | DATE | HLL | TIME | PLACE_HOLDER
  | HEX | BITMAP | TDIGEST | JSON | MAXVALUE_TYPE

text \<open>
  \<^verbatim>\<open>ExprValue\<close>: the type tag together with the union member that tag selects.
  Types that a key cannot hold are \<open>VOther\<close>.
\<close>

datatype expr_value =
    VBool bool | VInt8 "8 word" | VInt16 "16 word" | VInt32 "32 word" | VInt64 "64 word"
  | VUint8 "8 word" | VUint16 "16 word" | VUint32 "32 word" | VUint64 "64 word"
  | VFloat "32 word" | VDouble "64 word" | VString bytes
  | VDatetime "64 word" | VTimestamp "32 word" | VDate "32 word" | VTime "32 word"
  | VOther primitive_type

fun value_type :: "expr_value \<Rightarrow> primitive_type" where
  "value_type (VBool _) = BOOL"
| "value_type (VInt8 _) = INT8"
| "value_type (VInt16 _) = INT16"
| "value_type (VInt32 _) = INT32"
| "value_type (VInt64 _) = INT64"
| "value_type (VUint8 _) = UINT8"
| "value_type (VUint16 _) = UINT16"
| "value_type (VUint32 _) = UINT32"
| "value_type (VUint64 _) = UINT64"
| "value_type (VFloat _) = FLOAT"
| "value_type (VDouble _) = DOUBLE"
| "value_type (VString _) = STRING"
| "value_type (VDatetime _) = DATETIME"
| "value_type (VTimestamp _) = TIMESTAMP"
| "value_type (VDate _) = DATE"
| "value_type (VTime _) = TIME"
| "value_type (VOther t) = t"

record mut_table_key =
  mk_full :: bool
  mk_data :: bytes

record table_key =
  tk_full :: bool
  tk_data :: bytes

section \<open>MutTableKey\<close>

definition mut_key_empty :: mut_table_key where
  "mut_key_empty = \<lparr>mk_full = False, mk_data = []\<rparr>"

definition mut_key_of :: "table_key \<Rightarrow> mut_table_key" where
  "mut_key_of k = \<lparr>mk_full = tk_full k, mk_data = tk_data k\<rparr>"

text \<open>\<^verbatim>\<open>std::string::append\<close> and \<^verbatim>\<open>std::string::replace\<close> on the data;
  replacing at a position past the end throws, which is \<^term>\<open>None\<close>.\<close>

definition key_append :: "bytes \<Rightarrow> mut_table_key \<Rightarrow> mut_table_key" where
  "key_append bs k = k\<lparr>mk_data := mk_data k @ bs\<rparr>"

definition key_replace :: "nat \<Rightarrow> nat \<Rightarrow> bytes \<Rightarrow> mut_table_key \<Rightarrow> mut_table_key option" where
  "key_replace pos len bs k =
     (if length (mk_data k) < pos then None
      else Some (k\<lparr>mk_data := take pos (mk_data k) @ bs @ drop (pos + len) (mk_data k)\<rparr>))"

definition append_i8 :: "bool \<Rightarrow> 8 word \<Rightarrow> mut_table_key \<Rightarrow> mut_table_key" where
  "append_i8 big val = key_append (mem_bytes big 1 (encode_i8 val))"

definition append_u8 :: "bool \<Rightarrow> 8 word \<Rightarrow> mut_table_key \<Rightarrow> mut_table_key" where
  "append_u8 big val = key_append (mem_bytes big 1 val)"

definition replace_u8 :: "bool \<Rightarrow> 8 word \<Rightarrow> nat \<Rightarrow> mut_table_key \<Rightarrow> mut_table_key option" where
  "replace_u8 big val pos = key_replace pos 1 (mem_bytes big 1 val)"

definition append_i16 :: "bool \<Rightarrow> 16 word \<Rightarrow> mut_table_key \<Rightarrow> mut_table_key" where
  "append_i16 big val = key_append (mem_bytes big 2 (to_endian_u16 big (encode_i16 val)))"

definition append_u16 :: "bool \<Rightarrow> 16 word \<Rightarrow> mut_table_key \<Rightarrow> mut_table_key" where
  "append_u16 big val = key_append (mem_bytes big 2 (to_endian_u16 big val))"

definition append_i32 :: "bool \<Rightarrow> 32 word \<Rightarrow> mut_table_key \<Rightarrow> mut_table_key" where
  "append_i32 big val = key_append (mem_bytes big 4 (to_endian_u32 big (encode_i32 val)))"

definition replace_i32 :: "bool \<Rightarrow> 32 word \<Rightarrow> nat \<Rightarrow> mut_table_key \<Rightarrow> mut_table_key option" where
  "replace_i32 big val pos =
     key_replace pos 4 (mem_bytes big 4 (to_endian_u32 big (encode_i32 val)))"

definition append_u32 :: "bool \<Rightarrow> 32 word \<Rightarrow> mut_table_key \<Rightarrow> mut_table_key" where
  "append_u32 big val = key_append (mem_bytes big 4 (to_endian_u32 big val))"

definition replace_u32 :: "bool \<Rightarrow> 32 word \<Rightarrow> nat \<Rightarrow> mut_table_key \<Rightarrow> mut_table_key option" where
  "replace_u32 big val pos = key_replace pos 4 (mem_bytes big 4 (to_endian_u32 big val))"

definition append_i64 :: "bool \<Rightarrow> 64 word \<Rightarrow> mut_table_key \<Rightarrow> mut_table_key" where
  "append_i64 big val = key_append (mem_bytes big 8 (to_endian_u64 big (encode_i64 val)))"

definition replace_i64 :: "bool \<Rightarrow> 64 word \<Rightarrow> nat \<Rightarrow> mut_table_key \<Rightarrow> mut_table_key option" where
  "replace_i64 big val pos =
     key_replace pos 8 (mem_bytes big 8 (to_endian_u64 big (encode_i64 val)))"

definition append_u64 :: "bool \<Rightarrow> 64 word \<Rightarrow> mut_table_key \<Rightarrow> mut_table_key" where
  "append_u64 big val = key_append (mem_bytes big 8 (to_endian_u64 big val))"

definition replace_u64 :: "bool \<Rightarrow> 64 word \<Rightarrow> nat \<Rightarrow> mut_table_key \<Rightarrow> mut_table_key option" where
  "replace_u64 big val pos = key_replace pos 8 (mem_bytes big 8 (to_endian_u64 big val))"

definition append_float :: "bool \<Rightarrow> 32 word \<Rightarrow> mut_table_key \<Rightarrow> mut_table_key" where
  "append_float big val = key_append (mem_bytes big 4 (to_endian_u32 big (encode_f32 val)))"

definition append_double :: "bool \<Rightarrow> 64 word \<Rightarrow> mut_table_key \<Rightarrow> mut_table_key" where
  "append_double big val = key_append (mem_bytes big 8 (to_endian_u64 big (encode_f64 val)))"

definition append_string :: "bytes \<Rightarrow> mut_table_key \<Rightarrow> mut_table_key" where
  "append_string val k = key_append [0] (key_append val k)"

definition append_string_prefix :: "bytes \<Rightarrow> mut_table_key \<Rightarrow> mut_table_key" where
  "append_string_prefix val = key_append val"

definition append_char :: "bytes \<Rightarrow> mut_table_key \<Rightarrow> mut_table_key" where
  "append_char data = key_append data"

definition append_boolean :: "bool \<Rightarrow> bool \<Rightarrow> mut_table_key \<Rightarrow> mut_table_key" where
  "append_boolean big val = key_append (mem_bytes big 1 (if val then 1 else 0 :: 8 word))"

fun append_value :: "bool \<Rightarrow> expr_value \<Rightarrow> mut_table_key \<Rightarrow> mut_table_key" where
  "append_value big (VBool v) k = append_boolean big v k"
| "append_value big (VInt8 v) k = append_i8 big v k"
| "append_value big (VInt16 v) k = append_i16 big v k"
| "append_value big (VInt32 v) k = append_i32 big v k"
| "append_value big (VTime v) k = append_i32 big v k"
| "append_value big (VInt64 v) k = append_i64 big v k"
| "append_value big (VUint8 v) k = append_u8 big v k"
| "append_value big (VUint16 v) k = append_u16 big v k"
| "append_value big (VUint32 v) k = append_u32 big v k"
| "append_value big (VTimestamp v) k = append_u32 big v k"
| "append_value big (VDate v) k = append_u32 big v k"
| "append_value big (VUint64 v) k = append_u64 big v k"
| "append_value big (VDatetime v) k = append_u64 big v k"
| "append_value big (VFloat v) k = append_float big v k"
| "append_value big (VDouble v) k = append_double big v k"
| "append_value big (VString v) k = append_string v k"
| "append_value big (VOther t) k = k"

definition append_index :: "table_key \<Rightarrow> mut_table_key \<Rightarrow> mut_table_key" where
  "append_index key k = key_append (tk_data key) k"

definition append_index_mut :: "mut_table_key \<Rightarrow> mut_table_key \<Rightarrow> mut_table_key" where
  "append_index_mut key k = key_append (mk_data key) k"

definition set_full :: "bool \<Rightarrow> mut_table_key \<Rightarrow> mut_table_key" where
  "set_full full k = k\<lparr>mk_full := full\<rparr>"

fun replace_partition_col :: "bool \<Rightarrow> expr_value \<Rightarrow> nat \<Rightarrow> mut_table_key \<Rightarrow> mut_table_key option" where
  "replace_partition_col big (VDate v) pos k = replace_u32 big v pos k"
| "replace_partition_col big (VDatetime v) pos k = replace_u64 big v pos k"
| "replace_partition_col big _ pos k = Some k"

section \<open>TableKey\<close>

definition table_key_of :: "mut_table_key \<Rightarrow> table_key" where
  "table_key_of k = \<lparr>tk_full = mk_full k, tk_data = mk_data k\<rparr>"

text \<open>The order of keys: \<^verbatim>\<open>rocksdb::Slice::compare\<close> as a sign.\<close>

definition slice_compare :: "bytes \<Rightarrow> bytes \<Rightarrow> int" where
  "slice_compare a b = (if a = b then 0 else if a < b then -1 else 1)"

definition end_key_compare :: "bytes \<Rightarrow> bytes \<Rightarrow> int" where
  "end_key_compare key1 key2 =
     (if key1 = key2 then 0
      else if key1 = [] then 1
      else if key2 = [] then -1
      else slice_compare key1 key2)"

definition key_read :: "table_key \<Rightarrow> nat \<Rightarrow> nat \<Rightarrow> bytes option" where
  "key_read k pos n =
     (if pos + n \<le> length (tk_data k) then Some (take n (drop pos (tk_data k))) else None)"

definition extract_i8 :: "bool \<Rightarrow> table_key \<Rightarrow> nat \<Rightarrow> 8 word option" where
  "extract_i8 big k pos = map_option (\<lambda>c. decode_i8 (mem_word big c)) (key_read k pos 1)"

definition extract_u8 :: "bool \<Rightarrow> table_key \<Rightarrow> nat \<Rightarrow> 8 word option" where
  "extract_u8 big k pos = map_option (mem_word big) (key_read k pos 1)"

definition extract_i16 :: "bool \<Rightarrow> table_key \<Rightarrow> nat \<Rightarrow> 16 word option" where
  "extract_i16 big k pos =
     map_option (\<lambda>c. decode_i16 (to_endian_u16 big (mem_word big c))) (key_read k pos 2)"

definition extract_u16 :: "bool \<Rightarrow> table_key \<Rightarrow> nat \<Rightarrow> 16 word option" where
  "extract_u16 big k pos =
     map_option (\<lambda>c. to_endian_u16 big (mem_word big c)) (key_read k pos 2)"

definition extract_i32 :: "bool \<Rightarrow> table_key \<Rightarrow> nat \<Rightarrow> 32 word option" where
  "extract_i32 big k pos =
     map_option (\<lambda>c. decode_i32 (to_endian_u32 big (mem_word big c))) (key_read k pos 4)"

definition extract_u32 :: "bool \<Rightarrow> table_key \<Rightarrow> nat \<Rightarrow> 32 word option" where
  "extract_u32 big k pos =
     map_option (\<lambda>c. to_endian_u32 big (mem_word big c)) (key_read k pos 4)"

definition extract_i64 :: "bool \<Rightarrow> table_key \<Rightarrow> nat \<Rightarrow> 64 word option" where
  "extract_i64 big k pos =
     map_option (\<lambda>c. decode_i64 (to_endian_u64 big (mem_word big c))) (key_read k pos 8)"

definition extract_u64 :: "bool \<Rightarrow> table_key \<Rightarrow> nat \<Rightarrow> 64 word option" where
  "extract_u64 big k pos =
     map_option (\<lambda>c. to_endian_u64 big (mem_word big c)) (key_read k pos 8)"

definition extract_float :: "bool \<Rightarrow> table_key \<Rightarrow> nat \<Rightarrow> 32 word option" where
  "extract_float big k pos =
     map_option (\<lambda>c. decode_f32 (to_endian_u32 big (mem_word big c))) (key_read k pos 4)"

definition extract_double :: "bool \<Rightarrow> table_key \<Rightarrow> nat \<Rightarrow> 64 word option" where
  "extract_double big k pos =
     map_option (\<lambda>c. decode_f64 (to_endian_u64 big (mem_word big c))) (key_read k pos 8)"

definition extract_boolean :: "bool \<Rightarrow> table_key \<Rightarrow> nat \<Rightarrow> bool option" where
  "extract_boolean big k pos =
     map_option (\<lambda>c. (mem_word big c :: 8 word) \<noteq> 0) (key_read k pos 1)"

definition extract_string :: "table_key \<Rightarrow> nat \<Rightarrow> bytes option" where
  "extract_string k pos =
     (let s = drop pos (tk_data k) in map_option (\<lambda>n. take n s) (c_strlen s))"

definition extract_char :: "table_key \<Rightarrow> nat \<Rightarrow> nat \<Rightarrow> bytes option" where
  "extract_char k pos len = key_read k pos len"

section \<open>Reading fields of a key\<close>

text \<open>
  The error results of the field readers: \<open>Out_Of_Bound\<close> is the code's return
  value -2, \<open>Unsupported_Type\<close> its return value -1. A string field that is not
  terminated inside the key, where the code reads on behind its end, is
  \<open>Unterminated\<close>.
\<close>

datatype key_error = Out_Of_Bound | Unsupported_Type | Unterminated

text \<open>The \<^verbatim>\<open>sizeof\<close> of the fixed-width key types.\<close>

fun fixed_size :: "primitive_type \<Rightarrow> nat option" where
  "fixed_size INT8 = Some 1"
| "fixed_size INT16 = Some 2"
| "fixed_size TIME = Some 4"
| "fixed_size INT32 = Some 4"
| "fixed_size INT64 = Some 8"
| "fixed_size UINT8 = Some 1"
| "fixed_size UINT16 = Some 2"
| "fixed_size TIMESTAMP = Some 4"
| "fixed_size DATE = Some 4"
| "fixed_size UINT32 = Some 4"
| "fixed_size DATETIME = Some 8"
| "fixed_size UINT64 = Some 8"
| "fixed_size FLOAT = Some 4"
| "fixed_size DOUBLE = Some 8"
| "fixed_size BOOL = Some 1"
| "fixed_size _ = None"

definition fixed_field ::
  "table_key \<Rightarrow> nat \<Rightarrow> nat \<Rightarrow> ('a \<Rightarrow> 'v) \<Rightarrow> 'a option \<Rightarrow> key_error + ('v \<times> nat)" where
  "fixed_field k n pos con r =
     (if length (tk_data k) < pos + n then Inl Out_Of_Bound
      else case r of None \<Rightarrow> Inl Out_Of_Bound | Some v \<Rightarrow> Inr (con v, pos + n))"

definition string_field :: "table_key \<Rightarrow> nat \<Rightarrow> (bytes \<Rightarrow> 'v) \<Rightarrow> key_error + ('v \<times> nat)" where
  "string_field k pos con =
     (if length (tk_data k) \<le> pos then Inl Out_Of_Bound
      else case extract_string k pos of
        None \<Rightarrow> Inl Unterminated
      | Some str \<Rightarrow> Inr (con str, pos + length str + 1))"

text \<open>
  The narrow integer types are stored through the 32-bit member of the value's
  union and read through their own member, its first bytes in memory.
\<close>

definition union_8 :: "bool \<Rightarrow> 32 word \<Rightarrow> 8 word" where
  "union_8 big w = mem_word big (take 1 (mem_bytes big 4 w))"

definition union_16 :: "bool \<Rightarrow> 32 word \<Rightarrow> 16 word" where
  "union_16 big w = mem_word big (take 2 (mem_bytes big 4 w))"

definition decode_field_for_chunk ::
  "bool \<Rightarrow> table_key \<Rightarrow> primitive_type \<Rightarrow> nat \<Rightarrow> key_error + (expr_value \<times> nat)" where
  "decode_field_for_chunk big k t pos =
     (case t of
        INT8 \<Rightarrow> fixed_field k 1 pos (\<lambda>v. VInt8 (union_8 big (scast v))) (extract_i8 big k pos)
      | INT16 \<Rightarrow> fixed_field k 2 pos (\<lambda>v. VInt16 (union_16 big (scast v))) (extract_i16 big k pos)
      | TIME \<Rightarrow> fixed_field k 4 pos VTime (extract_i32 big k pos)
      | INT32 \<Rightarrow> fixed_field k 4 pos VInt32 (extract_i32 big k pos)
      | INT64 \<Rightarrow> fixed_field k 8 pos VInt64 (extract_i64 big k pos)
      | UINT8 \<Rightarrow> fixed_field k 1 pos (\<lambda>v. VUint8 (union_8 big (ucast v))) (extract_u8 big k pos)
      | UINT16 \<Rightarrow> fixed_field k 2 pos (\<lambda>v. VUint16 (union_16 big (ucast v))) (extract_u16 big k pos)
      | TIMESTAMP \<Rightarrow> fixed_field k 4 pos VTimestamp (extract_u32 big k pos)
      | DATE \<Rightarrow> fixed_field k 4 pos VDate (extract_u32 big k pos)
      | UINT32 \<Rightarrow> fixed_field k 4 pos VUint32 (extract_u32 big k pos)
      | DATETIME \<Rightarrow> fixed_field k 8 pos VDatetime (extract_u64 big k pos)
      | UINT64 \<Rightarrow> fixed_field k 8 pos VUint64 (extract_u64 big k pos)
      | FLOAT \<Rightarrow> fixed_field k 4 pos VFloat (extract_float big k pos)
      | DOUBLE \<Rightarrow> fixed_field k 8 pos VDouble (extract_double big k pos)
      | BOOL \<Rightarrow> fixed_field k 1 pos VBool (extract_boolean big k pos)
      | STRING \<Rightarrow> string_field k pos VString
      | _ \<Rightarrow> Inl Unsupported_Type)"

definition skip_field :: "table_key \<Rightarrow> primitive_type \<Rightarrow> nat \<Rightarrow> key_error + nat" where
  "skip_field k t pos =
     (case fixed_size t of
        Some n \<Rightarrow> Inr (pos + n)
      | None \<Rightarrow>
          if t = STRING then
            (if length (tk_data k) \<le> pos then Inl Out_Of_Bound
             else case c_strlen (drop pos (tk_data k)) of
               None \<Rightarrow> Inl Unterminated
             | Some n \<Rightarrow> Inr (pos + n + 1))
          else Inl Unsupported_Type)"

text \<open>
  The position of a partition column; -1 says there is none. The result is
  \<^term>\<open>None\<close> where \<^verbatim>\<open>strlen\<close> runs past the key.
\<close>

definition get_partition_col_pos1 :: "table_key \<Rightarrow> primitive_type \<Rightarrow> nat \<Rightarrow> int option" where
  "get_partition_col_pos1 k t pos =
     (case fixed_size t of
        Some n \<Rightarrow> if length (tk_data k) < pos + n then Some (- 1) else Some (int (pos + n))
      | None \<Rightarrow>
          if t = STRING then
            (if length (tk_data k) \<le> pos then Some (- 1)
             else map_option (\<lambda>n. int (pos + n + 1)) (c_strlen (drop pos (tk_data k))))
          else Some (- 1))"

fun partition_col_loop :: "table_key \<Rightarrow> primitive_type list \<Rightarrow> int \<Rightarrow> int option" where
  "partition_col_loop k [] pos = Some pos"
| "partition_col_loop k (t # ts) pos =
     (case get_partition_col_pos1 k t (nat pos) of
        None \<Rightarrow> None
      | Some p \<Rightarrow> if p < 0 then Some p else partition_col_loop k ts p)"

definition get_partition_col_pos ::
  "table_key \<Rightarrow> primitive_type list \<Rightarrow> nat \<Rightarrow> nat \<Rightarrow> int option" where
  "get_partition_col_pos k types partition_col_num pos =
     (if length types < partition_col_num then Some (- 1)
      else partition_col_loop k (take partition_col_num types) (int pos))"

section \<open>The contract of an append/extract pair\<close>

text \<open>
  \<open>enc x\<close> are the bytes that appending \<open>x\<close> adds. Values that are \<open>exact\<close>
  are read back from any position of any key; the bytes of \<open>valid\<close> values compare
  like the values, whatever follows them.
\<close>

locale key_codec =
  fixes valid :: "'a \<Rightarrow> bool"
    and exact :: "'a \<Rightarrow> bool"
    and less :: "'a \<Rightarrow> 'a \<Rightarrow> bool"
    and enc :: "'a \<Rightarrow> bytes"
    and app :: "'a \<Rightarrow> mut_table_key \<Rightarrow> mut_table_key"
    and ext :: "table_key \<Rightarrow> nat \<Rightarrow> 'a option"
  assumes app_enc: "app x key = key_append (enc x) key"
    and ext_enc: "exact x \<Longrightarrow> tk_data k = pre @ enc x @ post \<Longrightarrow> ext k (length pre) = Some x"
    and enc_less: "valid x \<Longrightarrow> valid y \<Longrightarrow> less x y \<Longrightarrow> enc x @ us < enc y @ vs"
    and enc_eq: "valid x \<Longrightarrow> valid y \<Longrightarrow> \<not> less x y \<Longrightarrow> \<not> less y x \<Longrightarrow> enc x = enc y"
begin

lemma app_data: "mk_data (app x k) = mk_data k @ enc x"
  by (simp add: app_enc key_append_def)

lemma less_asym: "valid x \<Longrightarrow> valid y \<Longrightarrow> less x y \<Longrightarrow> \<not> less y x"
  using enc_less [of x y "[]" "[]"] enc_less [of y x "[]" "[]"] by auto

lemma enc_order:
  assumes "valid x" and "valid y"
  shows "enc x @ us < enc y @ vs \<longleftrightarrow> less x y \<or> (\<not> less y x \<and> us < vs)"
proof -
  consider "less x y" | "less y x" | "\<not> less x y" "\<not> less y x" by blast
  then show ?thesis
  proof cases
    case 1
    then show ?thesis using enc_less assms by auto
  next
    case 2
    then have "enc y @ vs < enc x @ us" using enc_less assms by blast
    then show ?thesis using 2 less_asym [of y x] assms by auto
  next
    case 3
    then have "enc x = enc y" using enc_eq assms by blast
    then show ?thesis using 3 by (simp add: lex_append_same)
  qed
qed

lemma ext_app:
  "exact x \<Longrightarrow> tk_data k = mk_data (app x key) @ post \<Longrightarrow> ext k (length (mk_data key)) = Some x"
  using ext_enc [of x k "mk_data key" post] by (simp add: app_data)

lemma enc_inject: "exact x \<Longrightarrow> exact y \<Longrightarrow> enc x = enc y \<Longrightarrow> x = y"
  using ext_enc [of x "\<lparr>tk_full = False, tk_data = enc y\<rparr>" "[]" "[]"]
    ext_enc [of y "\<lparr>tk_full = False, tk_data = enc y\<rparr>" "[]" "[]"] by simp

end

section \<open>The pairs of the two classes\<close>

lemma key_read_at:
  "tk_data k = pre @ bs @ post \<Longrightarrow> n = length bs \<Longrightarrow> key_read k (length pre) n = Some bs"
  by (simp add: key_read_def)

lemma mem_bytes_1 [key_simps]: "mem_bytes big (Suc 0) (b :: byte) = [b]"
  by (simp add: mem_bytes_def be_bytes_def le_bytes_def)

lemma mem_word_1 [key_simps]: "mem_word big [b] = (b :: byte)"
  by (simp add: mem_word_def be_word_def)

lemma length_be_bytes_eq: "n = length (be_bytes n w)"
  by simp

lemma be_bytes_less_append:
  "LENGTH('a::len) = 8 * n \<Longrightarrow> (v :: 'a word) < w \<Longrightarrow> be_bytes n v @ us < be_bytes n w @ vs"
  by (simp add: lex_append_less be_bytes_less_iff)

lemma extract_at:
  "tk_data k = pre @ [u8] @ post \<Longrightarrow> extract_u8 big k (length pre) = Some u8"
  "tk_data k = pre @ [encode_i8 i8] @ post \<Longrightarrow> extract_i8 big k (length pre) = Some i8"
  "tk_data k = pre @ [if b then 1 else 0] @ post \<Longrightarrow> extract_boolean big k (length pre) = Some b"
  "tk_data k = pre @ be_bytes 2 u16 @ post \<Longrightarrow> extract_u16 big k (length pre) = Some u16"
  "tk_data k = pre @ be_bytes 2 (encode_i16 i16) @ post \<Longrightarrow>
     extract_i16 big k (length pre) = Some i16"
  "tk_data k = pre @ be_bytes 4 u32 @ post \<Longrightarrow> extract_u32 big k (length pre) = Some u32"
  "tk_data k = pre @ be_bytes 4 (encode_i32 i32) @ post \<Longrightarrow>
     extract_i32 big k (length pre) = Some i32"
  "tk_data k = pre @ be_bytes 8 u64 @ post \<Longrightarrow> extract_u64 big k (length pre) = Some u64"
  "tk_data k = pre @ be_bytes 8 (encode_i64 i64) @ post \<Longrightarrow>
     extract_i64 big k (length pre) = Some i64"
  "tk_data k = pre @ be_bytes 4 (encode_f32 f32) @ post \<Longrightarrow>
     extract_float big k (length pre) = Some (decode_f32 (encode_f32 f32))"
  "tk_data k = pre @ be_bytes 8 (encode_f64 f64) @ post \<Longrightarrow>
     extract_double big k (length pre) = Some (decode_f64 (encode_f64 f64))"
  by (simp_all add: extract_u8_def extract_i8_def extract_boolean_def extract_u16_def
      extract_i16_def extract_u32_def extract_i32_def extract_u64_def extract_i64_def
      extract_float_def extract_double_def key_read_def key_simps)

lemma extract_string_at:
  "0 \<notin> set str \<Longrightarrow> tk_data k = pre @ (str @ [0]) @ post \<Longrightarrow>
   extract_string k (length pre) = Some str"
  by (simp add: extract_string_def)

lemma append_enc:
  "append_u8 big u8 key = key_append [u8] key"
  "append_i8 big i8 key = key_append [encode_i8 i8] key"
  "append_boolean big b key = key_append [if b then 1 else 0] key"
  "append_u16 big u16 key = key_append (be_bytes 2 u16) key"
  "append_i16 big i16 key = key_append (be_bytes 2 (encode_i16 i16)) key"
  "append_u32 big u32 key = key_append (be_bytes 4 u32) key"
  "append_i32 big i32 key = key_append (be_bytes 4 (encode_i32 i32)) key"
  "append_u64 big u64 key = key_append (be_bytes 8 u64) key"
  "append_i64 big i64 key = key_append (be_bytes 8 (encode_i64 i64)) key"
  "append_float big f32 key = key_append (be_bytes 4 (encode_f32 f32)) key"
  "append_double big f64 key = key_append (be_bytes 8 (encode_f64 f64)) key"
  "append_string str key = key_append (str @ [0]) key"
  by (simp_all add: append_u8_def append_i8_def append_boolean_def append_u16_def append_i16_def
      append_u32_def append_i32_def append_u64_def append_i64_def append_float_def
      append_double_def append_string_def key_append_def key_simps)

lemma nul_terminated_less:
  "0 \<notin> set s \<Longrightarrow> 0 \<notin> set t \<Longrightarrow> s < t \<Longrightarrow> s @ (0 :: byte) # us < t @ 0 # vs"
proof (induction s arbitrary: t)
  case Nil
  then obtain b bs where t: "t = b # bs" and "b \<noteq> 0" by (cases t) auto
  then have "0 < b" by (simp add: word_gt_0)
  then show ?case by (simp add: t)
next
  case (Cons a s)
  then show ?case by (cases t) auto
qed

interpretation ck_u8: key_codec "\<lambda>_. True" "\<lambda>_. True" "(<)" "\<lambda>x. [x]"
  "append_u8 big" "extract_u8 big" for big
  by unfold_locales (auto simp: append_enc extract_at be_bytes_less_append not_less intro: order.antisym dest!: signed_word_eqI)

interpretation ck_i8: key_codec "\<lambda>_. True" "\<lambda>_. True" "\<lambda>x y. sint x < sint y" "\<lambda>x. [encode_i8 x]"
  "append_i8 big" "extract_i8 big" for big
  by unfold_locales (auto simp: append_enc extract_at be_bytes_less_append encode_i8_less not_less intro: order.antisym dest!: signed_word_eqI)

interpretation ck_bool: key_codec "\<lambda>_. True" "\<lambda>_. True" "(<)" "\<lambda>b. [if b then 1 else 0]"
  "append_boolean big" "extract_boolean big" for big
  by unfold_locales (auto simp: append_enc extract_at be_bytes_less_append not_less intro: order.antisym dest!: signed_word_eqI)

interpretation ck_u16: key_codec "\<lambda>_. True" "\<lambda>_. True" "(<)" "be_bytes 2"
  "append_u16 big" "extract_u16 big" for big
  by unfold_locales (auto simp: append_enc extract_at be_bytes_less_append not_less intro: order.antisym dest!: signed_word_eqI)

interpretation ck_i16: key_codec "\<lambda>_. True" "\<lambda>_. True" "\<lambda>x y. sint x < sint y" "\<lambda>x. be_bytes 2 (encode_i16 x)"
  "append_i16 big" "extract_i16 big" for big
  by unfold_locales (auto simp: append_enc extract_at be_bytes_less_append encode_i16_less not_less intro: order.antisym dest!: signed_word_eqI)

interpretation ck_u32: key_codec "\<lambda>_. True" "\<lambda>_. True" "(<)" "be_bytes 4"
  "append_u32 big" "extract_u32 big" for big
  by unfold_locales (auto simp: append_enc extract_at be_bytes_less_append not_less intro: order.antisym dest!: signed_word_eqI)

interpretation ck_i32: key_codec "\<lambda>_. True" "\<lambda>_. True" "\<lambda>x y. sint x < sint y" "\<lambda>x. be_bytes 4 (encode_i32 x)"
  "append_i32 big" "extract_i32 big" for big
  by unfold_locales (auto simp: append_enc extract_at be_bytes_less_append encode_i32_less not_less intro: order.antisym dest!: signed_word_eqI)

interpretation ck_u64: key_codec "\<lambda>_. True" "\<lambda>_. True" "(<)" "be_bytes 8"
  "append_u64 big" "extract_u64 big" for big
  by unfold_locales (auto simp: append_enc extract_at be_bytes_less_append not_less intro: order.antisym dest!: signed_word_eqI)

interpretation ck_i64: key_codec "\<lambda>_. True" "\<lambda>_. True" "\<lambda>x y. sint x < sint y" "\<lambda>x. be_bytes 8 (encode_i64 x)"
  "append_i64 big" "extract_i64 big" for big
  by unfold_locales (auto simp: append_enc extract_at be_bytes_less_append encode_i64_less not_less intro: order.antisym dest!: signed_word_eqI)

interpretation ck_float: key_codec "\<lambda>x. \<not> f32_is_nan x"
  "\<lambda>x. \<not> f32_is_nan x \<and> x \<noteq> 0x80000000" "f32_less" "\<lambda>x. be_bytes 4 (encode_f32 x)"
  "append_float big" "extract_float big" for big
  by unfold_locales
     (auto simp: append_enc extract_at decode_encode_f32 be_bytes_less_append encode_f32_less
       intro!: arg_cong [where f = "be_bytes 4"] encode_f32_eq)

interpretation ck_double: key_codec "\<lambda>x. \<not> f64_is_nan x"
  "\<lambda>x. \<not> f64_is_nan x \<and> x \<noteq> 0x8000000000000000" "f64_less" "\<lambda>x. be_bytes 8 (encode_f64 x)"
  "append_double big" "extract_double big" for big
  by unfold_locales
     (auto simp: append_enc extract_at decode_encode_f64 be_bytes_less_append encode_f64_less
       intro!: arg_cong [where f = "be_bytes 8"] encode_f64_eq)

interpretation ck_string: key_codec "\<lambda>s. 0 \<notin> set s" "\<lambda>s. 0 \<notin> set s" "(<)" "\<lambda>s. s @ [0]"
  append_string extract_string
  by unfold_locales (auto simp: append_enc extract_string_at nul_terminated_less intro: order.antisym)

section \<open>Values and lists of values\<close>

text \<open>The bytes of a value, the values a key can order and read back, and their order.\<close>

fun enc_value :: "expr_value \<Rightarrow> bytes" where
  "enc_value (VBool v) = [if v then 1 else 0]"
| "enc_value (VInt8 v) = [encode_i8 v]"
| "enc_value (VInt16 v) = be_bytes 2 (encode_i16 v)"
| "enc_value (VInt32 v) = be_bytes 4 (encode_i32 v)"
| "enc_value (VTime v) = be_bytes 4 (encode_i32 v)"
| "enc_value (VInt64 v) = be_bytes 8 (encode_i64 v)"
| "enc_value (VUint8 v) = [v]"
| "enc_value (VUint16 v) = be_bytes 2 v"
| "enc_value (VUint32 v) = be_bytes 4 v"
| "enc_value (VTimestamp v) = be_bytes 4 v"
| "enc_value (VDate v) = be_bytes 4 v"
| "enc_value (VUint64 v) = be_bytes 8 v"
| "enc_value (VDatetime v) = be_bytes 8 v"
| "enc_value (VFloat v) = be_bytes 4 (encode_f32 v)"
| "enc_value (VDouble v) = be_bytes 8 (encode_f64 v)"
| "enc_value (VString v) = v @ [0]"
| "enc_value (VOther t) = []"

fun valid_value :: "expr_value \<Rightarrow> bool" where
  "valid_value (VFloat v) = (\<not> f32_is_nan v)"
| "valid_value (VDouble v) = (\<not> f64_is_nan v)"
| "valid_value (VString v) = (0 \<notin> set v)"
| "valid_value (VOther t) = False"
| "valid_value _ = True"

fun exact_value :: "expr_value \<Rightarrow> bool" where
  "exact_value (VFloat v) = (\<not> f32_is_nan v \<and> v \<noteq> 0x80000000)"
| "exact_value (VDouble v) = (\<not> f64_is_nan v \<and> v \<noteq> 0x8000000000000000)"
| "exact_value v = valid_value v"

definition value_less :: "expr_value \<Rightarrow> expr_value \<Rightarrow> bool" where
  "value_less v w =
     (case v of
        VBool a \<Rightarrow> (case w of VBool b \<Rightarrow> (a < b) | _ \<Rightarrow> False)
      | VInt8 a \<Rightarrow> (case w of VInt8 b \<Rightarrow> (sint a < sint b) | _ \<Rightarrow> False)
      | VInt16 a \<Rightarrow> (case w of VInt16 b \<Rightarrow> (sint a < sint b) | _ \<Rightarrow> False)
      | VInt32 a \<Rightarrow> (case w of VInt32 b \<Rightarrow> (sint a < sint b) | _ \<Rightarrow> False)
      | VTime a \<Rightarrow> (case w of VTime b \<Rightarrow> (sint a < sint b) | _ \<Rightarrow> False)
      | VInt64 a \<Rightarrow> (case w of VInt64 b \<Rightarrow> (sint a < sint b) | _ \<Rightarrow> False)
      | VUint8 a \<Rightarrow> (case w of VUint8 b \<Rightarrow> (a < b) | _ \<Rightarrow> False)
      | VUint16 a \<Rightarrow> (case w of VUint16 b \<Rightarrow> (a < b) | _ \<Rightarrow> False)
      | VUint32 a \<Rightarrow> (case w of VUint32 b \<Rightarrow> (a < b) | _ \<Rightarrow> False)
      | VTimestamp a \<Rightarrow> (case w of VTimestamp b \<Rightarrow> (a < b) | _ \<Rightarrow> False)
      | VDate a \<Rightarrow> (case w of VDate b \<Rightarrow> (a < b) | _ \<Rightarrow> False)
      | VUint64 a \<Rightarrow> (case w of VUint64 b \<Rightarrow> (a < b) | _ \<Rightarrow> False)
      | VDatetime a \<Rightarrow> (case w of VDatetime b \<Rightarrow> (a < b) | _ \<Rightarrow> False)
      | VFloat a \<Rightarrow> (case w of VFloat b \<Rightarrow> f32_less a b | _ \<Rightarrow> False)
      | VDouble a \<Rightarrow> (case w of VDouble b \<Rightarrow> f64_less a b | _ \<Rightarrow> False)
      | VString a \<Rightarrow> (case w of VString b \<Rightarrow> (a < b) | _ \<Rightarrow> False)
      | VOther t \<Rightarrow> False)"

definition read_value :: "bool \<Rightarrow> primitive_type \<Rightarrow> table_key \<Rightarrow> nat \<Rightarrow> expr_value option" where
  "read_value big t k pos =
     (case decode_field_for_chunk big k t pos of Inl _ \<Rightarrow> None | Inr (v, _) \<Rightarrow> Some v)"

lemma value_less_simps [simp]:
  "value_less (VBool x0) (VBool y0) = (x0 < y0)"
  "value_less (VInt8 x1) (VInt8 y1) = (sint x1 < sint y1)"
  "value_less (VInt16 x2) (VInt16 y2) = (sint x2 < sint y2)"
  "value_less (VInt32 x3) (VInt32 y3) = (sint x3 < sint y3)"
  "value_less (VTime x4) (VTime y4) = (sint x4 < sint y4)"
  "value_less (VInt64 x5) (VInt64 y5) = (sint x5 < sint y5)"
  "value_less (VUint8 x6) (VUint8 y6) = (x6 < y6)"
  "value_less (VUint16 x7) (VUint16 y7) = (x7 < y7)"
  "value_less (VUint32 x8) (VUint32 y8) = (x8 < y8)"
  "value_less (VTimestamp x9) (VTimestamp y9) = (x9 < y9)"
  "value_less (VDate x10) (VDate y10) = (x10 < y10)"
  "value_less (VUint64 x11) (VUint64 y11) = (x11 < y11)"
  "value_less (VDatetime x12) (VDatetime y12) = (x12 < y12)"
  "value_less (VFloat x13) (VFloat y13) = f32_less x13 y13"
  "value_less (VDouble x14) (VDouble y14) = f64_less x14 y14"
  "value_less (VString x15) (VString y15) = (x15 < y15)"
  by (simp_all add: value_less_def)

lemma append_value_enc: "append_value big v key = key_append (enc_value v) key"
  by (cases v) (simp_all add: append_enc, simp add: key_append_def)

lemma exact_valid: "exact_value v \<Longrightarrow> valid_value v"
  by (cases v) simp_all

lemma upt_4: "[0..<4] = [0, 1, 2, 3]"
  by (simp add: upt_rec)

lemma union_8_little [simp]:
  "union_8 False (scast (v :: 8 word)) = v" "union_8 False (ucast (v :: 8 word)) = v"
  by (simp_all add: union_8_def mem_bytes_def mem_word_def le_bytes_def upt_4 bit_eq_iff bit_simps)

lemma union_16_little [simp]:
  "union_16 False (scast (v :: 16 word)) = v" "union_16 False (ucast (v :: 16 word)) = v"
  by (auto simp: union_16_def mem_bytes_def mem_word_def le_bytes_def upt_4 bit_eq_iff bit_simps)

lemma decode_value_at:
  assumes "exact_value v" and "tk_data k = pre @ enc_value v @ post"
  shows "decode_field_for_chunk False k (value_type v) (length pre) =
    Inr (v, length pre + length (enc_value v))"
  using assms
  by (cases v) (simp_all add: decode_field_for_chunk_def fixed_field_def string_field_def
      extract_at extract_string_at decode_encode_f32 decode_encode_f64)

lemma value_type_cases:
  assumes "value_type v = value_type w" and "valid_value v" and "valid_value w"
  shows "(value_less v w \<longrightarrow> enc_value v @ us < enc_value w @ vs) \<and>
    (\<not> value_less v w \<longrightarrow> \<not> value_less w v \<longrightarrow> enc_value v = enc_value w)"
  using assms
  by (cases v; cases w; simp)
     (auto simp: be_bytes_less_append encode_i8_less encode_i16_less encode_i32_less encode_i64_less
       encode_f32_less encode_f64_less nul_terminated_less not_less dest!: signed_word_eqI
       intro!: arg_cong [where f = "be_bytes 4"] arg_cong [where f = "be_bytes 8"] encode_f32_eq
         encode_f64_eq intro: order.antisym)

interpretation ck_value: key_codec "\<lambda>v. value_type v = t \<and> valid_value v"
  "\<lambda>v. value_type v = t \<and> exact_value v" value_less enc_value "append_value big"
  "read_value False t" for big t
  by unfold_locales
     (use value_type_cases decode_value_at in \<open>auto simp: append_value_enc read_value_def\<close>)

fun append_values :: "bool \<Rightarrow> expr_value list \<Rightarrow> mut_table_key \<Rightarrow> mut_table_key" where
  "append_values big [] k = k"
| "append_values big (v # vs) k = append_values big vs (append_value big v k)"

fun values_less :: "expr_value list \<Rightarrow> expr_value list \<Rightarrow> bool" where
  "values_less (v # vs) (w # ws) \<longleftrightarrow>
     value_less v w \<or> (\<not> value_less w v \<and> values_less vs ws)"
| "values_less _ _ \<longleftrightarrow> False"

abbreviation enc_values :: "expr_value list \<Rightarrow> bytes" where
  "enc_values vs \<equiv> concat (map enc_value vs)"

lemma append_values_enc: "append_values big vs key = key_append (enc_values vs) key"
  by (induction vs arbitrary: key) (simp_all add: append_value_enc key_append_def)

lemma mk_data_append_values [key_simps]:
  "mk_data (append_values big vs key) = mk_data key @ enc_values vs"
  by (simp add: append_values_enc key_append_def)

lemma enc_values_order:
  assumes "map value_type vs = map value_type ws"
    and "list_all valid_value vs" and "list_all valid_value ws"
  shows "enc_values vs @ us < enc_values ws @ us' \<longleftrightarrow>
    values_less vs ws \<or> (\<not> values_less ws vs \<and> us < us')"
  using assms
proof (induction vs arbitrary: ws)
  case Nil
  then show ?case by simp
next
  case (Cons v vs)
  then obtain w ws' where ws: "ws = w # ws'" by (cases ws) auto
  have "enc_values vs @ us < enc_values ws' @ us' \<longleftrightarrow>
      values_less vs ws' \<or> (\<not> values_less ws' vs \<and> us < us')"
    using Cons ws by simp
  moreover have "value_less v w \<Longrightarrow> \<not> value_less w v"
    using ck_value.less_asym [of v "value_type v" w] Cons.prems ws by simp
  moreover have "enc_value v @ xs < enc_value w @ ys \<longleftrightarrow>
      value_less v w \<or> (\<not> value_less w v \<and> xs < ys)" for xs ys
    using ck_value.enc_order [of v "value_type v" w] Cons.prems ws by simp
  ultimately show ?case unfolding ws by auto
qed

text \<open>
  (C6) Memory comparability: two keys that are built by appending values of the
  same column types (no NaN, no NUL inside a string) to the same prefix, whatever
  follows them and on hosts of any endianness, compare as byte strings exactly
  as the value tuples compare column by column.
\<close>

theorem composite_key_order:
  assumes "map value_type vs = map value_type ws"
    and "list_all valid_value vs" and "list_all valid_value ws"
  shows "mk_data (append_values big vs key) @ us < mk_data (append_values big' ws key) @ us' \<longleftrightarrow>
    values_less vs ws \<or> (\<not> values_less ws vs \<and> us < us')"
  using enc_values_order [OF assms] by (simp add: key_simps lex_append_same)

theorem composite_key_order_witness:
  "mk_data (append_values False [VInt32 (-5), VString [97]] mut_key_empty) @ [] <
   mk_data (append_values True [VInt32 3, VString []] mut_key_empty) @ []"
  using composite_key_order [of "[VInt32 (-5), VString [97]]" "[VInt32 3, VString []]" False
      mut_key_empty "[]" True "[]"]
  by simp

section \<open>Positions\<close>

lemma fixed_size_enc:
  "fixed_size (value_type v) = Some n \<Longrightarrow> valid_value v \<Longrightarrow> length (enc_value v) = n"
  by (cases v) auto

lemma fixed_size_string:
  "fixed_size (value_type v) = None \<Longrightarrow> valid_value v \<Longrightarrow> \<exists>str. v = VString str"
  by (cases v) auto

lemma skip_value_at:
  assumes "valid_value v" and "tk_data k = pre @ enc_value v @ post"
  shows "skip_field k (value_type v) (length pre) = Inr (length pre + length (enc_value v))"
proof (cases "fixed_size (value_type v)")
  case None
  with assms(1) fixed_size_string obtain str where v: "v = VString str" by blast
  with assms show ?thesis by (simp add: skip_field_def)
next
  case (Some n)
  with assms show ?thesis by (simp add: skip_field_def fixed_size_enc)
qed

lemma partition_pos_value_at:
  assumes "valid_value v" and "tk_data k = pre @ enc_value v @ post"
  shows "get_partition_col_pos1 k (value_type v) (length pre) =
    Some (int (length pre + length (enc_value v)))"
proof (cases "fixed_size (value_type v)")
  case None
  with assms(1) fixed_size_string obtain str where v: "v = VString str" by blast
  with assms show ?thesis by (simp add: get_partition_col_pos1_def)
next
  case (Some n)
  with assms have "length (enc_value v) = n" by (simp add: fixed_size_enc)
  with Some assms show ?thesis by (simp add: get_partition_col_pos1_def)
qed

lemma partition_loop_values_at:
  "list_all valid_value vs \<Longrightarrow> tk_data k = pre @ enc_values vs @ post \<Longrightarrow>
   partition_col_loop k (map value_type vs) (int (length pre)) =
     Some (int (length pre + length (enc_values vs)))"
proof (induction vs arbitrary: pre)
  case Nil
  then show ?case by simp
next
  case (Cons v vs)
  then have "get_partition_col_pos1 k (value_type v) (length pre) =
      Some (int (length pre + length (enc_value v)))"
    using partition_pos_value_at [of v k pre "enc_values vs @ post"] by simp
  moreover have "partition_col_loop k (map value_type vs) (int (length (pre @ enc_value v))) =
      Some (int (length (pre @ enc_value v) + length (enc_values vs)))"
    by (rule Cons.IH) (use Cons.prems in simp_all)
  ultimately show ?case by simp
qed

lemma replace_partition_enc:
  assumes "length (enc_value old) = length (enc_value new)"
    and "(\<exists>d. new = VDate d) \<or> (\<exists>d. new = VDatetime d)"
    and "mk_data key = pre @ enc_value old @ post"
  shows "replace_partition_col big new (length pre) key =
    Some (key\<lparr>mk_data := pre @ enc_value new @ post\<rparr>)"
  using assms by (auto simp: replace_u32_def replace_u64_def key_replace_def key_simps)

text \<open>
  Dynamic partitioning: in a key whose columns hold \<open>pre\<close>, the partition
  column \<open>old\<close> and \<open>post\<close>, the position computed for the partition column is
  the one where its bytes start, and replacing the column there by a date (or
  datetime) of the same type gives the key of the same columns with the new
  value.
\<close>

theorem replace_partition_column:
  assumes "list_all valid_value pre"
    and "value_type old = value_type new" and "valid_value old"
    and "(\<exists>d. new = VDate d) \<or> (\<exists>d. new = VDatetime d)"
  shows "\<exists>p. get_partition_col_pos
      (table_key_of (append_values big (pre @ old # post) mut_key_empty))
      (map value_type (pre @ old # post)) (length pre) 0 = Some (int p) \<and>
    replace_partition_col big' new p (append_values big (pre @ old # post) mut_key_empty) =
      Some (append_values big (pre @ new # post) mut_key_empty)"
proof (intro exI conjI)
  let ?k = "append_values big (pre @ old # post) mut_key_empty"
  have data: "mk_data ?k = enc_values pre @ enc_value old @ enc_values post"
    by (simp add: key_simps mut_key_empty_def)
  have "partition_col_loop (table_key_of ?k) (map value_type pre) 0 =
      Some (int (length (enc_values pre)))"
    using partition_loop_values_at [of pre "table_key_of ?k" "[]"] assms(1) data
    by (simp add: table_key_of_def)
  then show "get_partition_col_pos (table_key_of ?k) (map value_type (pre @ old # post))
      (length pre) 0 = Some (int (length (enc_values pre)))"
    by (simp add: get_partition_col_pos_def)
  have "length (enc_value old) = length (enc_value new)"
    using assms by (cases old) auto
  with assms(4) data have "replace_partition_col big' new (length (enc_values pre)) ?k =
      Some (?k\<lparr>mk_data := enc_values pre @ enc_value new @ enc_values post\<rparr>)"
    by (intro replace_partition_enc)
  then show "replace_partition_col big' new (length (enc_values pre)) ?k =
      Some (append_values big (pre @ new # post) mut_key_empty)"
    by (simp add: append_values_enc key_append_def mut_key_empty_def)
qed

theorem replace_partition_column_witness:
  "\<exists>p. get_partition_col_pos
      (table_key_of (append_values False ([VString [98]] @ VDate 7 # [VInt8 1]) mut_key_empty))
      (map value_type ([VString [98]] @ VDate 7 # [VInt8 1])) (length [VString [98]]) 0 =
      Some (int p) \<and>
    replace_partition_col True (VDate 9) p
      (append_values False ([VString [98]] @ VDate 7 # [VInt8 1]) mut_key_empty) =
      Some (append_values False ([VString [98]] @ VDate 9 # [VInt8 1]) mut_key_empty)"
  by (rule replace_partition_column) simp_all

section \<open>End keys\<close>

lemma end_key_compare_sign:
  "end_key_compare a b = (if a = b then 0 else if b = [] \<or> (a \<noteq> [] \<and> a < b) then -1 else 1)"
  by (auto simp: end_key_compare_def slice_compare_def)

text \<open>
  \<open>end_key_compare\<close> orders the end keys of regions totally, with the empty
  key, which stands for the end of the key space, above every other key.
\<close>

theorem end_key_compare_total_order:
  "end_key_compare a b = - end_key_compare b a \<and>
   (end_key_compare a b = 0 \<longleftrightarrow> a = b) \<and>
   end_key_compare a [] \<le> 0 \<and>
   (end_key_compare a b < 0 \<longrightarrow> end_key_compare b c \<le> 0 \<longrightarrow> end_key_compare a c < 0)"
  by (auto simp: end_key_compare_sign)

theorem end_key_compare_total_order_witness: "end_key_compare [1] [2] < 0 \<and> end_key_compare [1] [] < 0"
  using end_key_compare_total_order [of "[1]" "[2]" "[]"] by (simp add: end_key_compare_sign)

end
