(* ===== verification/TableRecord.thy ===== *)
theory TableRecord
  imports TableKeys
begin

text \<open>
  Rows and their index keys: the key half of \<^verbatim>\<open>TableRecord\<close>
  (\<^verbatim>\<open>src/common/table_record.cpp\<close>) with \<^verbatim>\<open>TableKey::decode_field\<close>
  (\<^verbatim>\<open>src/common/table_key.cpp\<close>). A row is a dynamic protobuf message: the
  values of the fields that are set, by field index, and the indices its
  descriptor knows. A getter returns the default of its type for a field that is
  not set; a getter of another type than the field's aborts the process, which is
  the value \<^term>\<open>None\<close> of an operation.
\<close>

section \<open>Rows, columns and indexes\<close>

datatype pb_value =
    PInt32 "32 word" | PInt64 "64 word" | PUInt32 "32 word" | PUInt64 "64 word"
  | PFloat "32 word" | PDouble "64 word" | PBool bool | PString bytes

record message =
  msg_fields :: "nat set"
  msg_vals :: "nat \<rightharpoonup> pb_value"

datatype index_type = I_NONE | I_PRIMARY | I_UNIQ | I_KEY | I_FULLTEXT | I_VECTOR | I_ROLLUP

record field_info =
  fi_type :: primitive_type
  fi_pb_idx :: nat
  fi_can_null :: bool

record index_info =
  idx_type :: index_type
  idx_fields :: "field_info list"
  idx_has_nullable :: bool
  idx_pk_fields :: "field_info list"

definition has_field :: "message \<Rightarrow> nat \<Rightarrow> bool" where
  "has_field m f = (msg_vals m f \<noteq> None)"

definition set_field :: "nat \<Rightarrow> pb_value \<Rightarrow> message \<Rightarrow> message" where
  "set_field f v m = m\<lparr>msg_vals := (msg_vals m)(f \<mapsto> v)\<rparr>"

definition clear_field :: "nat \<Rightarrow> message \<Rightarrow> message" where
  "clear_field f m = m\<lparr>msg_vals := (msg_vals m)(f := None)\<rparr>"

definition get_int32 :: "message \<Rightarrow> nat \<Rightarrow> 32 word option" where
  "get_int32 m f = (case msg_vals m f of None \<Rightarrow> Some 0 | Some (PInt32 v) \<Rightarrow> Some v | _ \<Rightarrow> None)"

definition get_int64 :: "message \<Rightarrow> nat \<Rightarrow> 64 word option" where
  "get_int64 m f = (case msg_vals m f of None \<Rightarrow> Some 0 | Some (PInt64 v) \<Rightarrow> Some v | _ \<Rightarrow> None)"

definition get_uint32 :: "message \<Rightarrow> nat \<Rightarrow> 32 word option" where
  "get_uint32 m f = (case msg_vals m f of None \<Rightarrow> Some 0 | Some (PUInt32 v) \<Rightarrow> Some v | _ \<Rightarrow> None)"

definition get_uint64 :: "message \<Rightarrow> nat \<Rightarrow> 64 word option" where
  "get_uint64 m f = (case msg_vals m f of None \<Rightarrow> Some 0 | Some (PUInt64 v) \<Rightarrow> Some v | _ \<Rightarrow> None)"

definition get_float :: "message \<Rightarrow> nat \<Rightarrow> 32 word option" where
  "get_float m f = (case msg_vals m f of None \<Rightarrow> Some 0 | Some (PFloat v) \<Rightarrow> Some v | _ \<Rightarrow> None)"

definition get_double :: "message \<Rightarrow> nat \<Rightarrow> 64 word option" where
  "get_double m f = (case msg_vals m f of None \<Rightarrow> Some 0 | Some (PDouble v) \<Rightarrow> Some v | _ \<Rightarrow> None)"

definition get_bool :: "message \<Rightarrow> nat \<Rightarrow> bool option" where
  "get_bool m f = (case msg_vals m f of None \<Rightarrow> Some False | Some (PBool v) \<Rightarrow> Some v | _ \<Rightarrow> None)"

definition get_string :: "message \<Rightarrow> nat \<Rightarrow> bytes option" where
  "get_string m f = (case msg_vals m f of None \<Rightarrow> Some [] | Some (PString v) \<Rightarrow> Some v | _ \<Rightarrow> None)"

section \<open>Encoding\<close>

text \<open>The result of the encoders: the return code, the message and the key.\<close>

type_synonym encode_result = "(int \<times> message \<times> mut_table_key) option"

definition encoded :: "bool \<Rightarrow> nat \<Rightarrow> message \<Rightarrow> mut_table_key option \<Rightarrow> encode_result" where
  "encoded clear f m r =
     map_option (\<lambda>key. (0, if clear then clear_field f m else m, key)) r"

definition encode_field ::
  "bool \<Rightarrow> nat \<Rightarrow> primitive_type \<Rightarrow> message \<Rightarrow> mut_table_key \<Rightarrow> bool \<Rightarrow> bool \<Rightarrow> encode_result" where
  "encode_field big f t m key clear like_prefix =
     (case t of
        INT8 \<Rightarrow> encoded clear f m (map_option (\<lambda>val. append_i8 big (ucast val) key) (get_int32 m f))
      | INT16 \<Rightarrow> encoded clear f m (map_option (\<lambda>val. append_i16 big (ucast val) key) (get_int32 m f))
      | TIME \<Rightarrow> encoded clear f m (map_option (\<lambda>val. append_i32 big val key) (get_int32 m f))
      | INT32 \<Rightarrow> encoded clear f m (map_option (\<lambda>val. append_i32 big val key) (get_int32 m f))
      | INT64 \<Rightarrow> encoded clear f m (map_option (\<lambda>val. append_i64 big val key) (get_int64 m f))
      | UINT8 \<Rightarrow> encoded clear f m (map_option (\<lambda>val. append_u8 big (ucast val) key) (get_uint32 m f))
      | UINT16 \<Rightarrow> encoded clear f m (map_option (\<lambda>val. append_u16 big (ucast val) key) (get_uint32 m f))
      | TIMESTAMP \<Rightarrow> encoded clear f m (map_option (\<lambda>val. append_u32 big val key) (get_uint32 m f))
      | DATE \<Rightarrow> encoded clear f m (map_option (\<lambda>val. append_u32 big val key) (get_uint32 m f))
      | UINT32 \<Rightarrow> encoded clear f m (map_option (\<lambda>val. append_u32 big val key) (get_uint32 m f))
      | DATETIME \<Rightarrow> encoded clear f m (map_option (\<lambda>val. append_u64 big val key) (get_uint64 m f))
      | UINT64 \<Rightarrow> encoded clear f m (map_option (\<lambda>val. append_u64 big val key) (get_uint64 m f))
      | FLOAT \<Rightarrow> encoded clear f m (map_option (\<lambda>val. append_float big val key) (get_float m f))
      | DOUBLE \<Rightarrow> encoded clear f m (map_option (\<lambda>val. append_double big val key) (get_double m f))
      | BOOL \<Rightarrow> encoded clear f m (map_option (\<lambda>val. append_boolean big val key) (get_bool m f))
      | STRING \<Rightarrow> encoded clear f m (map_option
          (\<lambda>val. if like_prefix then append_string_prefix val key else append_string val key)
          (get_string m f))
      | _ \<Rightarrow> Some (-1, m, key))"

definition is_secondary :: "index_type \<Rightarrow> bool" where
  "is_secondary t \<longleftrightarrow> t = I_KEY \<or> t = I_UNIQ \<or> t = I_ROLLUP"

text \<open>
  The shift distance \<^verbatim>\<open>7 - idx\<close> of a null flag, an unsigned 32-bit subtraction.
  Past the eighth column it wraps around, and the processor takes a distance
  modulo 32.
\<close>

definition null_shift :: "nat \<Rightarrow> nat" where
  "null_shift idx = nat ((7 - int idx) mod 32)"

definition null_bit :: "nat \<Rightarrow> 8 word" where
  "null_bit idx = ucast (push_bit (null_shift idx) (1 :: 32 word))"

text \<open>
  The loop of \<^verbatim>\<open>encode_key\<close> from column \<open>idx\<close> on, over the columns that are
  left. It hands on the return code, the null flags, the message and the key.
\<close>

fun encode_key_loop ::
  "bool \<Rightarrow> index_type \<Rightarrow> bool \<Rightarrow> bool \<Rightarrow> nat \<Rightarrow> field_info list \<Rightarrow> 8 word \<Rightarrow> message \<Rightarrow>
   mut_table_key \<Rightarrow> (int \<times> 8 word \<times> message \<times> mut_table_key) option" where
  "encode_key_loop big ty clear like_prefix idx [] null_flag m key = Some (0, null_flag, m, key)"
| "encode_key_loop big ty clear like_prefix idx (info # infos) null_flag m key =
     (let f = fi_pb_idx info;
          last_field_like_prefix = (like_prefix \<and> infos = []);
          go = (\<lambda>r. case r of
            None \<Rightarrow> None
          | Some (res, m', key') \<Rightarrow>
              if res \<noteq> 0 then Some (-1, null_flag, m', key')
              else encode_key_loop big ty clear like_prefix (Suc idx) infos null_flag m' key')
      in
      if f \<notin> msg_fields m then Some (-1, null_flag, m, key)
      else if ty = I_PRIMARY \<or> ty = I_FULLTEXT then
        (if \<not> has_field m f then Some (-2, null_flag, m, key)
         else go (encode_field big f (fi_type info) m key clear last_field_like_prefix))
      else if is_secondary ty then
        (if \<not> has_field m f then
           (if \<not> fi_can_null info then
              go (encode_field big f (fi_type info) m key clear last_field_like_prefix)
            else
              encode_key_loop big ty clear like_prefix (Suc idx) infos
                (null_flag OR null_bit idx) m key)
         else go (encode_field big f (fi_type info) m key clear last_field_like_prefix))
      else Some (-1, null_flag, m, key))"

definition encode_key ::
  "bool \<Rightarrow> index_info \<Rightarrow> message \<Rightarrow> mut_table_key \<Rightarrow> int \<Rightarrow> bool \<Rightarrow> bool \<Rightarrow> encode_result" where
  "encode_key big index m key field_cnt clear like_prefix =
     (let ty = idx_type index; pos = length (mk_data key) in
      if ty = I_NONE then Some (-1, m, key)
      else
        let key1 = (if is_secondary ty then append_u8 big 0 key else key);
            col_cnt = (if field_cnt = -1 then length (idx_fields index)
                       else nat (field_cnt mod 2 ^ 32))
        in
        if length (idx_fields index) < col_cnt \<or> (idx_has_nullable index \<and> 8 < col_cnt)
        then Some (-1, m, key1)
        else
          case encode_key_loop big ty clear like_prefix 0 (take col_cnt (idx_fields index)) 0 m key1 of
            None \<Rightarrow> None
          | Some (res, null_flag, m', key2) \<Rightarrow>
              if res \<noteq> 0 then Some (res, m', key2)
              else
                let full = ((ty = I_PRIMARY \<or> ty = I_UNIQ) \<and> col_cnt = length (idx_fields index)) in
                if ty = I_KEY \<or> ty = I_UNIQ
                then map_option (\<lambda>key3. (0, m', set_full full key3)) (replace_u8 big null_flag pos key2)
                else Some (0, m', set_full full key2))"

fun encode_pk_loop ::
  "bool \<Rightarrow> field_info list \<Rightarrow> message \<Rightarrow> mut_table_key \<Rightarrow> encode_result" where
  "encode_pk_loop big [] m key = Some (0, m, key)"
| "encode_pk_loop big (info # infos) m key =
     (let f = fi_pb_idx info in
      if f \<notin> msg_fields m then Some (-1, m, key)
      else if \<not> has_field m f then Some (-2, m, key)
      else case encode_field big f (fi_type info) m key False False of
        None \<Rightarrow> None
      | Some (res, m', key') \<Rightarrow>
          if res \<noteq> 0 then Some (-1, m', key') else encode_pk_loop big infos m' key')"

text \<open>
  \<^verbatim>\<open>encode_primary_key\<close> does not bound \<open>field_cnt\<close>: a count past the end of
  \<^verbatim>\<open>pk_fields\<close> reads outside the vector (\<^term>\<open>None\<close>).
\<close>

definition encode_primary_key ::
  "bool \<Rightarrow> index_info \<Rightarrow> message \<Rightarrow> mut_table_key \<Rightarrow> int \<Rightarrow> encode_result" where
  "encode_primary_key big index m key field_cnt =
     (if idx_type index \<noteq> I_KEY \<and> idx_type index \<noteq> I_UNIQ then Some (-1, m, key)
      else
        let col_cnt = (if field_cnt = -1 then length (idx_pk_fields index)
                       else nat (field_cnt mod 2 ^ 32)) in
        if length (idx_pk_fields index) < col_cnt then None
        else encode_pk_loop big (take col_cnt (idx_pk_fields index)) m key)"

section \<open>Decoding\<close>

text \<open>The result of the decoders: the return code, the message and the position.
  \<^term>\<open>None\<close> is a read past the end of the key.\<close>

type_synonym decode_result = "(int \<times> message \<times> nat) option"

definition store_fixed ::
  "table_key \<Rightarrow> nat \<Rightarrow> nat \<Rightarrow> nat \<Rightarrow> message \<Rightarrow> ('a \<Rightarrow> pb_value) \<Rightarrow> 'a option \<Rightarrow> decode_result" where
  "store_fixed k n pos f m con r =
     (if length (tk_data k) < pos + n then Some (-2, m, pos)
      else map_option (\<lambda>v. (0, set_field f (con v) m, pos + n)) r)"

definition decode_field ::
  "bool \<Rightarrow> table_key \<Rightarrow> message \<Rightarrow> nat \<Rightarrow> primitive_type \<Rightarrow> nat \<Rightarrow> decode_result" where
  "decode_field big k m f t pos =
     (case t of
        INT8 \<Rightarrow> store_fixed k 1 pos f m (\<lambda>v. PInt32 (scast v)) (extract_i8 big k pos)
      | INT16 \<Rightarrow> store_fixed k 2 pos f m (\<lambda>v. PInt32 (scast v)) (extract_i16 big k pos)
      | TIME \<Rightarrow> store_fixed k 4 pos f m PInt32 (extract_i32 big k pos)
      | INT32 \<Rightarrow> store_fixed k 4 pos f m PInt32 (extract_i32 big k pos)
      | INT64 \<Rightarrow> store_fixed k 8 pos f m PInt64 (extract_i64 big k pos)
      | UINT8 \<Rightarrow> store_fixed k 1 pos f m (\<lambda>v. PUInt32 (ucast v)) (extract_u8 big k pos)
      | UINT16 \<Rightarrow> store_fixed k 2 pos f m (\<lambda>v. PUInt32 (ucast v)) (extract_u16 big k pos)
      | TIMESTAMP \<Rightarrow> store_fixed k 4 pos f m PUInt32 (extract_u32 big k pos)
      | DATE \<Rightarrow> store_fixed k 4 pos f m PUInt32 (extract_u32 big k pos)
      | UINT32 \<Rightarrow> store_fixed k 4 pos f m PUInt32 (extract_u32 big k pos)
      | DATETIME \<Rightarrow> store_fixed k 8 pos f m PUInt64 (extract_u64 big k pos)
      | UINT64 \<Rightarrow> store_fixed k 8 pos f m PUInt64 (extract_u64 big k pos)
      | FLOAT \<Rightarrow> store_fixed k 4 pos f m PFloat (extract_float big k pos)
      | DOUBLE \<Rightarrow> store_fixed k 8 pos f m PDouble (extract_double big k pos)
      | BOOL \<Rightarrow> store_fixed k 1 pos f m PBool (extract_boolean big k pos)
      | STRING \<Rightarrow>
          (if length (tk_data k) \<le> pos then Some (-2, m, pos)
           else map_option (\<lambda>str. (0, set_field f (PString str) m, pos + length str + 1))
             (extract_string k pos))
      | _ \<Rightarrow> Some (-1, m, pos))"

text \<open>
  The loop of \<^verbatim>\<open>decode_key\<close> from column \<open>idx\<close> on.
\<close>

fun decode_key_loop ::
  "bool \<Rightarrow> table_key \<Rightarrow> 8 word \<Rightarrow> nat \<Rightarrow> field_info list \<Rightarrow> message \<Rightarrow> nat \<Rightarrow> decode_result" where
  "decode_key_loop big k null_flag idx [] m pos = Some (0, m, pos)"
| "decode_key_loop big k null_flag idx (info # infos) m pos =
     (if fi_pb_idx info \<notin> msg_fields m then Some (-1, m, pos)
      else if bit null_flag (null_shift idx) \<and> fi_can_null info
      then decode_key_loop big k null_flag (Suc idx) infos m pos
      else case decode_field big k m (fi_pb_idx info) (fi_type info) pos of
        None \<Rightarrow> None
      | Some (res, m', pos') \<Rightarrow>
          if res \<noteq> 0 then Some (-1, m', pos')
          else decode_key_loop big k null_flag (Suc idx) infos m' pos')"

definition decode_key ::
  "bool \<Rightarrow> index_info \<Rightarrow> table_key \<Rightarrow> message \<Rightarrow> nat \<Rightarrow> decode_result" where
  "decode_key big index k m pos =
     (if idx_type index = I_NONE then Some (-1, m, pos)
      else if is_secondary (idx_type index) then
        (case extract_u8 big k pos of
           None \<Rightarrow> None
         | Some null_flag \<Rightarrow> decode_key_loop big k null_flag 0 (idx_fields index) m (pos + 1))
      else decode_key_loop big k 0 0 (idx_fields index) m pos)"

fun decode_pk_loop ::
  "bool \<Rightarrow> table_key \<Rightarrow> field_info list \<Rightarrow> message \<Rightarrow> nat \<Rightarrow> decode_result" where
  "decode_pk_loop big k [] m pos = Some (0, m, pos)"
| "decode_pk_loop big k (info # infos) m pos =
     (if fi_pb_idx info \<notin> msg_fields m then Some (-1, m, pos)
      else case decode_field big k m (fi_pb_idx info) (fi_type info) pos of
        None \<Rightarrow> None
      | Some (res, m', pos') \<Rightarrow>
          if res \<noteq> 0 then Some (-1, m', pos') else decode_pk_loop big k infos m' pos')"

definition decode_primary_key ::
  "bool \<Rightarrow> index_info \<Rightarrow> table_key \<Rightarrow> message \<Rightarrow> nat \<Rightarrow> decode_result" where
  "decode_primary_key big index k m pos =
     (if idx_type index \<noteq> I_KEY \<and> idx_type index \<noteq> I_UNIQ then Some (-1, m, pos)
      else decode_pk_loop big k (idx_pk_fields index) m pos)"

section \<open>Columns as key values\<close>

text \<open>
  The key value of a stored column value, and the column values that a key of the
  given type can hold: in the range of the type, no NaN, no negative zero, no NUL.
\<close>

definition to_value :: "primitive_type \<Rightarrow> pb_value \<Rightarrow> expr_value" where
  "to_value t pv =
     (case pv of
        PInt32 x \<Rightarrow> (if t = INT8 then VInt8 (ucast x) else if t = INT16 then VInt16 (ucast x)
                    else if t = TIME then VTime x else VInt32 x)
      | PInt64 x \<Rightarrow> VInt64 x
      | PUInt32 x \<Rightarrow> (if t = UINT8 then VUint8 (ucast x) else if t = UINT16 then VUint16 (ucast x)
                    else if t = TIMESTAMP then VTimestamp x else if t = DATE then VDate x
                    else VUint32 x)
      | PUInt64 x \<Rightarrow> (if t = DATETIME then VDatetime x else VUint64 x)
      | PFloat x \<Rightarrow> VFloat x
      | PDouble x \<Rightarrow> VDouble x
      | PBool x \<Rightarrow> VBool x
      | PString x \<Rightarrow> VString x)"

definition fits_column :: "primitive_type \<Rightarrow> pb_value \<Rightarrow> bool" where
  "fits_column t pv =
     (case pv of
        PInt32 x \<Rightarrow> t = INT8 \<and> scast (ucast x :: 8 word) = x \<or>
                   t = INT16 \<and> scast (ucast x :: 16 word) = x \<or> t = TIME \<or> t = INT32
      | PInt64 x \<Rightarrow> t = INT64
      | PUInt32 x \<Rightarrow> t = UINT8 \<and> ucast (ucast x :: 8 word) = x \<or>
                    t = UINT16 \<and> ucast (ucast x :: 16 word) = x \<or>
                    t = TIMESTAMP \<or> t = DATE \<or> t = UINT32
      | PUInt64 x \<Rightarrow> t = DATETIME \<or> t = UINT64
      | PFloat x \<Rightarrow> t = FLOAT \<and> \<not> f32_is_nan x \<and> x \<noteq> 0x80000000
      | PDouble x \<Rightarrow> t = DOUBLE \<and> \<not> f64_is_nan x \<and> x \<noteq> 0x8000000000000000
      | PBool x \<Rightarrow> t = BOOL
      | PString x \<Rightarrow> t = STRING \<and> 0 \<notin> set x)"

lemma to_value_exact:
  assumes "fits_column t pv"
  shows "value_type (to_value t pv) = t" and "exact_value (to_value t pv)"
  using assms by (cases pv; auto simp: fits_column_def to_value_def)+

lemma encode_field_value:
  assumes "msg_vals m f = Some pv" and "fits_column t pv"
  shows "encode_field big f t m key clear False =
    Some (0, if clear then clear_field f m else m, append_value big (to_value t pv) key)"
  using assms
  by (cases pv; cases t)
     (simp_all add: fits_column_def to_value_def encode_field_def encoded_def get_int32_def
       get_int64_def get_uint32_def get_uint64_def get_float_def get_double_def get_bool_def
       get_string_def)

lemma decode_field_value:
  assumes fits: "fits_column t pv" and data: "tk_data k = pre @ enc_value (to_value t pv) @ post"
  shows "decode_field big k m f t (length pre) =
    Some (0, set_field f pv m, length pre + length (enc_value (to_value t pv)))"
  using assms
  by (cases pv; cases t)
     (simp_all add: fits_column_def to_value_def decode_field_def store_fixed_def
      extract_at extract_string_at decode_encode_f32 decode_encode_f64)

section \<open>Whole keys\<close>

abbreviation unset :: "message \<Rightarrow> field_info \<Rightarrow> bool" where
  "unset m info \<equiv> msg_vals m (fi_pb_idx info) = None"

fun row_values :: "message \<Rightarrow> field_info list \<Rightarrow> expr_value list" where
  "row_values m [] = []"
| "row_values m (info # infos) =
     (case msg_vals m (fi_pb_idx info) of
        None \<Rightarrow> row_values m infos
      | Some pv \<Rightarrow> to_value (fi_type info) pv # row_values m infos)"

fun null_bits :: "message \<Rightarrow> nat \<Rightarrow> field_info list \<Rightarrow> 8 word" where
  "null_bits m idx [] = 0"
| "null_bits m idx (info # infos) =
     (if unset m info then null_bit idx else 0) OR null_bits m (Suc idx) infos"

definition key_row :: "index_type \<Rightarrow> message \<Rightarrow> nat \<Rightarrow> field_info list \<Rightarrow> bool" where
  "key_row ty m idx infos \<longleftrightarrow>
     (\<forall>info \<in> set infos. fi_pb_idx info \<in> msg_fields m \<and>
        (case msg_vals m (fi_pb_idx info) of
           None \<Rightarrow> is_secondary ty \<and> fi_can_null info \<and> idx + length infos \<le> 8
         | Some pv \<Rightarrow> fits_column (fi_type info) pv))"

lemma key_row_Cons:
  "key_row ty m idx (info # infos) \<Longrightarrow>
     key_row ty m (Suc idx) infos \<and> fi_pb_idx info \<in> msg_fields m \<and>
     (unset m info \<longrightarrow> is_secondary ty \<and> fi_can_null info) \<and>
     (\<forall>pv. msg_vals m (fi_pb_idx info) = Some pv \<longrightarrow> fits_column (fi_type info) pv)"
  by (auto simp: key_row_def split: option.splits)

lemma encode_key_loop_row:
  assumes "key_row ty m idx infos" and "ty = I_PRIMARY \<or> ty = I_FULLTEXT \<or> is_secondary ty"
  shows "encode_key_loop big ty False False idx infos flag m key =
    Some (0, flag OR null_bits m idx infos, m, key_append (enc_values (row_values m infos)) key)"
  using assms(1)
proof (induction infos arbitrary: idx flag key)
  case Nil
  show ?case by (simp add: key_append_def)
next
  case (Cons info infos)
  note row = key_row_Cons [OF Cons.prems]
  show ?case
  proof (cases "msg_vals m (fi_pb_idx info)")
    case None
    with row have "is_secondary ty" and "ty \<noteq> I_PRIMARY" and "ty \<noteq> I_FULLTEXT"
      by (auto simp: is_secondary_def)
    with row None show ?thesis by (simp add: has_field_def Cons.IH or.assoc)
  next
    case (Some pv)
    with row have "encode_field big (fi_pb_idx info) (fi_type info) m key False False =
        Some (0, m, key_append (enc_value (to_value (fi_type info) pv)) key)"
      by (simp add: encode_field_value append_value_enc)
    with row assms(2) Some show ?thesis
      by (auto simp: has_field_def Cons.IH key_append_def Let_def)
  qed
qed

fun flags_match :: "8 word \<Rightarrow> message \<Rightarrow> nat \<Rightarrow> field_info list \<Rightarrow> bool" where
  "flags_match flag m idx [] = True"
| "flags_match flag m idx (info # infos) \<longleftrightarrow>
     (unset m info \<longleftrightarrow> bit flag (null_shift idx)) \<and> flags_match flag m (Suc idx) infos"

lemma null_shift_small: "idx \<le> 7 \<Longrightarrow> null_shift idx = 7 - idx"
  by (simp add: null_shift_def nat_diff_distrib)

lemma bit_null_bit: "idx \<le> 7 \<Longrightarrow> bit (null_bit idx) k \<longleftrightarrow> k + idx = 7"
  by (auto simp: null_bit_def null_shift_small bit_ucast_iff bit_exp_iff)

lemma bit_null_bits: "idx + length infos \<le> 8 \<Longrightarrow> bit (null_bits m idx infos) k \<Longrightarrow> k + idx \<le> 7"
proof (induction infos arbitrary: idx)
  case Nil
  then show ?case by simp
next
  case (Cons info infos)
  from Cons.prems Cons.IH [of "Suc idx"] show ?case
    by (auto simp: bit_or_iff bit_null_bit split: if_splits)
qed

lemma flags_match_few_columns:
  "idx + length infos \<le> 8 \<Longrightarrow> (\<And>k. bit flag k \<Longrightarrow> 7 < k + idx) \<Longrightarrow>
   flags_match (flag OR null_bits m idx infos) m idx infos"
proof (induction infos arbitrary: idx flag)
  case Nil
  show ?case by simp
next
  case (Cons info infos)
  let ?b = "if unset m info then null_bit idx else 0"
  have idx: "idx \<le> 7" using Cons.prems(1) by simp
  have "flags_match ((flag OR ?b) OR null_bits m (Suc idx) infos) m (Suc idx) infos"
  proof (rule Cons.IH)
    fix k assume "bit (flag OR ?b) k"
    with Cons.prems(2) [of k] idx show "7 < k + Suc idx"
      by (auto simp: bit_or_iff bit_null_bit split: if_splits)
  qed (use Cons.prems in simp)
  moreover have "unset m info \<longleftrightarrow>
      bit ((flag OR ?b) OR null_bits m (Suc idx) infos) (null_shift idx)"
    using idx Cons.prems Cons.prems(2) [of "7 - idx"]
      bit_null_bits [of "Suc idx" infos m "7 - idx"]
    by (auto simp: bit_or_iff bit_null_bit null_shift_small)
  ultimately show ?case by (simp add: or.assoc)
qed

lemma flags_match_all_set:
  "\<forall>info \<in> set infos. \<not> unset m info \<Longrightarrow> null_bits m idx infos = 0 \<and> flags_match 0 m idx infos"
  by (induction infos arbitrary: idx) auto

lemma flags_match_null_bits:
  assumes "key_row ty m 0 infos"
  shows "flags_match (null_bits m 0 infos) m 0 infos"
proof (cases "\<forall>info \<in> set infos. \<not> unset m info")
  case True
  then show ?thesis using flags_match_all_set by metis
next
  case False
  with assms have "length infos \<le> 8" by (auto simp: key_row_def)
  with flags_match_few_columns [of 0 infos 0 m] show ?thesis by simp
qed

text \<open>A message with the columns of a row that are set copied over its own.\<close>

definition overlay :: "message \<Rightarrow> field_info list \<Rightarrow> message \<Rightarrow> message" where
  "overlay m infos m0 =
     m0\<lparr>msg_vals := (\<lambda>f. if f \<in> fi_pb_idx ` set infos \<and> msg_vals m f \<noteq> None
                       then msg_vals m f else msg_vals m0 f)\<rparr>"

lemma overlay_Cons:
  assumes "fi_pb_idx info \<notin> fi_pb_idx ` set infos"
  shows "overlay m (info # infos) m0 =
    overlay m infos (case msg_vals m (fi_pb_idx info) of
      None \<Rightarrow> m0 | Some pv \<Rightarrow> set_field (fi_pb_idx info) pv m0)"
  using assms
  by (auto simp: overlay_def set_field_def fun_eq_iff intro!: message.fold_congs
      split: option.splits)

lemma decode_key_loop_row:
  "key_row ty m idx infos \<Longrightarrow> flags_match flag m idx infos \<Longrightarrow> distinct (map fi_pb_idx infos) \<Longrightarrow>
   fi_pb_idx ` set infos \<subseteq> msg_fields m0 \<Longrightarrow>
   tk_data k = pre @ enc_values (row_values m infos) @ post \<Longrightarrow>
   decode_key_loop big k flag idx infos m0 (length pre) =
     Some (0, overlay m infos m0, length pre + length (enc_values (row_values m infos)))"
proof (induction infos arbitrary: idx pre m0)
  case Nil
  show ?case by (simp add: overlay_def)
next
  case (Cons info infos)
  note row = key_row_Cons [OF Cons.prems(1)]
  have ov: "fi_pb_idx info \<notin> fi_pb_idx ` set infos" using Cons.prems(3) by simp
  show ?case
  proof (cases "msg_vals m (fi_pb_idx info)")
    case None
    have "decode_key_loop big k flag (Suc idx) infos m0 (length pre) =
        Some (0, overlay m infos m0, length pre + length (enc_values (row_values m infos)))"
      by (rule Cons.IH) (use Cons.prems row None in simp_all)
    with None row Cons.prems show ?thesis by (simp add: overlay_Cons [OF ov])
  next
    case (Some pv)
    let ?v = "to_value (fi_type info) pv"
    have dec: "decode_field big k m0 (fi_pb_idx info) (fi_type info) (length pre) =
        Some (0, set_field (fi_pb_idx info) pv m0, length pre + length (enc_value ?v))"
      by (rule decode_field_value) (use Cons.prems row Some in simp_all)
    have "decode_key_loop big k flag (Suc idx) infos (set_field (fi_pb_idx info) pv m0)
        (length (pre @ enc_value ?v)) =
        Some (0, overlay m infos (set_field (fi_pb_idx info) pv m0),
          length (pre @ enc_value ?v) + length (enc_values (row_values m infos)))"
      by (rule Cons.IH) (use Cons.prems row Some in \<open>simp_all add: set_field_def\<close>)
    with Some dec row Cons.prems show ?thesis
      by (simp add: overlay_Cons [OF ov])
  qed
qed

text \<open>The bytes of a whole index key: the null flags of a secondary index, then the columns.\<close>

definition row_key :: "index_type \<Rightarrow> 8 word \<Rightarrow> message \<Rightarrow> field_info list \<Rightarrow> bytes" where
  "row_key ty flag m infos =
     (if is_secondary ty then [flag] else []) @ enc_values (row_values m infos)"

lemma encode_key_row:
  assumes "key_row (idx_type index) m 0 (idx_fields index)"
    and "idx_type index = I_PRIMARY \<or> is_secondary (idx_type index)"
    and "idx_has_nullable index \<longrightarrow> length (idx_fields index) \<le> 8"
  shows "encode_key big index m key (-1) False False =
    Some (0, m, \<lparr>mk_full = (idx_type index = I_PRIMARY \<or> idx_type index = I_UNIQ),
      mk_data = mk_data key @ row_key (idx_type index)
        (if idx_type index = I_ROLLUP then 0 else null_bits m 0 (idx_fields index))
        m (idx_fields index)\<rparr>)"
  using assms(2, 3) encode_key_loop_row [OF assms(1), of big 0]
  by (auto simp: encode_key_def row_key_def is_secondary_def append_enc key_append_def
      set_full_def replace_u8_def key_replace_def mem_bytes_1)

lemma decode_key_row:
  assumes row: "key_row (idx_type index) m 0 (idx_fields index)"
    and ty: "idx_type index \<in> {I_PRIMARY, I_KEY, I_UNIQ}"
    and "distinct (map fi_pb_idx (idx_fields index))"
    and "fi_pb_idx ` set (idx_fields index) \<subseteq> msg_fields m0"
    and data: "tk_data k = pre @ row_key (idx_type index) (null_bits m 0 (idx_fields index)) m
      (idx_fields index) @ post"
  shows "decode_key big index k m0 (length pre) =
    Some (0, overlay m (idx_fields index) m0, length pre +
      length (row_key (idx_type index) (null_bits m 0 (idx_fields index)) m (idx_fields index)))"
proof (cases "is_secondary (idx_type index)")
  case True
  let ?flag = "null_bits m 0 (idx_fields index)"
  have "extract_u8 big k (length pre) = Some ?flag"
    using True data by (intro extract_at(1)) (simp add: row_key_def)
  moreover have "decode_key_loop big k ?flag 0 (idx_fields index) m0 (length (pre @ [?flag])) =
      Some (0, overlay m (idx_fields index) m0,
        length (pre @ [?flag]) + length (enc_values (row_values m (idx_fields index))))"
    using assms True flags_match_null_bits [OF row]
    by (intro decode_key_loop_row) (simp_all add: row_key_def)
  ultimately show ?thesis
    using True ty by (auto simp: decode_key_def row_key_def is_secondary_def)
next
  case False
  then have "flags_match 0 m 0 (idx_fields index)"
    using row flags_match_all_set [of "idx_fields index" m 0]
    by (auto simp: key_row_def split: option.splits)
  then have "decode_key_loop big k 0 0 (idx_fields index) m0 (length pre) =
      Some (0, overlay m (idx_fields index) m0,
        length pre + length (enc_values (row_values m (idx_fields index))))"
    using assms False by (intro decode_key_loop_row) (simp_all add: row_key_def)
  then show ?thesis using False ty by (auto simp: decode_key_def row_key_def is_secondary_def)
qed

text \<open>
  (C1) Key round trip. A row whose index columns hold values of their types, or
  are null where the index allows it, is encoded by \<^verbatim>\<open>encode_key\<close> without
  error, and \<^verbatim>\<open>decode_key\<close> reads the key back: every column that was set is
  restored, every null column is left as it was, and the position stops right behind
  the key, whatever follows it.
\<close>

theorem index_key_round_trip:
  assumes "key_row (idx_type index) m 0 (idx_fields index)"
    and "idx_type index \<in> {I_PRIMARY, I_KEY, I_UNIQ}"
    and "idx_has_nullable index \<longrightarrow> length (idx_fields index) \<le> 8"
    and "distinct (map fi_pb_idx (idx_fields index))"
    and "fi_pb_idx ` set (idx_fields index) \<subseteq> msg_fields m0"
  shows "\<exists>key'. encode_key big index m key (-1) False False = Some (0, m, key') \<and>
    (\<forall>full post. decode_key big' index \<lparr>tk_full = full, tk_data = mk_data key' @ post\<rparr> m0
        (length (mk_data key)) =
      Some (0, overlay m (idx_fields index) m0, length (mk_data key')))"
proof -
  have "idx_type index = I_PRIMARY \<or> is_secondary (idx_type index)" and "idx_type index \<noteq> I_ROLLUP"
    using assms(2) by (auto simp: is_secondary_def)
  with encode_key_row [OF assms(1) _ assms(3), of big key]
    decode_key_row [OF assms(1, 2, 4, 5), of _ "mk_data key", simplified]
  show ?thesis by simp
qed

theorem index_key_round_trip_witness:
  "\<exists>key'. encode_key False
      \<lparr>idx_type = I_KEY, idx_fields = [\<lparr>fi_type = INT8, fi_pb_idx = 0, fi_can_null = False\<rparr>,
         \<lparr>fi_type = STRING, fi_pb_idx = 3, fi_can_null = True\<rparr>], idx_has_nullable = True,
       idx_pk_fields = []\<rparr>
      \<lparr>msg_fields = {0, 3}, msg_vals = [0 \<mapsto> PInt32 (-7)]\<rparr> mut_key_empty (-1) False False =
    Some (0, \<lparr>msg_fields = {0, 3}, msg_vals = [0 \<mapsto> PInt32 (-7)]\<rparr>, key')"
  using index_key_round_trip [of "\<lparr>idx_type = I_KEY,
      idx_fields = [\<lparr>fi_type = INT8, fi_pb_idx = 0, fi_can_null = False\<rparr>,
        \<lparr>fi_type = STRING, fi_pb_idx = 3, fi_can_null = True\<rparr>], idx_has_nullable = True,
      idx_pk_fields = []\<rparr>" "\<lparr>msg_fields = {0, 3}, msg_vals = [0 \<mapsto> PInt32 (-7)]\<rparr>"
      "\<lparr>msg_fields = {0, 3}, msg_vals = Map.empty\<rparr>" False mut_key_empty True]
  by (auto simp: key_row_def is_secondary_def fits_column_def)

lemma row_values_types:
  "key_row I_PRIMARY m idx infos \<Longrightarrow> map value_type (row_values m infos) = map fi_type infos"
proof (induction infos arbitrary: idx)
  case Nil
  show ?case by simp
next
  case (Cons info infos)
  from key_row_Cons [OF Cons.prems] Cons.IH [of "Suc idx"] show ?case
    by (auto simp: is_secondary_def to_value_exact split: option.splits)
qed

lemma row_values_valid:
  "key_row ty m idx infos \<Longrightarrow> list_all valid_value (row_values m infos)"
proof (induction infos arbitrary: idx)
  case Nil
  show ?case by simp
next
  case (Cons info infos)
  from key_row_Cons [OF Cons.prems] Cons.IH [of "Suc idx"] show ?case
    by (auto simp: to_value_exact exact_valid split: option.splits)
qed

text \<open>
  (C2) Key order. Two rows with valid values for the columns of a primary index are
  encoded behind the same prefix (the region and table ids) to keys whose byte order
  is the order of the rows by their index columns.
\<close>

theorem primary_key_order:
  assumes "idx_type index = I_PRIMARY"
    and "key_row I_PRIMARY m 0 (idx_fields index)" and "key_row I_PRIMARY m' 0 (idx_fields index)"
    and "idx_has_nullable index \<longrightarrow> length (idx_fields index) \<le> 8"
  shows "\<exists>k k'. encode_key big index m key (-1) False False = Some (0, m, k) \<and>
    encode_key big index m' key (-1) False False = Some (0, m', k') \<and>
    (mk_data k < mk_data k' \<longleftrightarrow>
       values_less (row_values m (idx_fields index)) (row_values m' (idx_fields index)))"
  using assms encode_key_row [of index m big key] encode_key_row [of index m' big key]
    enc_values_order [of "row_values m (idx_fields index)" "row_values m' (idx_fields index)" "[]" "[]"]
  by (simp add: row_values_types row_values_valid row_key_def is_secondary_def lex_append_same)

theorem primary_key_order_witness:
  "\<exists>k k'. encode_key False \<lparr>idx_type = I_PRIMARY,
        idx_fields = [\<lparr>fi_type = INT64, fi_pb_idx = 0, fi_can_null = False\<rparr>],
        idx_has_nullable = False, idx_pk_fields = []\<rparr>
      \<lparr>msg_fields = {0}, msg_vals = [0 \<mapsto> PInt64 (-1)]\<rparr> mut_key_empty (-1) False False =
      Some (0, \<lparr>msg_fields = {0}, msg_vals = [0 \<mapsto> PInt64 (-1)]\<rparr>, k) \<and>
    encode_key False \<lparr>idx_type = I_PRIMARY,
        idx_fields = [\<lparr>fi_type = INT64, fi_pb_idx = 0, fi_can_null = False\<rparr>],
        idx_has_nullable = False, idx_pk_fields = []\<rparr>
      \<lparr>msg_fields = {0}, msg_vals = [0 \<mapsto> PInt64 5]\<rparr> mut_key_empty (-1) False False =
      Some (0, \<lparr>msg_fields = {0}, msg_vals = [0 \<mapsto> PInt64 5]\<rparr>, k') \<and>
    mk_data k < mk_data k'"
  using primary_key_order [of "\<lparr>idx_type = I_PRIMARY,
        idx_fields = [\<lparr>fi_type = INT64, fi_pb_idx = 0, fi_can_null = False\<rparr>],
        idx_has_nullable = False, idx_pk_fields = []\<rparr>"
      "\<lparr>msg_fields = {0}, msg_vals = [0 \<mapsto> PInt64 (-1)]\<rparr>"
      "\<lparr>msg_fields = {0}, msg_vals = [0 \<mapsto> PInt64 5]\<rparr>" False mut_key_empty]
  by (simp add: key_row_def fits_column_def to_value_def)

subsection \<open>Entries of a secondary index\<close>

lemma encode_pk_loop_row:
  assumes "key_row I_PRIMARY m idx infos"
  shows "encode_pk_loop big infos m key = Some (0, m, key_append (enc_values (row_values m infos)) key)"
  using assms
proof (induction infos arbitrary: idx key)
  case Nil
  show ?case by (simp add: key_append_def)
next
  case (Cons info infos)
  note row = key_row_Cons [OF Cons.prems]
  then obtain pv where "msg_vals m (fi_pb_idx info) = Some pv" by (auto simp: is_secondary_def)
  with row show ?case
    by (auto simp: has_field_def Cons.IH encode_field_value append_value_enc key_append_def)
qed

lemma decode_pk_loop_row:
  "key_row I_PRIMARY m idx infos \<Longrightarrow> decode_pk_loop big k infos m0 pos =
     decode_key_loop big k 0 idx infos m0 pos"
  by (induction infos arbitrary: idx m0 pos)
     (auto dest: key_row_Cons split: option.splits prod.splits)

lemma decode_primary_key_row:
  assumes "idx_type index = I_KEY \<or> idx_type index = I_UNIQ"
    and row: "key_row I_PRIMARY m 0 (idx_pk_fields index)"
    and "distinct (map fi_pb_idx (idx_pk_fields index))"
    and "fi_pb_idx ` set (idx_pk_fields index) \<subseteq> msg_fields m0"
    and "tk_data k = pre @ enc_values (row_values m (idx_pk_fields index)) @ post"
  shows "decode_primary_key big index k m0 (length pre) =
    Some (0, overlay m (idx_pk_fields index) m0,
      length pre + length (enc_values (row_values m (idx_pk_fields index))))"
proof -
  have "flags_match 0 m 0 (idx_pk_fields index)"
    using row flags_match_all_set [of "idx_pk_fields index" m 0]
    by (auto simp: key_row_def is_secondary_def split: option.splits)
  with assms decode_key_loop_row [OF row] show ?thesis
    by (auto simp: decode_primary_key_def decode_pk_loop_row [OF row])
qed

text \<open>
  (C5) Secondary index entries. The key of a non-unique index is the index columns
  with their null flags and then the primary key columns that the index does not hold.
  Reading an entry with \<^verbatim>\<open>decode_key\<close> and then \<^verbatim>\<open>decode_primary_key\<close> from
  the position it returned restores both column lists.
\<close>

theorem secondary_entry_round_trip:
  assumes "idx_type index = I_KEY"
    and "key_row I_KEY m 0 (idx_fields index)" and "key_row I_PRIMARY m 0 (idx_pk_fields index)"
    and "idx_has_nullable index \<longrightarrow> length (idx_fields index) \<le> 8"
    and "distinct (map fi_pb_idx (idx_fields index))"
    and "distinct (map fi_pb_idx (idx_pk_fields index))"
    and "fi_pb_idx ` set (idx_fields index @ idx_pk_fields index) \<subseteq> msg_fields m0"
  shows "\<exists>key1 key2 m1 pos1.
    encode_key big index m key (-1) False False = Some (0, m, key1) \<and>
    encode_primary_key big index m key1 (-1) = Some (0, m, key2) \<and>
    decode_key big index (table_key_of key2) m0 (length (mk_data key)) = Some (0, m1, pos1) \<and>
    decode_primary_key big index (table_key_of key2) m1 pos1 =
      Some (0, overlay m (idx_pk_fields index) (overlay m (idx_fields index) m0),
        length (mk_data key2))"
proof -
  let ?k1 = "row_key I_KEY (null_bits m 0 (idx_fields index)) m (idx_fields index)"
  let ?k2 = "enc_values (row_values m (idx_pk_fields index))"
  let ?key1 = "\<lparr>mk_full = False, mk_data = mk_data key @ ?k1\<rparr>"
  let ?key2 = "\<lparr>mk_full = False, mk_data = mk_data key @ ?k1 @ ?k2\<rparr>"
  have "encode_key big index m key (-1) False False = Some (0, m, ?key1)"
    using encode_key_row [of index m big key] assms by (simp add: is_secondary_def)
  moreover have "encode_primary_key big index m ?key1 (-1) = Some (0, m, ?key2)"
    using assms(1) encode_pk_loop_row [OF assms(3)]
    by (simp add: encode_primary_key_def key_append_def)
  moreover have "decode_key big index (table_key_of ?key2) m0 (length (mk_data key)) =
      Some (0, overlay m (idx_fields index) m0, length (mk_data key @ ?k1))"
    using decode_key_row [of index m m0 "table_key_of ?key2" "mk_data key" ?k2] assms
    by (simp add: table_key_of_def image_Un)
  moreover have "decode_primary_key big index (table_key_of ?key2) (overlay m (idx_fields index) m0)
      (length (mk_data key @ ?k1)) =
      Some (0, overlay m (idx_pk_fields index) (overlay m (idx_fields index) m0),
        length (mk_data key @ ?k1) + length ?k2)"
    using assms by (intro decode_primary_key_row [where post = "[]"])
      (simp_all add: table_key_of_def overlay_def image_Un)
  ultimately show ?thesis by simp
qed

theorem secondary_entry_round_trip_witness:
  "\<exists>key1. encode_key False
      \<lparr>idx_type = I_KEY, idx_fields = [\<lparr>fi_type = STRING, fi_pb_idx = 3, fi_can_null = True\<rparr>],
       idx_has_nullable = True, idx_pk_fields = [\<lparr>fi_type = UINT32, fi_pb_idx = 0, fi_can_null = False\<rparr>]\<rparr>
      \<lparr>msg_fields = {0, 3}, msg_vals = [0 \<mapsto> PUInt32 9]\<rparr> mut_key_empty (-1) False False =
    Some (0, \<lparr>msg_fields = {0, 3}, msg_vals = [0 \<mapsto> PUInt32 9]\<rparr>, key1)"
  using secondary_entry_round_trip [of
      "\<lparr>idx_type = I_KEY, idx_fields = [\<lparr>fi_type = STRING, fi_pb_idx = 3, fi_can_null = True\<rparr>],
        idx_has_nullable = True, idx_pk_fields = [\<lparr>fi_type = UINT32, fi_pb_idx = 0, fi_can_null = False\<rparr>]\<rparr>"
      "\<lparr>msg_fields = {0, 3}, msg_vals = [0 \<mapsto> PUInt32 9]\<rparr>" "\<lparr>msg_fields = {0, 3}, msg_vals = Map.empty\<rparr>"
      False mut_key_empty]
  by (auto simp: key_row_def is_secondary_def fits_column_def)

text \<open>
  (C40) Rollup keys. \<^verbatim>\<open>encode_key\<close> reserves a null flag byte for a rollup index
  and collects the flags, but it stores them only for the other secondary
  indexes, although \<^verbatim>\<open>decode_key\<close> reads them for a rollup index too. So two rows whose non-null
  columns hold the same values in the same order get the same key, whichever of their
  columns are null, and every column of the key is read back as not null.
\<close>

theorem rollup_key_drops_null_flags:
  assumes "idx_type index = I_ROLLUP"
    and "key_row I_ROLLUP m 0 (idx_fields index)" and "key_row I_ROLLUP m' 0 (idx_fields index)"
    and "row_values m (idx_fields index) = row_values m' (idx_fields index)"
    and "idx_has_nullable index \<longrightarrow> length (idx_fields index) \<le> 8"
  shows "\<exists>key'. encode_key big index m key (-1) False False = Some (0, m, key') \<and>
    encode_key big index m' key (-1) False False = Some (0, m', key') \<and>
    decode_key big index (table_key_of key') m0 (length (mk_data key)) =
      decode_key_loop big (table_key_of key') 0 0 (idx_fields index) m0
        (Suc (length (mk_data key)))"
proof -
  let ?key' = "\<lparr>mk_full = False, mk_data = mk_data key @ row_key I_ROLLUP 0 m (idx_fields index)\<rparr>"
  have "encode_key big index m key (-1) False False = Some (0, m, ?key')"
    and "encode_key big index m' key (-1) False False = Some (0, m', ?key')"
    using encode_key_row [of index _ big key] assms by (simp_all add: is_secondary_def row_key_def)
  moreover have "extract_u8 big (table_key_of ?key') (length (mk_data key)) = Some 0"
    by (rule extract_at(1) [where post = "enc_values (row_values m (idx_fields index))"])
      (simp add: table_key_of_def row_key_def is_secondary_def)
  ultimately show ?thesis using assms(1) by (simp add: decode_key_def is_secondary_def)
qed

theorem rollup_key_drops_null_flags_witness:
  "\<exists>key'. encode_key False
      \<lparr>idx_type = I_ROLLUP, idx_fields = [\<lparr>fi_type = UINT8, fi_pb_idx = 0, fi_can_null = True\<rparr>,
         \<lparr>fi_type = UINT8, fi_pb_idx = 1, fi_can_null = True\<rparr>], idx_has_nullable = True,
       idx_pk_fields = []\<rparr>
      \<lparr>msg_fields = {0, 1}, msg_vals = [1 \<mapsto> PUInt32 9]\<rparr> mut_key_empty (-1) False False =
    Some (0, \<lparr>msg_fields = {0, 1}, msg_vals = [1 \<mapsto> PUInt32 9]\<rparr>, key') \<and>
    encode_key False
      \<lparr>idx_type = I_ROLLUP, idx_fields = [\<lparr>fi_type = UINT8, fi_pb_idx = 0, fi_can_null = True\<rparr>,
         \<lparr>fi_type = UINT8, fi_pb_idx = 1, fi_can_null = True\<rparr>], idx_has_nullable = True,
       idx_pk_fields = []\<rparr>
      \<lparr>msg_fields = {0, 1}, msg_vals = [0 \<mapsto> PUInt32 9]\<rparr> mut_key_empty (-1) False False =
    Some (0, \<lparr>msg_fields = {0, 1}, msg_vals = [0 \<mapsto> PUInt32 9]\<rparr>, key')"
  using rollup_key_drops_null_flags [of
      "\<lparr>idx_type = I_ROLLUP, idx_fields = [\<lparr>fi_type = UINT8, fi_pb_idx = 0, fi_can_null = True\<rparr>,
         \<lparr>fi_type = UINT8, fi_pb_idx = 1, fi_can_null = True\<rparr>], idx_has_nullable = True,
       idx_pk_fields = []\<rparr>" "\<lparr>msg_fields = {0, 1}, msg_vals = [1 \<mapsto> PUInt32 9]\<rparr>"
      "\<lparr>msg_fields = {0, 1}, msg_vals = [0 \<mapsto> PUInt32 9]\<rparr>" False mut_key_empty]
  by (auto simp: key_row_def is_secondary_def fits_column_def)

end
