(* ===== verification/Rocks.thy ===== *)
theory Rocks
  imports KeyEncoder
begin

text \<open>
  RocksDB as the program uses it, and the wrapper operations of
  \<^verbatim>\<open>src/engine/rocks_wrapper.cpp\<close> that add logic of their own. RocksDB itself
  is a parameter: the record \<open>rocks\<close> of its operations over an abstract store, and
  the predicate \<open>rocks_ok\<close>, the documented behaviour that the proofs rely on. The
  last section is an instance that satisfies it.
\<close>

section \<open>The operations\<close>

datatype rocks_status = R_ok | R_not_found | R_error

datatype column_family = Raft_Log_Cf | Bin_Log_Cf | Old_Bin_Log_Cf | Data_Cf | Meta_Info_Cf

datatype write_op =
    W_put column_family bytes bytes
  | W_delete column_family bytes
  | W_delete_range column_family bytes bytes

record 'db rocks =
  rk_get :: "'db \<Rightarrow> column_family \<Rightarrow> bytes \<Rightarrow> rocks_status \<times> bytes"
  rk_put :: "'db \<Rightarrow> column_family \<Rightarrow> bytes \<Rightarrow> bytes \<Rightarrow> rocks_status \<times> 'db"
  rk_write :: "'db \<Rightarrow> write_op list \<Rightarrow> rocks_status \<times> 'db"
  rk_delete_files :: "'db \<Rightarrow> column_family \<Rightarrow> bytes \<Rightarrow> bytes \<Rightarrow> rocks_status \<times> 'db"
  rk_iterate :: "'db \<Rightarrow> column_family \<Rightarrow> nat \<Rightarrow> bytes \<Rightarrow> (bytes \<times> bytes) list \<times> rocks_status"

text \<open>
  What a write batch does to the contents of the store. \<open>rk_iterate db cf n key\<close>
  lists what an iterator with \<^verbatim>\<open>prefix_same_as_start\<close> and prefix length \<open>n\<close> visits
  from \<open>key\<close> on, and its final status.
\<close>

type_synonym contents = "column_family \<Rightarrow> bytes \<rightharpoonup> bytes"

fun apply_op :: "write_op \<Rightarrow> contents \<Rightarrow> contents" where
  "apply_op (W_put cf k v) c = c(cf := (c cf)(k \<mapsto> v))"
| "apply_op (W_delete cf k) c = c(cf := (c cf)(k := None))"
| "apply_op (W_delete_range cf b e) c = c(cf := (\<lambda>k. if b \<le> k \<and> k < e then None else c cf k))"

definition iterates :: "contents \<Rightarrow> column_family \<Rightarrow> nat \<Rightarrow> bytes \<Rightarrow> (bytes \<times> bytes) list \<Rightarrow> bool" where
  "iterates c cf n key kvs \<longleftrightarrow> sorted_wrt (<) (map fst kvs) \<and>
     (\<forall>k v. (k, v) \<in> set kvs \<longleftrightarrow> c cf k = Some v \<and> key \<le> k \<and> take n k = take n key)"

definition rocks_ok :: "'db rocks \<Rightarrow> ('db \<Rightarrow> contents) \<Rightarrow> bool" where
  "rocks_ok R contents \<longleftrightarrow>
     (\<forall>db cf k st v. rk_get R db cf k = (st, v) \<longrightarrow>
        (st = R_ok \<longrightarrow> contents db cf k = Some v) \<and> (st = R_not_found \<longrightarrow> contents db cf k = None)) \<and>
     (\<forall>db cf k v st db'. rk_put R db cf k v = (st, db') \<longrightarrow>
        contents db' = (if st = R_ok then apply_op (W_put cf k v) (contents db) else contents db)) \<and>
     (\<forall>db ops st db'. rk_write R db ops = (st, db') \<longrightarrow>
        contents db' = (if st = R_ok then fold apply_op ops (contents db) else contents db)) \<and>
     (\<forall>db cf b e st db' cf' k. rk_delete_files R db cf b e = (st, db') \<longrightarrow>
        cf' \<noteq> cf \<or> \<not> (b \<le> k \<and> k < e) \<longrightarrow> contents db' cf' k = contents db cf' k) \<and>
     (\<forall>db cf n key kvs st. rk_iterate R db cf n key = (kvs, st) \<longrightarrow> st = R_ok \<longrightarrow>
        iterates (contents db) cf n key kvs)"

lemma rocks_get:
  assumes "rocks_ok R contents" and "rk_get R db cf k = (st, v)"
  shows "st = R_ok \<Longrightarrow> contents db cf k = Some v" and "st = R_not_found \<Longrightarrow> contents db cf k = None"
  using assms by (simp_all add: rocks_ok_def)

lemma rocks_put:
  assumes "rocks_ok R contents" and "rk_put R db cf k v = (st, db')"
  shows "contents db' = (if st = R_ok then apply_op (W_put cf k v) (contents db) else contents db)"
  using assms unfolding rocks_ok_def by presburger

lemma rocks_write:
  assumes "rocks_ok R contents" and "rk_write R db ops = (st, db')"
  shows "contents db' = (if st = R_ok then fold apply_op ops (contents db) else contents db)"
  using assms unfolding rocks_ok_def by presburger

lemma rocks_delete_files:
  assumes "rocks_ok R contents" and "rk_delete_files R db cf b e = (st, db')"
    and "cf' \<noteq> cf \<or> \<not> (b \<le> k \<and> k < e)"
  shows "contents db' cf' k = contents db cf' k"
  using assms unfolding rocks_ok_def by blast

lemma rocks_iterate:
  assumes "rocks_ok R contents" and "rk_iterate R db cf n key = (kvs, R_ok)"
  shows "iterates (contents db) cf n key kvs"
  using assms unfolding rocks_ok_def by blast

text \<open>No read, and no operation at all, of the store fails.\<close>

definition rocks_readable :: "'db rocks \<Rightarrow> bool" where
  "rocks_readable R \<longleftrightarrow>
     (\<forall>db cf k. fst (rk_get R db cf k) \<noteq> R_error) \<and>
     (\<forall>db cf n key. snd (rk_iterate R db cf n key) = R_ok)"

definition rocks_up :: "'db rocks \<Rightarrow> bool" where
  "rocks_up R \<longleftrightarrow> rocks_readable R \<and>
     (\<forall>db cf k v. fst (rk_put R db cf k v) = R_ok) \<and>
     (\<forall>db ops. fst (rk_write R db ops) = R_ok) \<and>
     (\<forall>db cf b e. fst (rk_delete_files R db cf b e) = R_ok)"

lemma rocks_up_readable: "rocks_up R \<Longrightarrow> rocks_readable R"
  by (simp add: rocks_up_def)

lemma rocks_readable_iterate:
  assumes "rocks_readable R"
  obtains kvs where "rk_iterate R db cf n key = (kvs, R_ok)"
  using assms that [of "fst (rk_iterate R db cf n key)"] by (simp add: rocks_readable_def prod_eq_iff)

lemma rocks_up_get:
  assumes "rocks_ok R contents" and "rocks_readable R"
  shows "contents db cf k = Some v \<Longrightarrow> rk_get R db cf k = (R_ok, v)"
    and "contents db cf k = None \<Longrightarrow> fst (rk_get R db cf k) = R_not_found"
proof -
  have e: "fst (rk_get R db cf k) \<noteq> R_error" using assms(2) by (simp add: rocks_readable_def)
  obtain st u where g: "rk_get R db cf k = (st, u)" by force
  note r = rocks_get [OF assms(1) g]
  show "contents db cf k = Some v \<Longrightarrow> rk_get R db cf k = (R_ok, v)"
    using e g r by (cases st) auto
  show "contents db cf k = None \<Longrightarrow> fst (rk_get R db cf k) = R_not_found"
    using e g r by (cases st) auto
qed

lemma rocks_up_put:
  assumes "rocks_ok R contents" and "rocks_up R"
  obtains db' where "rk_put R db cf k v = (R_ok, db')"
    and "contents db' = apply_op (W_put cf k v) (contents db)"
proof (cases "rk_put R db cf k v")
  case (Pair st db')
  moreover have "st = R_ok" using assms(2) Pair by (metis fst_conv rocks_up_def)
  ultimately show thesis using that rocks_put [OF assms(1) Pair] by simp
qed

lemma rocks_up_write:
  assumes "rocks_ok R contents" and "rocks_up R"
  obtains db' where "rk_write R db ops = (R_ok, db')"
    and "contents db' = fold apply_op ops (contents db)"
proof (cases "rk_write R db ops")
  case (Pair st db')
  moreover have "st = R_ok" using assms(2) Pair by (metis fst_conv rocks_up_def)
  ultimately show thesis using that rocks_write [OF assms(1) Pair] by simp
qed

section \<open>The wrapper\<close>

text \<open>\<open>delete_files_flag\<close> is the configuration flag \<^verbatim>\<open>FLAGS_delete_files_in_range\<close>.\<close>

definition remove_range ::
  "'db rocks \<Rightarrow> bool \<Rightarrow> 'db \<Rightarrow> column_family \<Rightarrow> bytes \<Rightarrow> bytes \<Rightarrow> bool \<Rightarrow> rocks_status \<times> 'db" where
  "remove_range R delete_files_flag db cf b e delete_files_in_range =
     (if delete_files_in_range \<and> delete_files_flag then
        (case rk_delete_files R db cf b e of (s, db') \<Rightarrow>
           if s \<noteq> R_ok then (s, db') else rk_write R db' [W_delete_range cf b e])
      else rk_write R db [W_delete_range cf b e])"

lemma remove_range_contents:
  assumes ok: "rocks_ok R contents" and "remove_range R flag db cf b e dfr = (st, db')"
  shows "cf' \<noteq> cf \<or> \<not> (b \<le> k \<and> k < e) \<Longrightarrow> contents db' cf' k = contents db cf' k"
    and "st = R_ok \<Longrightarrow> b \<le> k \<Longrightarrow> k < e \<Longrightarrow> contents db' cf k = None"
  using assms(2)
  by (auto simp: remove_range_def rocks_write [OF ok] rocks_delete_files [OF ok]
      split: if_splits prod.splits)

lemma remove_range_up:
  assumes ok: "rocks_ok R contents" and up: "rocks_up R"
  obtains db' where "remove_range R flag db cf b e dfr = (R_ok, db')"
    and "contents db' = (contents db)(cf := (\<lambda>k. if b \<le> k \<and> k < e then None else contents db cf k))"
proof -
  obtain st db' where r: "remove_range R flag db cf b e dfr = (st, db')" by force
  have "fst (rk_write R d ops) = R_ok" "fst (rk_delete_files R d cf b e) = R_ok" for d ops
    using up by (simp_all add: rocks_up_def)
  then have "st = R_ok"
    using r by (auto simp: remove_range_def split: if_splits prod.splits) (metis fst_conv)+
  moreover from this have "contents db' = (contents db)(cf := (\<lambda>k. if b \<le> k \<and> k < e then None else contents db cf k))"
    using remove_range_contents [OF ok r] by (intro ext) (simp add: fun_upd_def)
  ultimately show thesis using that r by blast
qed

text \<open>
  Reading a binlog by its timestamp. \<open>has_binlog\<close> and \<open>has_old\<close> say whether the two
  column families exist; the old one is keyed by the bare timestamp.
\<close>

definition binlog_key :: "bool \<Rightarrow> int \<Rightarrow> bytes" where
  "binlog_key big ts = mem_bytes big 8 (to_endian_u64 big (encode_i64 (word_of_int ts)))"

definition get_binlog_value ::
  "'db rocks \<Rightarrow> bool \<Rightarrow> bool \<Rightarrow> bool \<Rightarrow> 'db \<Rightarrow> int \<Rightarrow> int \<times> bytes" where
  "get_binlog_value R big has_binlog has_old db ts =
     (if \<not> has_binlog then (-1, [])
      else case rk_get R db Bin_Log_Cf (binlog_key big ts) of (status, value) \<Rightarrow>
        if status = R_not_found then
          (if \<not> has_old then (-1, [])
           else case rk_get R db Old_Bin_Log_Cf (mem_bytes big 8 (word_of_int ts :: 64 word)) of
             (status2, value2) \<Rightarrow> if status2 \<noteq> R_ok then (-1, []) else (0, value2))
        else if status \<noteq> R_ok then (-1, []) else (0, value))"

section \<open>A store in memory\<close>

text \<open>The store as an association list in each column family, newest first.\<close>

type_synonym mem_db = "((column_family \<times> bytes) \<times> bytes) list"

definition mem_contents :: "mem_db \<Rightarrow> contents" where
  "mem_contents db cf k = map_of db (cf, k)"

fun mem_op :: "write_op \<Rightarrow> mem_db \<Rightarrow> mem_db" where
  "mem_op (W_put cf k v) db = ((cf, k), v) # db"
| "mem_op (W_delete cf k) db = filter (\<lambda>(x, v). x \<noteq> (cf, k)) db"
| "mem_op (W_delete_range cf b e) db = filter (\<lambda>((c, k), v). \<not> (c = cf \<and> b \<le> k \<and> k < e)) db"

definition mem_keys :: "mem_db \<Rightarrow> column_family \<Rightarrow> bytes list" where
  "mem_keys db cf = sort (remdups (map (\<lambda>((c, k), v). k) (filter (\<lambda>((c, k), v). c = cf) db)))"

definition mem_rocks :: "mem_db rocks" where
  "mem_rocks =
     \<lparr>rk_get = (\<lambda>db cf k. case map_of db (cf, k) of None \<Rightarrow> (R_not_found, []) | Some v \<Rightarrow> (R_ok, v)),
      rk_put = (\<lambda>db cf k v. (R_ok, mem_op (W_put cf k v) db)),
      rk_write = (\<lambda>db ops. (R_ok, fold mem_op ops db)),
      rk_delete_files = (\<lambda>db cf b e. (R_ok, db)),
      rk_iterate = (\<lambda>db cf n key.
        (map (\<lambda>k. (k, the (map_of db (cf, k))))
           (filter (\<lambda>k. key \<le> k \<and> take n k = take n key) (mem_keys db cf)), R_ok))\<rparr>"

lemma map_of_filter_key: "map_of (filter (\<lambda>(x, v). P x) db) x = (if P x then map_of db x else None)"
  by (induction db) auto

lemma mem_contents_op: "mem_contents (mem_op w db) = apply_op w (mem_contents db)"
proof (cases w)
  case (W_put cf k v)
  then show ?thesis by (auto simp: mem_contents_def fun_eq_iff)
next
  case (W_delete cf k)
  then show ?thesis
    using map_of_filter_key [of "\<lambda>x. x \<noteq> (cf, k)" db] by (auto simp: mem_contents_def fun_eq_iff)
next
  case (W_delete_range cf b e)
  then show ?thesis
    using map_of_filter_key [of "\<lambda>(c, k). \<not> (c = cf \<and> b \<le> k \<and> k < e)" db]
    by (auto simp: mem_contents_def fun_eq_iff case_prod_unfold)
qed

lemma mem_contents_ops: "mem_contents (fold mem_op ops db) = fold apply_op ops (mem_contents db)"
  by (induction ops arbitrary: db) (simp_all add: mem_contents_op)

lemma set_mem_keys: "k \<in> set (mem_keys db cf) \<longleftrightarrow> mem_contents db cf k \<noteq> None"
  by (force simp: mem_keys_def mem_contents_def map_of_eq_None_iff image_iff)

lemma mem_rocks_iterates:
  "iterates (mem_contents db) cf n key
     (map (\<lambda>k. (k, the (map_of db (cf, k))))
        (filter (\<lambda>k. key \<le> k \<and> take n k = take n key) (mem_keys db cf)))"
proof -
  have "sorted_wrt (<) (mem_keys db cf)"
    by (simp add: mem_keys_def strict_sorted_iff)
  then show ?thesis
    by (auto simp: iterates_def comp_def sorted_wrt_filter set_mem_keys) (auto simp: mem_contents_def)
qed

lemma mem_rocks_ok: "rocks_ok mem_rocks mem_contents"
  unfolding rocks_ok_def
proof (intro conjI allI impI)
  fix db cf n key kvs st
  assume "rk_iterate mem_rocks db cf n key = (kvs, st)"
  then show "iterates (mem_contents db) cf n key kvs"
    using mem_rocks_iterates [of db cf n key] by (auto simp: mem_rocks_def)
qed (auto simp: mem_rocks_def mem_contents_op [of "W_put _ _ _", simplified] mem_contents_ops
      mem_contents_def split: option.splits)

lemma mem_rocks_up: "rocks_up mem_rocks"
  by (auto simp: rocks_up_def rocks_readable_def mem_rocks_def split: option.splits)

end
