(* ===== verification/IndexTermMap.thy ===== *)
theory IndexTermMap
  imports Prelude
begin

text \<open>
  The term index of the raft log, \<^verbatim>\<open>IndexTermMap\<close> in
  \<^verbatim>\<open>include/raft/index_term_map.h\<close>. The deque \<^verbatim>\<open>_q\<close> holds one log id for each
  stretch of entries with the same term, oldest first. The code only compares
  64-bit indices and terms, so they are integers. The interface the log storage
  relies on is the locale \<open>term_index\<close>, interpreted on these operations.
\<close>

section \<open>The class\<close>

record log_id =
  li_index :: int
  li_term :: int

text \<open>The linear search from the back, over the reversed deque.\<close>

fun tm_linear_search :: "log_id list \<Rightarrow> int \<Rightarrow> int" where
  "tm_linear_search [] index = 0"
| "tm_linear_search (e # es) index =
     (if li_index e \<le> index then li_term e else tm_linear_search es index)"

text \<open>\<^verbatim>\<open>std::upper_bound\<close>: the binary search over \<open>len\<close> entries from \<open>first\<close>.\<close>

function upper_bound :: "log_id list \<Rightarrow> int \<Rightarrow> nat \<Rightarrow> nat \<Rightarrow> nat" where
  "upper_bound q index first len =
     (if len = 0 then first
      else let half = len div 2; middle = first + half in
        if index < li_index (q ! middle) then upper_bound q index first half
        else upper_bound q index (Suc middle) (len - half - 1))"
  by pat_completeness auto
termination by (relation "measure (\<lambda>(q, index, first, len). len)") auto

declare upper_bound.simps [simp del]

definition tm_get_term :: "log_id list \<Rightarrow> int \<Rightarrow> int" where
  "tm_get_term q index =
     (if q = [] then 0
      else if li_index (last q) \<le> index then li_term (last q)
      else if length q < 15 then tm_linear_search (rev q) index
      else let iter = upper_bound q index 0 (length q) in
        if iter = 0 then 0 else li_term (q ! (iter - 1)))"

definition tm_append :: "log_id list \<Rightarrow> log_id \<Rightarrow> int \<times> log_id list" where
  "tm_append q log_id =
     (if q = [] then (0, [log_id])
      else if li_index log_id \<le> li_index (last q) \<or> li_term log_id < li_term (last q) then (-1, q)
      else if li_term log_id \<noteq> li_term (last q) then (0, q @ [log_id])
      else (0, q))"

fun tm_num_pop :: "log_id list \<Rightarrow> int \<Rightarrow> nat" where
  "tm_num_pop [] first_index_kept = 0"
| "tm_num_pop (e # es) first_index_kept =
     (if li_index e \<le> first_index_kept then Suc (tm_num_pop es first_index_kept) else 0)"

definition tm_truncate_prefix :: "log_id list \<Rightarrow> int \<Rightarrow> log_id list" where
  "tm_truncate_prefix q first_index_kept =
     (if q = [] then q else drop (tm_num_pop (tl q) first_index_kept) q)"

function tm_truncate_suffix :: "log_id list \<Rightarrow> int \<Rightarrow> log_id list" where
  "tm_truncate_suffix q last_index_kept =
     (if q \<noteq> [] \<and> last_index_kept < li_index (last q)
      then tm_truncate_suffix (butlast q) last_index_kept
      else q)"
  by pat_completeness auto
termination by (relation "measure (\<lambda>(q, k). length q)") auto

declare tm_truncate_suffix.simps [simp del]

definition tm_reset :: "log_id list \<Rightarrow> log_id list" where
  "tm_reset q = []"

section \<open>What the searches compute\<close>

text \<open>The term of an index is that of the last log id at or before it.\<close>

definition tm_spec :: "log_id list \<Rightarrow> int \<Rightarrow> int" where
  "tm_spec q index =
     (let es = filter (\<lambda>e. li_index e \<le> index) q in if es = [] then 0 else li_term (last es))"

definition tm_inv :: "log_id list \<Rightarrow> bool" where
  "tm_inv q = sorted_wrt (\<lambda>a b. li_index a < li_index b \<and> li_term a < li_term b) q"

lemma tm_spec_snoc [simp]:
  "tm_spec [] index = 0"
  "tm_spec (q @ [e]) index = (if li_index e \<le> index then li_term e else tm_spec q index)"
  by (simp_all add: tm_spec_def Let_def)

lemma tm_inv_simps [simp]:
  "tm_inv []"
  "tm_inv [e]"
  "tm_inv (q @ [e]) \<longleftrightarrow> tm_inv q \<and> (\<forall>d \<in> set q. li_index d < li_index e \<and> li_term d < li_term e)"
  by (auto simp: tm_inv_def sorted_wrt_append)

lemma tm_linear_search_spec: "tm_linear_search (rev q) index = tm_spec q index"
  by (induction q rule: rev_induct) auto

lemma tm_inv_index_mono:
  "tm_inv q \<Longrightarrow> i < j \<Longrightarrow> j < length q \<Longrightarrow> li_index (q ! i) < li_index (q ! j)"
  using sorted_wrt_nth_less by (fastforce simp: tm_inv_def)

text \<open>The binary search ends at the first log id behind the index.\<close>

lemma upper_bound_correct:
  assumes inv: "tm_inv q"
  shows "first + len \<le> length q \<Longrightarrow> \<forall>i < first. li_index (q ! i) \<le> index \<Longrightarrow>
    \<forall>i. first + len \<le> i \<and> i < length q \<longrightarrow> index < li_index (q ! i) \<Longrightarrow>
    upper_bound q index first len \<le> length q \<and>
    (\<forall>i < length q. li_index (q ! i) \<le> index \<longleftrightarrow> i < upper_bound q index first len)"
proof (induction len arbitrary: first rule: less_induct)
  case (less len)
  show ?case
  proof (cases "len = 0")
    case True
    with less.prems show ?thesis
      by (auto simp: upper_bound.simps) (meson leI not_le)
  next
    case False
    define middle where "middle = first + len div 2"
    have m: "middle < length q" using False less.prems(1) by (simp add: middle_def)
    show ?thesis
    proof (cases "index < li_index (q ! middle)")
      case True
      have "index < li_index (q ! i)" if "middle \<le> i" "i < length q" for i
        using True tm_inv_index_mono [OF inv, of middle i] that by (cases "middle = i") auto
      moreover have "upper_bound q index first len = upper_bound q index first (len div 2)"
        using True False by (subst upper_bound.simps) (simp add: middle_def)
      ultimately show ?thesis
        using less.IH [of "len div 2" first] less.prems False m
        by (simp only: middle_def) auto
    next
      case right: False
      have "li_index (q ! i) \<le> index" if "i < Suc middle" for i
        using right tm_inv_index_mono [OF inv, of i middle] that m by (cases "middle = i") auto
      moreover have "upper_bound q index first len =
          upper_bound q index (Suc middle) (len - len div 2 - 1)"
        using right False by (subst upper_bound.simps) (simp add: middle_def Let_def)
      moreover have "Suc middle + (len - len div 2 - 1) = first + len"
        and "len - len div 2 - 1 < len"
        using False by (simp_all add: middle_def)
      ultimately show ?thesis
        using less.IH [of "len - len div 2 - 1" "Suc middle"] less.prems
        by simp
    qed
  qed
qed

lemma filter_initial:
  assumes "n \<le> length q" and "\<And>i. i < length q \<Longrightarrow> P (q ! i) \<longleftrightarrow> i < n"
  shows "filter P q = take n q"
proof -
  have "filter P (take n q) = take n q"
    using assms by (auto simp: filter_id_conv in_set_conv_nth)
  moreover have "filter P (drop n q) = []"
    using assms by (auto simp: filter_empty_conv in_set_conv_nth)
  ultimately show ?thesis by (metis append_Nil2 append_take_drop_id filter_append)
qed

lemma tm_get_term_spec:
  assumes "tm_inv q"
  shows "tm_get_term q index = tm_spec q index"
proof (cases "q = []")
  case True
  then show ?thesis by (simp add: tm_get_term_def)
next
  case False
  then obtain q' e where q: "q = q' @ [e]" by (meson rev_exhaust)
  let ?n = "upper_bound q index 0 (length q)"
  have n: "?n \<le> length q" "\<And>i. i < length q \<Longrightarrow> li_index (q ! i) \<le> index \<longleftrightarrow> i < ?n"
    using upper_bound_correct [OF assms, of 0 "length q" index] by auto
  have "tm_spec q index = (if ?n = 0 then 0 else li_term (q ! (?n - 1)))"
    using filter_initial [OF n] n(1) False by (simp add: tm_spec_def last_conv_nth)
  with q show ?thesis
    by (auto simp: tm_get_term_def tm_linear_search_spec simp del: rev_append)
qed

section \<open>The interface of a term index\<close>

text \<open>Appending the ids of a batch one by one, until one is refused.\<close>

primrec append_ids :: "('q \<Rightarrow> log_id \<Rightarrow> int \<times> 'q) \<Rightarrow> 'q \<Rightarrow> log_id list \<Rightarrow> int \<times> 'q" where
  "append_ids app q [] = (0, q)"
| "append_ids app q (e # es) =
     (let (r, q') = app q e in if r \<noteq> 0 then (r, q') else append_ids app q' es)"

text \<open>
  What the log storage relies on: an index tracks the terms of the entries from
  index \<open>first\<close> on. \<open>floor_term\<close> is the term that later entries may not go below.
\<close>

locale term_index =
  fixes tracks :: "'q \<Rightarrow> int \<Rightarrow> int list \<Rightarrow> bool"
    and floor_term :: "'q \<Rightarrow> int option"
    and get_term :: "'q \<Rightarrow> int \<Rightarrow> int"
    and app :: "'q \<Rightarrow> log_id \<Rightarrow> int \<times> 'q"
    and trunc_prefix :: "'q \<Rightarrow> int \<Rightarrow> 'q"
    and trunc_suffix :: "'q \<Rightarrow> int \<Rightarrow> 'q"
    and rst :: "'q \<Rightarrow> 'q"
  assumes get_term: "tracks q f ts \<Longrightarrow> i < length ts \<Longrightarrow> get_term q (f + int i) = ts ! i"
    and floor_last: "tracks q f ts \<Longrightarrow> ts \<noteq> [] \<Longrightarrow> floor_term q = Some (last ts)"
    and app_ok: "tracks q f ts \<Longrightarrow> (case floor_term q of None \<Rightarrow> True | Some u \<Rightarrow> u \<le> t) \<Longrightarrow>
      \<exists>q'. app q \<lparr>li_index = f + int (length ts), li_term = t\<rparr> = (0, q') \<and> tracks q' f (ts @ [t])"
    and app_stale: "tracks q f ts \<Longrightarrow> floor_term q = Some u \<Longrightarrow> t < u \<Longrightarrow>
      app q \<lparr>li_index = f + int (length ts), li_term = t\<rparr> = (-1, q)"
    and prefix_ok: "tracks q f ts \<Longrightarrow> f \<le> k \<Longrightarrow> tracks (trunc_prefix q k) k (drop (nat (k - f)) ts)"
    and prefix_floor: "floor_term (trunc_prefix q k) = floor_term q"
    and suffix_ok: "tracks q f ts \<Longrightarrow> f - 1 \<le> k \<Longrightarrow> tracks (trunc_suffix q k) f (take (nat (k + 1 - f)) ts)"
    and reset_ok: "tracks (rst q) f []"
    and reset_floor: "floor_term (rst q) = None"
begin

lemma append_ids_ok:
  assumes "tracks q f ts" and "sorted ts'" and "\<forall>u \<in> set_option (floor_term q). \<forall>t \<in> set ts'. u \<le> t"
    and "es = map (\<lambda>i. \<lparr>li_index = f + int (length ts + i), li_term = ts' ! i\<rparr>) [0..<length ts']"
  shows "\<exists>q'. append_ids app q es = (0, q') \<and> tracks q' f (ts @ ts')"
  using assms
proof (induction ts' arbitrary: q ts es)
  case Nil
  then show ?case by simp
next
  case (Cons t ts')
  obtain q1 where q1: "app q \<lparr>li_index = f + int (length ts), li_term = t\<rparr> = (0, q1)"
    "tracks q1 f (ts @ [t])"
    using app_ok [OF Cons.prems(1), of t] Cons.prems(3) by (cases "floor_term q") auto
  then have b: "floor_term q1 = Some t" using floor_last by fastforce
  let ?es = "map (\<lambda>i. \<lparr>li_index = f + int (length (ts @ [t]) + i), li_term = ts' ! i\<rparr>)
    [0..<length ts']"
  have "\<exists>q'. append_ids app q1 ?es = (0, q') \<and> tracks q' f ((ts @ [t]) @ ts')"
    by (rule Cons.IH) (use q1 b Cons.prems in auto)
  moreover have "es = \<lparr>li_index = f + int (length ts), li_term = t\<rparr> # ?es"
    using Cons.prems(4) by (simp add: upt_conv_Cons map_Suc_upt [symmetric] o_def del: upt_Suc)
  ultimately show ?case using q1 by simp
qed

end

definition tm_floor :: "log_id list \<Rightarrow> int option" where
  "tm_floor q = (if q = [] then None else Some (li_term (last q)))"

definition tm_tracks :: "log_id list \<Rightarrow> int \<Rightarrow> int list \<Rightarrow> bool" where
  "tm_tracks q f ts \<longleftrightarrow> tm_inv q \<and> (\<forall>e \<in> set q. li_index e < f + int (length ts)) \<and>
     (\<forall>i < length ts. q \<noteq> [] \<and> li_index (hd q) \<le> f + int i \<and> tm_spec q (f + int i) = ts ! i)"

lemma tm_spec_filter:
  "tm_spec (filter (\<lambda>e. li_index e \<le> k) q) i = tm_spec q (min i k)"
  by (simp add: tm_spec_def conj_commute)

lemma tm_truncate_suffix_filter:
  "tm_inv q \<Longrightarrow> tm_truncate_suffix q k = filter (\<lambda>e. li_index e \<le> k) q"
proof (induction q rule: rev_induct)
  case Nil
  show ?case by (simp add: tm_truncate_suffix.simps)
next
  case (snoc e q)
  show ?case
  proof (cases "li_index e \<le> k")
    case True
    with snoc.prems have "\<forall>d \<in> set q. li_index d \<le> k" by auto
    with True show ?thesis by (simp add: tm_truncate_suffix.simps [of "q @ [e]"])
  next
    case False
    with snoc show ?thesis by (simp add: tm_truncate_suffix.simps [of "q @ [e]"])
  qed
qed

lemma tm_num_pop_bound: "tm_num_pop es k \<le> length es"
  by (induction es) auto

lemma tm_num_pop_less: "i < tm_num_pop es k \<Longrightarrow> li_index (es ! i) \<le> k"
  by (induction es arbitrary: i) (auto simp: nth_Cons split: nat.splits if_splits)

lemma tm_truncate_prefix_last [simp]:
  "tm_truncate_prefix q k = [] \<longleftrightarrow> q = []"
  "last (tm_truncate_prefix q k) = last q"
  using tm_num_pop_bound [of "tl q" k]
  by (auto simp: tm_truncate_prefix_def) (cases q; simp)+

lemma tm_truncate_prefix_spec:
  assumes "tm_inv q" and "q \<noteq> []" and "k \<le> i" and "li_index (hd q) \<le> i"
  shows "tm_spec (tm_truncate_prefix q k) i = tm_spec q i \<and>
    li_index (hd (tm_truncate_prefix q k)) \<le> i"
proof -
  obtain e es where q: "q = e # es" using assms(2) by (cases q) auto
  let ?n = "tm_num_pop es k"
  have n: "?n < length q" using tm_num_pop_bound [of es k] q by simp
  have hd: "li_index (q ! ?n) \<le> i"
    using assms(3, 4) tm_num_pop_less [of "?n - 1" es k] q by (cases ?n) auto
  have "filter (\<lambda>e. li_index e \<le> i) q =
      filter (\<lambda>e. li_index e \<le> i) (take ?n q) @ filter (\<lambda>e. li_index e \<le> i) (drop ?n q)"
    by (metis append_take_drop_id filter_append)
  moreover have "filter (\<lambda>e. li_index e \<le> i) (drop ?n q) \<noteq> []"
    using hd n by (auto simp: Cons_nth_drop_Suc [symmetric])
  ultimately have "tm_spec (drop ?n q) i = tm_spec q i"
    by (simp add: tm_spec_def)
  with hd n q show ?thesis by (simp add: tm_truncate_prefix_def hd_drop_conv_nth)
qed

lemma tm_inv_filter_drop:
  "tm_inv q \<Longrightarrow> tm_inv (filter P q)" "tm_inv q \<Longrightarrow> tm_inv (drop n q)"
  by (auto simp: tm_inv_def sorted_wrt_filter sorted_wrt_drop)

lemma tm_tracks_last:
  assumes "tm_tracks q f ts" and "ts \<noteq> []"
  shows "tm_floor q = Some (last ts)"
proof -
  from assms have "q \<noteq> []" by (auto simp: tm_tracks_def)
  then obtain q' e where q: "q = q' @ [e]" by (meson rev_exhaust)
  have len: "length ts - 1 < length ts" using assms(2) by simp
  with assms have "tm_spec q (f + int (length ts - 1)) = last ts"
    by (simp add: tm_tracks_def last_conv_nth)
  moreover have "li_index e \<le> f + int (length ts - 1)"
    using assms q by (cases ts) (simp_all add: tm_tracks_def)
  ultimately show ?thesis using q by (simp add: tm_floor_def)
qed

lemma tm_tracks_append:
  assumes t: "tm_tracks q f ts" and u: "case tm_floor q of None \<Rightarrow> True | Some u \<Rightarrow> u \<le> t"
  shows "\<exists>q'. tm_append q \<lparr>li_index = f + int (length ts), li_term = t\<rparr> = (0, q') \<and>
    tm_tracks q' f (ts @ [t])"
proof -
  let ?e = "\<lparr>li_index = f + int (length ts), li_term = t\<rparr>"
  consider (new) "q = []" | (same) q' e where "q = q' @ [e]" "li_term e = t"
    | (more) q' e where "q = q' @ [e]" "li_term e < t"
    using u by (cases q rule: rev_cases) (auto simp: tm_floor_def le_less)
  then show ?thesis
  proof cases
    case new
    then have "ts = []" using t by (auto simp: tm_tracks_def)
    with new show ?thesis by (simp add: tm_append_def tm_tracks_def tm_spec_snoc(2) [of "[]", simplified])
  next
    case same
    then have "tm_append q ?e = (0, q)"
      using t by (auto simp: tm_append_def tm_tracks_def)
    moreover have "tm_tracks q f (ts @ [t])"
      using t same hd_in_set [of q] by (fastforce simp: tm_tracks_def nth_append less_Suc_eq)
    ultimately show ?thesis by blast
  next
    case more
    then have "tm_append q ?e = (0, q @ [?e])"
      using t by (auto simp: tm_append_def tm_tracks_def)
    moreover have "\<forall>d \<in> set q. li_term d < t" and "q \<noteq> []" and "li_index (hd q) \<le> f + int (length ts)"
      using t more hd_in_set [of q] by (force simp: tm_tracks_def)+
    then have "tm_tracks (q @ [?e]) f (ts @ [t])"
      using t by (auto simp: tm_tracks_def nth_append less_Suc_eq hd_append)
    ultimately show ?thesis by blast
  qed
qed

lemma tm_tracks_prefix:
  assumes t: "tm_tracks q f ts" and k: "f \<le> k"
  shows "tm_tracks (tm_truncate_prefix q k) k (drop (nat (k - f)) ts)"
proof -
  let ?n = "nat (k - f)"
  have "tm_truncate_prefix q k \<noteq> [] \<and> li_index (hd (tm_truncate_prefix q k)) \<le> k + int i \<and>
      tm_spec (tm_truncate_prefix q k) (k + int i) = drop ?n ts ! i" if "i < length (drop ?n ts)" for i
    using that t k tm_truncate_prefix_spec [of q k "k + int i"]
    by (auto simp: tm_tracks_def dest!: spec [of _ "?n + i"])
  moreover have "tm_inv (tm_truncate_prefix q k)"
    and "set (tm_truncate_prefix q k) \<subseteq> set q"
    using t by (auto simp: tm_truncate_prefix_def tm_tracks_def tm_inv_filter_drop dest: in_set_dropD)
  ultimately show ?thesis using t k by (fastforce simp: tm_tracks_def)
qed

lemma tm_tracks_suffix:
  assumes t: "tm_tracks q f ts" and k: "f - 1 \<le> k"
  shows "tm_tracks (tm_truncate_suffix q k) f (take (nat (k + 1 - f)) ts)"
proof -
  have eq: "tm_truncate_suffix q k = filter (\<lambda>e. li_index e \<le> k) q"
    using t by (simp add: tm_tracks_def tm_truncate_suffix_filter)
  have "filter (\<lambda>e. li_index e \<le> k) q \<noteq> [] \<and>
      li_index (hd (filter (\<lambda>e. li_index e \<le> k) q)) \<le> f + int i \<and>
      tm_spec (filter (\<lambda>e. li_index e \<le> k) q) (f + int i) = ts ! i"
    if "i < length ts" "f + int i \<le> k" for i
  proof -
    have "tm_spec (filter (\<lambda>e. li_index e \<le> k) q) (f + int i) = tm_spec q (f + int i)"
      using that by (simp add: tm_spec_filter)
    moreover have "q \<noteq> [] \<and> li_index (hd q) \<le> f + int i \<and> tm_spec q (f + int i) = ts ! i"
      using that t by (simp add: tm_tracks_def)
    ultimately show ?thesis using that by (cases q) auto
  qed
  then show ?thesis
    using t k by (fastforce simp: eq tm_tracks_def tm_inv_filter_drop)
qed

interpretation tmi: term_index tm_tracks tm_floor tm_get_term tm_append
  tm_truncate_prefix tm_truncate_suffix tm_reset
proof (unfold_locales, goal_cases)
  case (1 q f ts i)
  then show ?case by (simp add: tm_tracks_def tm_get_term_spec)
next
  case (4 q f ts u t)
  then show ?case by (auto simp: tm_floor_def tm_append_def split: if_splits)
next
  case (6 q k)
  show ?case by (simp add: tm_floor_def)
next
  case (8 q f)
  show ?case by (simp add: tm_reset_def tm_tracks_def)
next
  case (9 q)
  show ?case by (simp add: tm_reset_def tm_floor_def)
qed (fact tm_tracks_last tm_tracks_append tm_tracks_prefix tm_tracks_suffix)+

section \<open>Reachable term maps\<close>

inductive tm_reachable :: "log_id list \<Rightarrow> bool" where
  tm_new: "tm_reachable []"
| tm_step_append: "tm_reachable q \<Longrightarrow> tm_reachable (snd (tm_append q e))"
| tm_step_prefix: "tm_reachable q \<Longrightarrow> tm_reachable (tm_truncate_prefix q k)"
| tm_step_suffix: "tm_reachable q \<Longrightarrow> tm_reachable (tm_truncate_suffix q k)"
| tm_step_reset: "tm_reachable q \<Longrightarrow> tm_reachable (tm_reset q)"

lemma tm_append_inv: "tm_inv q \<Longrightarrow> tm_inv (snd (tm_append q e))"
  by (cases q rule: rev_cases) (fastforce simp: tm_append_def tm_inv_def sorted_wrt_append)+

lemma tm_reachable_inv: "tm_reachable q \<Longrightarrow> tm_inv q"
  by (induction rule: tm_reachable.induct)
     (simp_all add: tm_append_inv tm_truncate_suffix_filter tm_inv_filter_drop
        tm_truncate_prefix_def tm_reset_def)

text \<open>
  (C7) Whatever appends, truncations and resets built a term map, \<^verbatim>\<open>get_term\<close>
  returns the term of the last recorded log id at or before the index, and 0
  before the first one: the linear search of a short deque and the binary search of
  a long one compute the same function.
\<close>

theorem term_map_get_term_correct:
  assumes "tm_reachable q"
  shows "tm_get_term q index = tm_spec q index"
  using tm_get_term_spec [OF tm_reachable_inv [OF assms]] .

theorem term_map_get_term_correct_witness:
  "tm_get_term [\<lparr>li_index = 3, li_term = 1\<rparr>, \<lparr>li_index = 7, li_term = 4\<rparr>] 5 = 1"
proof -
  have "tm_reachable (snd (tm_append (snd (tm_append [] \<lparr>li_index = 3, li_term = 1\<rparr>))
      \<lparr>li_index = 7, li_term = 4\<rparr>))"
    by (intro tm_reachable.intros)
  then have "tm_reachable [\<lparr>li_index = 3, li_term = 1\<rparr>, \<lparr>li_index = 7, li_term = 4\<rparr>]"
    by (simp add: tm_append_def)
  from term_map_get_term_correct [OF this, of 5] show ?thesis by (simp add: tm_spec_def)
qed

end
