(* ===== verification/RaftLogStorage.thy ===== *)
theory RaftLogStorage
  imports Rocks IndexTermMap
begin

text \<open>
  The raft log of a region in RocksDB: \<^verbatim>\<open>MyRaftLogStorage\<close>
  (\<^verbatim>\<open>src/raft/my_raft_log_storage.cpp\<close>) and the compaction filter
  (\<^verbatim>\<open>include/raft/raft_log_compaction_filter.h\<close>). A log storage object is the
  record \<open>log_storage\<close>; what it shares with the rest of the process (the
  database, the first-index map of the filter, the regions that may add a
  peer) is \<open>log_world\<close>. RocksDB, butil's packer, braft's enumeration and peer ids and the
  serialisation of protobuf messages are the record \<open>log_env\<close>.
  Log indices and terms are 64-bit: integers, with \<^term>\<open>in_i64\<close> where it matters.
  Allocation never fails, and log output is left out.
\<close>

section \<open>Entries, messages and environment\<close>

record 'p log_entry =
  le_id :: log_id
  le_type :: "32 word"
  le_data :: bytes
  le_peers :: "'p list option"
  le_old_peers :: "'p list option"

record conf_meta =
  cm_peers :: "bytes list"
  cm_old_peers :: "bytes list"

record 'p conf_entry =
  ce_id :: log_id
  ce_conf :: "'p list"
  ce_old_conf :: "'p list"

text \<open>The fields of \<^verbatim>\<open>pb::StoreReq\<close> that the log storage reads; \<open>sr_rest\<close> and
  \<open>bd_rest\<close> stand for all the others.\<close>

record binlog_desc =
  bd_binlog_ts :: int
  bd_rest :: bytes

record store_req =
  sr_op_type :: int
  sr_region_id :: int
  sr_region_version :: int
  sr_binlog_desc :: "binlog_desc option"
  sr_rest :: bytes

definition OP_PREWRITE_BINLOG :: int where "OP_PREWRITE_BINLOG = 61"

record ('db, 'p) log_env =
  ev_rocks :: "'db rocks"
  ev_big :: bool
  ev_delete_files :: bool
  ev_has_binlog_cf :: bool
  ev_has_old_binlog_cf :: bool
  ev_pack_head :: "64 word \<Rightarrow> 32 word \<Rightarrow> bytes"
  ev_unpack_head :: "bytes \<Rightarrow> 64 word \<times> 32 word"
  ev_no_op :: "32 word"
  ev_data :: "32 word"
  ev_configuration :: "32 word"
  ev_parse_conf :: "bytes \<Rightarrow> conf_meta option"
  ev_ser_conf :: "conf_meta \<Rightarrow> bytes option"
  ev_peer_of :: "bytes \<Rightarrow> 'p"
  ev_peer_str :: "'p \<Rightarrow> bytes"
  ev_parse_req :: "bytes \<Rightarrow> store_req option"
  ev_ser_req :: "store_req \<Rightarrow> bytes option"

record log_storage =
  ls_first_log_index :: int
  ls_last_log_index :: int
  ls_region_id :: int
  ls_is_binlog_region :: bool
  ls_term_map :: "log_id list"

record 'db log_world =
  lw_db :: 'db
  lw_first_index_map :: "int \<rightharpoonup> int"
  lw_can_add_peer :: "int set"

section \<open>Keys and heads\<close>

definition LOG_HEAD_SIZE :: nat where "LOG_HEAD_SIZE = 12"
definition LOG_META_KEY_SIZE :: nat where "LOG_META_KEY_SIZE = 9"
definition LOG_DATA_KEY_SIZE :: nat where "LOG_DATA_KEY_SIZE = 17"
definition LOG_META_IDENTIFY :: byte where "LOG_META_IDENTIFY = 1"
definition LOG_DATA_IDENTIFY :: byte where "LOG_DATA_IDENTIFY = 2"

definition encode_log_data_key :: "bool \<Rightarrow> int \<Rightarrow> int \<Rightarrow> bytes" where
  "encode_log_data_key big region_id index =
     mem_bytes big 8 (to_endian_u64 big (encode_i64 (word_of_int region_id))) @
     [LOG_DATA_IDENTIFY] @
     mem_bytes big 8 (to_endian_u64 big (encode_i64 (word_of_int index)))"

definition encode_log_meta_key :: "bool \<Rightarrow> int \<Rightarrow> bytes" where
  "encode_log_meta_key big region_id =
     mem_bytes big 8 (to_endian_u64 big (encode_i64 (word_of_int region_id))) @ [LOG_META_IDENTIFY]"

definition decode_log_data_key :: "bool \<Rightarrow> bytes \<Rightarrow> (int \<times> int) option" where
  "decode_log_data_key big data_key =
     (if length data_key \<noteq> LOG_DATA_KEY_SIZE then None
      else Some (sint (decode_i64 (to_endian_u64 big (mem_word big (take 8 data_key)))),
                 sint (decode_i64 (to_endian_u64 big (mem_word big (take 8 (drop 9 data_key)))))))"

definition head_serialize :: "('db, 'p) log_env \<Rightarrow> int \<Rightarrow> 32 word \<Rightarrow> bytes" where
  "head_serialize E term type = ev_pack_head E (word_of_int term) type"

definition head_of :: "('db, 'p) log_env \<Rightarrow> bytes \<Rightarrow> int \<times> 32 word" where
  "head_of E raw = (case ev_unpack_head E raw of (term, type) \<Rightarrow> (sint term, type))"

section \<open>Instances\<close>

text \<open>The position of the first occurrence of a string, as \<^verbatim>\<open>std::string::find\<close>.\<close>

fun string_find :: "string \<Rightarrow> string \<Rightarrow> nat option" where
  "string_find pat [] = (if pat = [] then Some 0 else None)"
| "string_find pat (c # cs) =
     (if take (length pat) (c # cs) = pat then Some 0 else map_option Suc (string_find pat cs))"

definition parse_my_raft_log_uri :: "string \<Rightarrow> (string \<times> bool) option" where
  "parse_my_raft_log_uri uri =
     (case string_find ''id='' uri of
        None \<Rightarrow> None
      | Some pos \<Rightarrow> if pos = 0 then None
                   else Some (drop (pos + 3) uri, string_find ''my_bin_log'' uri \<noteq> None))"

definition update_first_index_map :: "int \<Rightarrow> int \<Rightarrow> 'db log_world \<Rightarrow> 'db log_world" where
  "update_first_index_map region_id index w =
     w\<lparr>lw_first_index_map := (lw_first_index_map w)(region_id \<mapsto> index)\<rparr>"

definition remove_region_id :: "int \<Rightarrow> 'db log_world \<Rightarrow> 'db log_world" where
  "remove_region_id region_id w =
     w\<lparr>lw_first_index_map := (lw_first_index_map w)(region_id := None)\<rparr>"

definition new_log_storage :: "int \<Rightarrow> bool \<Rightarrow> log_storage" where
  "new_log_storage region_id is_binlog =
     \<lparr>ls_first_log_index = 0, ls_last_log_index = 0, ls_region_id = region_id,
      ls_is_binlog_region = is_binlog, ls_term_map = []\<rparr>"

text \<open>\<open>lexical_cast\<close> is boost's conversion to a 64-bit integer, which throws
  on other strings.\<close>

definition new_instance ::
  "('db, 'p) log_env \<Rightarrow> (string \<Rightarrow> int option) \<Rightarrow> string \<Rightarrow> 'db log_world \<Rightarrow>
   (log_storage \<times> 'db log_world) option" where
  "new_instance E lexical_cast uri w =
     (case parse_my_raft_log_uri uri of
        None \<Rightarrow> None
      | Some (string_region_id, is_binlog) \<Rightarrow>
          (case lexical_cast string_region_id of
             None \<Rightarrow> None
           | Some region_id \<Rightarrow>
               if is_binlog \<and> \<not> ev_has_binlog_cf E then None
               else Some (new_log_storage region_id is_binlog, update_first_index_map region_id 0 w)))"

section \<open>Loading the log\<close>

definition parse_meta ::
  "('db, 'p) log_env \<Rightarrow> bytes \<Rightarrow> 'p log_entry \<Rightarrow> 'p log_entry option" where
  "parse_meta E value entry =
     map_option (\<lambda>meta.
       let entry1 = entry\<lparr>le_peers := Some (map (ev_peer_of E) (cm_peers meta))\<rparr> in
       if cm_old_peers meta \<noteq> []
       then entry1\<lparr>le_old_peers := Some (map (ev_peer_of E) (cm_old_peers meta))\<rparr>
       else entry1) (ev_parse_conf E value)"

definition new_entry :: "log_id \<Rightarrow> 32 word \<Rightarrow> 'p log_entry" where
  "new_entry i t = \<lparr>le_id = i, le_type = t, le_data = [], le_peers = None, le_old_peers = None\<rparr>"

text \<open>
  The loop of \<^verbatim>\<open>init\<close> over what the iterator visits. It returns the return code, the
  term map, \<^verbatim>\<open>last_log_index\<close> and the configurations handed to the manager.
\<close>

fun init_loop ::
  "('db, 'p) log_env \<Rightarrow> int \<Rightarrow> (bytes \<times> bytes) list \<Rightarrow> int \<Rightarrow> log_id list \<Rightarrow> int \<Rightarrow> 'p conf_entry list \<Rightarrow>
   int \<times> log_id list \<times> int \<times> 'p conf_entry list" where
  "init_loop E my_region [] expected_index tm last_log_index confs = (0, tm, last_log_index, confs)"
| "init_loop E my_region ((key, value) # kvs) expected_index tm last_log_index confs =
     (case decode_log_data_key (ev_big E) key of
        None \<Rightarrow> (-1, tm, last_log_index, confs)
      | Some (region_id, index) \<Rightarrow>
          if region_id \<noteq> my_region then (-1, tm, last_log_index, confs)
          else if expected_index \<noteq> index then (-1, tm, last_log_index, confs)
          else if length value < LOG_HEAD_SIZE then (-1, tm, last_log_index, confs)
          else
            let (term, type) = head_of E value;
                log_id = \<lparr>li_index = index, li_term = term\<rparr>;
                (r, tm') = tm_append tm log_id
            in
            if r \<noteq> 0 then (-1, tm', last_log_index, confs)
            else if type = ev_configuration E then
              (case parse_meta E (drop LOG_HEAD_SIZE value) (new_entry log_id type) of
                 None \<Rightarrow> (-1, tm', last_log_index, confs)
               | Some entry \<Rightarrow>
                   init_loop E my_region kvs (expected_index + 1) tm' index
                     (confs @ [\<lparr>ce_id = log_id, ce_conf = the (le_peers entry),
                        ce_old_conf = (case le_old_peers entry of None \<Rightarrow> [] | Some ps \<Rightarrow> ps)\<rparr>]))
            else init_loop E my_region kvs (expected_index + 1) tm' index confs)"

text \<open>
  The part of \<^verbatim>\<open>init\<close> behind the meta key. On success it stores the bounds and registers
  the first index with the compaction filter.
\<close>

definition init_scan ::
  "('db, 'p) log_env \<Rightarrow> log_storage \<Rightarrow> 'db log_world \<Rightarrow> int \<Rightarrow>
   int \<times> log_storage \<times> 'db log_world \<times> 'p conf_entry list" where
  "init_scan E st w first_log_index =
     (case rk_iterate (ev_rocks E) (lw_db w) Raft_Log_Cf LOG_META_KEY_SIZE
             (encode_log_data_key (ev_big E) (ls_region_id st) first_log_index) of
        (kvs, status) \<Rightarrow>
          (case init_loop E (ls_region_id st) kvs first_log_index (ls_term_map st) 0 [] of
             (r, tm, last_log_index, confs) \<Rightarrow>
               if r \<noteq> 0 \<or> status \<noteq> R_ok then (-1, st\<lparr>ls_term_map := tm\<rparr>, w, confs)
               else
                 (0, st\<lparr>ls_term_map := tm, ls_first_log_index := first_log_index,
                       ls_last_log_index :=
                         (if last_log_index = 0 then first_log_index - 1 else last_log_index)\<rparr>,
                  update_first_index_map (ls_region_id st) first_log_index w, confs)))"

text \<open>\<^term>\<open>None\<close> is a meta value too short for the 8 bytes that are read from it.\<close>

definition init ::
  "('db, 'p) log_env \<Rightarrow> log_storage \<Rightarrow> 'db log_world \<Rightarrow>
   (int \<times> log_storage \<times> 'db log_world \<times> 'p conf_entry list) option" where
  "init E st w =
     (let key = encode_log_meta_key (ev_big E) (ls_region_id st) in
      case rk_get (ev_rocks E) (lw_db w) Raft_Log_Cf key of (status, value) \<Rightarrow>
        if status = R_not_found then
          (case rk_put (ev_rocks E) (lw_db w) Raft_Log_Cf key (mem_bytes (ev_big E) 8 (1 :: 64 word)) of
             (put_res, db') \<Rightarrow>
               if put_res \<noteq> R_ok then Some (-1, st, w\<lparr>lw_db := db'\<rparr>, [])
               else Some (init_scan E st (w\<lparr>lw_db := db'\<rparr>) 1))
        else if status \<noteq> R_ok then Some (-1, st, w, [])
        else if length value < 8 then None
        else Some (init_scan E st w (sint (mem_word (ev_big E) (take 8 value) :: 64 word))))"

section \<open>Reading\<close>

definition get_binlog_entry ::
  "('db, 'p) log_env \<Rightarrow> 'db log_world \<Rightarrow> bytes \<Rightarrow> int \<times> bytes" where
  "get_binlog_entry E w raftlog_value_slice =
     (case ev_parse_req E raftlog_value_slice of
        None \<Rightarrow> (-1, [])
      | Some raftlog_pb \<Rightarrow>
          if sr_op_type raftlog_pb \<noteq> OP_PREWRITE_BINLOG then (1, [])
          else case sr_binlog_desc raftlog_pb of
            None \<Rightarrow> (-1, [])
          | Some desc \<Rightarrow>
              (case get_binlog_value (ev_rocks E) (ev_big E) (ev_has_binlog_cf E)
                      (ev_has_old_binlog_cf E) (lw_db w) (bd_binlog_ts desc) of
                 (ret, binlog_value) \<Rightarrow> if ret \<noteq> 0 then (-1, []) else (0, binlog_value)))"

definition get_entry ::
  "('db, 'p) log_env \<Rightarrow> log_storage \<Rightarrow> 'db log_world \<Rightarrow> int \<Rightarrow> 'p log_entry option" where
  "get_entry E st w index =
     (case rk_get (ev_rocks E) (lw_db w) Raft_Log_Cf
             (encode_log_data_key (ev_big E) (ls_region_id st) index) of
        (status, value) \<Rightarrow>
          if status \<noteq> R_ok then None
          else if length value < LOG_HEAD_SIZE then None
          else
            let (term, type) = head_of E value;
                value_slice = drop LOG_HEAD_SIZE value;
                entry = new_entry \<lparr>li_index = index, li_term = term\<rparr> type
            in
            if type = ev_data E then
              (if \<not> ls_is_binlog_region st then Some (entry\<lparr>le_data := value_slice\<rparr>)
               else case get_binlog_entry E w value_slice of (ret, binlog_value) \<Rightarrow>
                 if ret < 0 then None
                 else if ret = 1 then Some (entry\<lparr>le_data := value_slice\<rparr>)
                 else Some (entry\<lparr>le_data := binlog_value\<rparr>))
            else if type = ev_configuration E then parse_meta E value_slice entry
            else if type = ev_no_op E then
              (if value_slice \<noteq> [] then None else Some entry)
            else None)"

definition get_term :: "log_storage \<Rightarrow> int \<Rightarrow> int" where
  "get_term st index =
     (if index < ls_first_log_index st \<or> ls_last_log_index st < index then 0
      else tm_get_term (ls_term_map st) index)"

section \<open>Appending\<close>

text \<open>
  The values built for a data entry of a binlog region: the key-value pair for the log,
  and the one for the binlog column family unless the request is no prewrite.
\<close>

definition construct_binlog_slices ::
  "('db, 'p) log_env \<Rightarrow> bytes \<Rightarrow> bytes \<Rightarrow> (bytes \<times> (bytes \<times> bytes) option) option" where
  "construct_binlog_slices E head binlog_buf =
     (case ev_parse_req E binlog_buf of
        None \<Rightarrow> None
      | Some binlog_pb \<Rightarrow>
          if sr_op_type binlog_pb \<noteq> OP_PREWRITE_BINLOG then Some (head @ binlog_buf, None)
          else
            let desc = (case sr_binlog_desc binlog_pb of
                          None \<Rightarrow> \<lparr>bd_binlog_ts = 0, bd_rest = []\<rparr> | Some d \<Rightarrow> d);
                raftlog_pb = \<lparr>sr_op_type = sr_op_type binlog_pb, sr_region_id = sr_region_id binlog_pb,
                  sr_region_version = sr_region_version binlog_pb, sr_binlog_desc = Some desc,
                  sr_rest = []\<rparr>
            in map_option (\<lambda>raftlog_buf.
                 (head @ raftlog_buf, Some (binlog_key (ev_big E) (bd_binlog_ts desc), binlog_buf)))
                 (ev_ser_req E raftlog_pb))"

definition construct_conf_slices ::
  "('db, 'p) log_env \<Rightarrow> bytes \<Rightarrow> 'p list \<Rightarrow> 'p list option \<Rightarrow> bytes option" where
  "construct_conf_slices E head peers old_peers =
     map_option (\<lambda>meta_buf. head @ meta_buf)
       (ev_ser_conf E \<lparr>cm_peers = map (ev_peer_str E) peers,
          cm_old_peers = (case old_peers of None \<Rightarrow> [] | Some ps \<Rightarrow> map (ev_peer_str E) ps)\<rparr>)"

text \<open>
  \<^verbatim>\<open>_build_key_value\<close> on one entry: \<^term>\<open>None\<close> is its return value -1, otherwise the
  pairs it adds to the two vectors. A configuration entry without peers, for which the
  code would hand an uninitialised slice to RocksDB, counts as the error.
\<close>

definition build_key_value ::
  "('db, 'p) log_env \<Rightarrow> log_storage \<Rightarrow> 'p log_entry \<Rightarrow>
   ((bytes \<times> bytes) \<times> (bytes \<times> bytes) list) option" where
  "build_key_value E st entry =
     (let raftlog_key = encode_log_data_key (ev_big E) (ls_region_id st) (li_index (le_id entry));
          head = head_serialize E (li_term (le_id entry)) (le_type entry)
      in
      if le_type entry = ev_data E then
        (if \<not> ls_is_binlog_region st then Some ((raftlog_key, head @ le_data entry), [])
         else map_option (\<lambda>(v, b). ((raftlog_key, v), case b of None \<Rightarrow> [] | Some kv \<Rightarrow> [kv]))
                (construct_binlog_slices E head (le_data entry)))
      else if le_type entry = ev_configuration E then
        (case le_peers entry of
           None \<Rightarrow> None
         | Some peers \<Rightarrow>
             map_option (\<lambda>v. ((raftlog_key, v), []))
               (construct_conf_slices E head peers (le_old_peers entry)))
      else if le_type entry = ev_no_op E then Some ((raftlog_key, head), [])
      else None)"

fun build_all ::
  "('db, 'p) log_env \<Rightarrow> log_storage \<Rightarrow> 'p log_entry list \<Rightarrow>
   ((bytes \<times> bytes) list \<times> (bytes \<times> bytes) list) option" where
  "build_all E st [] = Some ([], [])"
| "build_all E st (entry # entries) =
     (case build_key_value E st entry of
        None \<Rightarrow> None
      | Some (kv, bkvs) \<Rightarrow>
          map_option (\<lambda>(kvs, bkvss). (kv # kvs, bkvs @ bkvss)) (build_all E st entries))"

definition append_entries ::
  "('db, 'p) log_env \<Rightarrow> log_storage \<Rightarrow> 'db log_world \<Rightarrow> 'p log_entry list \<Rightarrow>
   int \<times> log_storage \<times> 'db log_world" where
  "append_entries E st w entries =
     (if entries = [] then (0, st, w)
      else if ls_last_log_index st + 1 \<noteq> li_index (le_id (hd entries)) then (-1, st, w)
      else case build_all E st entries of
        None \<Rightarrow> (-1, st, w)
      | Some (kv_raftlog_vec, kv_binlog_vec) \<Rightarrow>
          (case rk_write (ev_rocks E) (lw_db w)
                  (map (\<lambda>(k, v). W_put Raft_Log_Cf k v) kv_raftlog_vec @
                   map (\<lambda>(k, v). W_put Bin_Log_Cf k v) kv_binlog_vec) of
             (status, db') \<Rightarrow>
               if status \<noteq> R_ok then (-1, st, w\<lparr>lw_db := db'\<rparr>)
               else case append_ids tm_append (ls_term_map st) (map le_id entries) of (r, tm) \<Rightarrow>
                 if r \<noteq> 0 then
                   (-1, st\<lparr>ls_term_map := tm_truncate_suffix tm (ls_last_log_index st)\<rparr>, w\<lparr>lw_db := db'\<rparr>)
                 else
                   (int (length entries),
                    st\<lparr>ls_term_map := tm,
                       ls_last_log_index := ls_last_log_index st + int (length entries)\<rparr>,
                    w\<lparr>lw_db := db'\<rparr>)))"

definition append_entry ::
  "('db, 'p) log_env \<Rightarrow> log_storage \<Rightarrow> 'db log_world \<Rightarrow> 'p log_entry \<Rightarrow>
   int \<times> log_storage \<times> 'db log_world" where
  "append_entry E st w entry =
     (case append_entries E st w [entry] of (r, st', w') \<Rightarrow> (if r = 1 then 0 else -1, st', w'))"

section \<open>Truncating\<close>

definition truncate_prefix ::
  "('db, 'p) log_env \<Rightarrow> log_storage \<Rightarrow> 'db log_world \<Rightarrow> int \<Rightarrow> int \<times> log_storage \<times> 'db log_world" where
  "truncate_prefix E st w first_index_kept =
     (if first_index_kept \<le> ls_first_log_index st then (0, st, w)
      else
        let start_index = ls_first_log_index st in
        if start_index < 0 then (0, st, w)
        else
          let st1 = st\<lparr>ls_first_log_index := first_index_kept,
                ls_last_log_index := (if ls_last_log_index st < first_index_kept
                  then first_index_kept - 1 else ls_last_log_index st),
                ls_term_map := tm_truncate_prefix (ls_term_map st) first_index_kept\<rparr>;
              w1 = w\<lparr>lw_can_add_peer := insert (ls_region_id st) (lw_can_add_peer w)\<rparr>
          in
          case rk_put (ev_rocks E) (lw_db w1) Raft_Log_Cf
                 (encode_log_meta_key (ev_big E) (ls_region_id st))
                 (mem_bytes (ev_big E) 8 (word_of_int first_index_kept :: 64 word)) of
            (status, db1) \<Rightarrow>
              if status \<noteq> R_ok then (-1, st1, w1\<lparr>lw_db := db1\<rparr>)
              else
                case remove_range (ev_rocks E) (ev_delete_files E) db1 Raft_Log_Cf
                       (encode_log_data_key (ev_big E) (ls_region_id st) start_index)
                       (encode_log_data_key (ev_big E) (ls_region_id st) first_index_kept) True of
                  (status2, db2) \<Rightarrow>
                    (if status2 \<noteq> R_ok then -1 else 0, st1, w1\<lparr>lw_db := db2\<rparr>))"

definition truncate_suffix ::
  "('db, 'p) log_env \<Rightarrow> log_storage \<Rightarrow> 'db log_world \<Rightarrow> int \<Rightarrow> int \<times> log_storage \<times> 'db log_world" where
  "truncate_suffix E st w last_index_kept =
     (let last_log_index = ls_last_log_index st in
      if last_log_index \<le> last_index_kept then (0, st, w)
      else
        let st1 = st\<lparr>ls_term_map := tm_truncate_suffix (ls_term_map st) last_index_kept,
                     ls_last_log_index := last_index_kept\<rparr>
        in
        case rk_write (ev_rocks E) (lw_db w)
               (map (\<lambda>i. W_delete Raft_Log_Cf (encode_log_data_key (ev_big E) (ls_region_id st) i))
                  [last_index_kept + 1..last_log_index]) of
          (status, db1) \<Rightarrow> (0, st1, w\<lparr>lw_db := db1\<rparr>))"

definition reset ::
  "('db, 'p) log_env \<Rightarrow> log_storage \<Rightarrow> 'db log_world \<Rightarrow> int \<Rightarrow> int \<times> log_storage \<times> 'db log_world" where
  "reset E st w next_log_index =
     (case truncate_prefix E st w next_log_index of (_, st1, w1) \<Rightarrow>
        case truncate_suffix E st1 w1 (next_log_index - 1) of (_, st2, w2) \<Rightarrow>
          (0, st2\<lparr>ls_term_map := tm_reset (ls_term_map st2)\<rparr>, w2))"

section \<open>The compaction filter\<close>

text \<open>Whether compaction drops a key. \<open>split_index\<close> is the smallest index
  that a running split of the region still needs.\<close>

definition compaction_filter :: "bool \<Rightarrow> (int \<rightharpoonup> int) \<Rightarrow> (int \<Rightarrow> int) \<Rightarrow> bytes \<Rightarrow> bool" where
  "compaction_filter big first_index_map split_index key =
     (case decode_log_data_key big key of
        None \<Rightarrow> False
      | Some (region_id, index) \<Rightarrow>
          (case first_index_map region_id of
             None \<Rightarrow> False
           | Some first_index \<Rightarrow>
               index < (if first_index < split_index region_id then first_index
                        else split_index region_id)))"

end
