(* ===== verification/RaftLogRefinement.thy ===== *)
theory RaftLogRefinement
  imports RaftLogStorage
begin

text \<open>
  The raft log storage implements a log: a sequence of entries from a first index on.
  \<open>raft_log_rel\<close> relates a storage object and the database to the sequence; each operation
  of \<^verbatim>\<open>MyRaftLogStorage\<close> preserves it, and loading the log again after a restart
  finds the same sequence.
\<close>

section \<open>Log keys\<close>

definition region_prefix :: "int \<Rightarrow> bytes" where
  "region_prefix r = be_bytes 8 (encode_i64 (word_of_int r)) @ [2]"

lemma data_key_eq:
  "encode_log_data_key big r i = region_prefix r @ be_bytes 8 (encode_i64 (word_of_int i))"
  by (simp add: encode_log_data_key_def region_prefix_def LOG_DATA_IDENTIFY_def mem_to_endian_u64)

lemma length_region_prefix [simp]: "length (region_prefix r) = 9"
  by (simp add: region_prefix_def)

lemma data_key_simps [simp]:
  "take 9 (encode_log_data_key big r i) = region_prefix r"
  "length (encode_log_data_key big r i) = 17"
  "encode_log_data_key big r i \<noteq> encode_log_meta_key big r'"
  "encode_log_meta_key big r' \<noteq> encode_log_data_key big r i"
proof -
  show len: "length (encode_log_data_key big r i) = 17" by (simp add: data_key_eq)
  have "length (encode_log_meta_key big r') = 9"
    by (simp add: encode_log_meta_key_def mem_to_endian_u64)
  with len show "encode_log_data_key big r i \<noteq> encode_log_meta_key big r'"
    and "encode_log_meta_key big r' \<noteq> encode_log_data_key big r i" by (auto dest: arg_cong [where f = length])
qed (simp add: data_key_eq)

lemma take_meta_key [simp]: "take 9 (encode_log_meta_key big r) \<noteq> region_prefix r"
  by (simp add: encode_log_meta_key_def mem_to_endian_u64 region_prefix_def LOG_META_IDENTIFY_def)

lemma decode_data_key [simp]:
  assumes "in_i64 r" and "in_i64 i"
  shows "decode_log_data_key big (encode_log_data_key big r i) = Some (r, i)"
  using assms
  by (simp add: decode_log_data_key_def LOG_DATA_KEY_SIZE_def)
     (simp add: data_key_eq region_prefix_def to_endian_mem_u64)

lemma data_key_inject [simp]:
  assumes "in_i64 i" and "in_i64 j"
  shows "encode_log_data_key big r i = encode_log_data_key big r j \<longleftrightarrow> i = j"
proof
  assume "encode_log_data_key big r i = encode_log_data_key big r j"
  then have "be_word (be_bytes 8 (encode_i64 (word_of_int i))) =
      (be_word (be_bytes 8 (encode_i64 (word_of_int j))) :: 64 word)"
    by (simp add: data_key_eq)
  then have "(word_of_int i :: 64 word) = word_of_int j"
    by (simp add: be_bytes_inverse) (metis decode_encode_int(4))
  with assms show "i = j" by (blast intro: in_i64_inject)
qed simp

lemma data_key_less [simp]:
  assumes "in_i64 i" and "in_i64 j"
  shows "encode_log_data_key big r i < encode_log_data_key big r j \<longleftrightarrow> i < j"
  using assms
  by (simp add: data_key_eq lex_append_same be_bytes_less_iff encode_i64_less)

lemma data_key_le [simp]:
  assumes "in_i64 i" and "in_i64 j"
  shows "encode_log_data_key big r i \<le> encode_log_data_key big r j \<longleftrightarrow> i \<le> j"
  using assms by (auto simp: le_less)

section \<open>What the environment guarantees\<close>

definition env_ok :: "('db, 'p) log_env \<Rightarrow> ('db \<Rightarrow> contents) \<Rightarrow> bool" where
  "env_ok E contents \<longleftrightarrow>
     rocks_ok (ev_rocks E) contents \<and>
     distinct [ev_data E, ev_configuration E, ev_no_op E] \<and>
     (\<forall>t y rest. length (ev_pack_head E t y) = 12 \<and> ev_unpack_head E (ev_pack_head E t y @ rest) = (t, y)) \<and>
     (\<forall>p. ev_peer_of E (ev_peer_str E p) = p)"

text \<open>
  The entries that raft hands to the storage: data, a configuration or a no-op. The
  configuration message has to survive serialisation.
\<close>

definition conf_meta_of :: "('db, 'p) log_env \<Rightarrow> 'p log_entry \<Rightarrow> conf_meta" where
  "conf_meta_of E e = \<lparr>cm_peers = map (ev_peer_str E) (the (le_peers e)),
     cm_old_peers = (case le_old_peers e of None \<Rightarrow> [] | Some ps \<Rightarrow> map (ev_peer_str E) ps)\<rparr>"

definition entry_ok :: "('db, 'p) log_env \<Rightarrow> 'p log_entry \<Rightarrow> bool" where
  "entry_ok E e \<longleftrightarrow> in_i64 (li_term (le_id e)) \<and>
     (if le_type e = ev_data E then le_peers e = None \<and> le_old_peers e = None
      else if le_type e = ev_configuration E
      then le_data e = [] \<and> le_peers e \<noteq> None \<and> le_old_peers e \<noteq> Some [] \<and>
        (\<exists>b. ev_ser_conf E (conf_meta_of E e) = Some b \<and>
          ev_parse_conf E b = Some (conf_meta_of E e))
      else le_type e = ev_no_op E \<and> le_data e = [] \<and> le_peers e = None \<and> le_old_peers e = None)"

definition entry_value :: "('db, 'p) log_env \<Rightarrow> 'p log_entry \<Rightarrow> bytes" where
  "entry_value E e =
     head_serialize E (li_term (le_id e)) (le_type e) @
     (if le_type e = ev_data E then le_data e
      else if le_type e = ev_configuration E then
the (ev_ser_conf E (conf_meta_of E e))
      else [])"

lemma build_entry_value:
  assumes "env_ok E contents" and "entry_ok E e" and "\<not> ls_is_binlog_region st"
  shows "build_key_value E st e =
    Some ((encode_log_data_key (ev_big E) (ls_region_id st) (li_index (le_id e)), entry_value E e), [])"
  using assms
  by (auto simp: build_key_value_def entry_value_def entry_ok_def construct_conf_slices_def
      env_ok_def conf_meta_of_def Let_def split: if_splits)

lemma head_entry_value:
  assumes "env_ok E contents" and "entry_ok E e"
  shows "LOG_HEAD_SIZE \<le> length (entry_value E e)"
    and "head_of E (entry_value E e) = (li_term (le_id e), le_type e)"
  using assms
  by (auto simp: entry_value_def entry_ok_def env_ok_def head_serialize_def head_of_def LOG_HEAD_SIZE_def)

lemma parse_entry_value:
  assumes "env_ok E contents" and "entry_ok E e" and "le_type e = ev_configuration E"
  shows "parse_meta E (drop LOG_HEAD_SIZE (entry_value E e)) (new_entry (le_id e) (le_type e)) = Some e"
proof -
  obtain b where b: "ev_ser_conf E (conf_meta_of E e) = Some b"
    "ev_parse_conf E b = Some (conf_meta_of E e)"
    using assms unfolding env_ok_def entry_ok_def by auto
  have "drop LOG_HEAD_SIZE (entry_value E e) = b"
    using assms b by (auto simp: entry_value_def env_ok_def head_serialize_def LOG_HEAD_SIZE_def)
  moreover have "map (ev_peer_of E \<circ> ev_peer_str E) ps = ps" for ps
    using assms(1) by (simp add: env_ok_def map_idI)
  ultimately show ?thesis
    using assms b
    by (cases e) (auto simp: parse_meta_def new_entry_def entry_ok_def env_ok_def conf_meta_of_def
        Let_def split: option.splits)
qed

lemma get_entry_stored:
  assumes "env_ok E contents" and "entry_ok E e" and "\<not> ls_is_binlog_region st"
    and "contents (lw_db w) Raft_Log_Cf
      (encode_log_data_key (ev_big E) (ls_region_id st) (li_index (le_id e))) = Some (entry_value E e)"
    and ok: "fst (rk_get (ev_rocks E) (lw_db w) Raft_Log_Cf
      (encode_log_data_key (ev_big E) (ls_region_id st) (li_index (le_id e)))) = R_ok"
  shows "get_entry E st w (li_index (le_id e)) = Some e"
proof -
  let ?key = "encode_log_data_key (ev_big E) (ls_region_id st) (li_index (le_id e))"
  have get: "rk_get (ev_rocks E) (lw_db w) Raft_Log_Cf ?key = (R_ok, entry_value E e)"
    using ok assms(1, 4) rocks_get(1) [of "ev_rocks E" contents "lw_db w" Raft_Log_Cf ?key R_ok]
    by (cases "rk_get (ev_rocks E) (lw_db w) Raft_Log_Cf ?key") (auto simp: env_ok_def)
  have id: "\<lparr>li_index = li_index (le_id e), li_term = li_term (le_id e)\<rparr> = le_id e" by simp
  have drop: "drop LOG_HEAD_SIZE (entry_value E e) =
      (if le_type e = ev_data E then le_data e
       else if le_type e = ev_configuration E then the (ev_ser_conf E (conf_meta_of E e)) else [])"
    using assms(1) by (simp add: entry_value_def env_ok_def head_serialize_def LOG_HEAD_SIZE_def)
  consider "le_type e = ev_data E" | "le_type e = ev_configuration E" | "le_type e = ev_no_op E"
    using assms(2) by (auto simp: entry_ok_def split: if_splits)
  then show ?thesis
  proof cases
    case 2
    with assms(1, 3) get head_entry_value [OF assms(1, 2)] parse_entry_value [OF assms(1, 2)]
    show ?thesis by (auto simp: get_entry_def id env_ok_def)
  qed (use assms get head_entry_value [OF assms(1, 2)] drop in
      \<open>cases e; auto simp: get_entry_def id env_ok_def entry_ok_def new_entry_def\<close>)+
qed

section \<open>The abstraction relation\<close>

abbreviation log_key :: "('db, 'p) log_env \<Rightarrow> log_storage \<Rightarrow> int \<Rightarrow> bytes" where
  "log_key E st i \<equiv> encode_log_data_key (ev_big E) (ls_region_id st) i"

abbreviation entry_index :: "'p log_entry \<Rightarrow> int" where
  "entry_index e \<equiv> li_index (le_id e)"

abbreviation entry_term :: "'p log_entry \<Rightarrow> int" where
  "entry_term e \<equiv> li_term (le_id e)"

text \<open>Entries with consecutive indices from \<open>f\<close> on, below the 64-bit bound.\<close>

definition entries_at :: "('db, 'p) log_env \<Rightarrow> int \<Rightarrow> 'p log_entry list \<Rightarrow> bool" where
  "entries_at E f es \<longleftrightarrow> 1 \<le> f \<and> f + int (length es) < 2 ^ 63 \<and>
     (\<forall>i < length es. entry_index (es ! i) = f + int i) \<and> (\<forall>e \<in> set es. entry_ok E e)"

text \<open>
  What the column family holds of a region: every entry under its key, no entry
  behind the last one, and the first index under the meta key. Entries before the first
  index may still be there.
\<close>

definition stored ::
  "('db, 'p) log_env \<Rightarrow> int \<Rightarrow> (bytes \<rightharpoonup> bytes) \<Rightarrow> int \<Rightarrow> 'p log_entry list \<Rightarrow> bool" where
  "stored E r c f es \<longleftrightarrow>
     (\<forall>e \<in> set es. c (encode_log_data_key (ev_big E) r (entry_index e)) = Some (entry_value E e)) \<and>
     (\<forall>k v. c k = Some v \<longrightarrow> take 9 k = region_prefix r \<longrightarrow>
        (\<exists>i. in_i64 i \<and> i < f + int (length es) \<and> k = encode_log_data_key (ev_big E) r i)) \<and>
     c (encode_log_meta_key (ev_big E) r) = Some (mem_bytes (ev_big E) 8 (word_of_int f :: 64 word))"

definition raft_log_rel ::
  "('db, 'p) log_env \<Rightarrow> ('db \<Rightarrow> contents) \<Rightarrow> log_storage \<Rightarrow> 'db log_world \<Rightarrow> 'p log_entry list \<Rightarrow> bool" where
  "raft_log_rel E contents st w es \<longleftrightarrow>
     in_i64 (ls_region_id st) \<and> \<not> ls_is_binlog_region st \<and>
     ls_last_log_index st = ls_first_log_index st + int (length es) - 1 \<and>
     entries_at E (ls_first_log_index st) es \<and>
     stored E (ls_region_id st) (contents (lw_db w) Raft_Log_Cf) (ls_first_log_index st) es \<and>
     sorted (map entry_term es) \<and>
     tm_tracks (ls_term_map st) (ls_first_log_index st) (map entry_term es)"

lemma entries_at_i64:
  assumes "entries_at E f es" and "e \<in> set es"
  shows "in_i64 (entry_index e)" and "f \<le> entry_index e" and "entry_index e < f + int (length es)"
proof -
  obtain i where "i < length es" "e = es ! i" using assms(2) by (auto simp: in_set_conv_nth)
  with assms(1) show "in_i64 (entry_index e)" and "f \<le> entry_index e"
    and "entry_index e < f + int (length es)"
    by (auto simp: entries_at_def in_i64_def)
qed

lemma entries_at_append:
  assumes "entries_at E f es" and "entries_at E (f + int (length es)) new"
  shows "entries_at E f (es @ new)"
  using assms by (auto simp: entries_at_def nth_append algebra_simps)

lemma entries_at_take: "entries_at E f es \<Longrightarrow> entries_at E f (take n es)"
  by (auto simp: entries_at_def dest: in_set_takeD)

lemma entries_at_drop:
  assumes "entries_at E f es" and "f \<le> k" and "k < 2 ^ 63"
  shows "entries_at E k (drop (nat (k - f)) es)"
  using assms by (auto simp: entries_at_def dest: in_set_dropD)

section \<open>Appending\<close>

lemma build_all_values:
  assumes "env_ok E contents" and "\<forall>e \<in> set es. entry_ok E e" and "\<not> ls_is_binlog_region st"
  shows "build_all E st es = Some (map (\<lambda>e. (log_key E st (entry_index e), entry_value E e)) es, [])"
  using assms by (induction es) (simp_all add: build_entry_value)

lemma fold_puts:
  "fold apply_op (map (\<lambda>(k, v). W_put cf k v) kvs) c =
     c(cf := (\<lambda>k. case map_of (rev kvs) k of None \<Rightarrow> c cf k | Some v \<Rightarrow> Some v))"
  by (induction kvs arbitrary: c) (auto simp: fun_eq_iff map_add_def split: option.splits)

definition entry_kvs :: "('db, 'p) log_env \<Rightarrow> int \<Rightarrow> 'p log_entry list \<Rightarrow> bytes \<rightharpoonup> bytes" where
  "entry_kvs E r es =
     map_of (rev (map (\<lambda>e. (encode_log_data_key (ev_big E) r (entry_index e), entry_value E e)) es))"

lemma entry_kvs_iff:
  assumes "entries_at E f es"
  shows "entry_kvs E r es k = Some v \<longleftrightarrow>
    (\<exists>e \<in> set es. k = encode_log_data_key (ev_big E) r (entry_index e) \<and> v = entry_value E e)"
proof -
  have "distinct (map (\<lambda>e. encode_log_data_key (ev_big E) r (entry_index e)) es)"
    using assms by (auto simp: distinct_conv_nth entries_at_def in_i64_def)
  then have "distinct (map fst (rev (map (\<lambda>e. (encode_log_data_key (ev_big E) r (entry_index e), entry_value E e)) es)))"
    by (simp add: rev_map [symmetric] comp_def)
  from map_of_eq_Some_iff [OF this] show ?thesis by (auto simp: entry_kvs_def)
qed

lemma stored_append:
  assumes st: "stored E r c f es" and es: "entries_at E f es"
    and new: "entries_at E (f + int (length es)) new"
  shows "stored E r (\<lambda>k. case entry_kvs E r new k of None \<Rightarrow> c k | Some v \<Rightarrow> Some v) f (es @ new)"
proof -
  have old: "entry_kvs E r new (encode_log_data_key (ev_big E) r (entry_index e)) = None"
    if "e \<in> set es" for e
  proof (rule ccontr)
    assume "entry_kvs E r new (encode_log_data_key (ev_big E) r (entry_index e)) \<noteq> None"
    then obtain e' where "e' \<in> set new"
      "encode_log_data_key (ev_big E) r (entry_index e) = encode_log_data_key (ev_big E) r (entry_index e')"
      using entry_kvs_iff [OF new] by auto
    with that entries_at_i64 [OF es that] entries_at_i64 [OF new, of e'] show False by simp
  qed
  have meta: "entry_kvs E r new (encode_log_meta_key (ev_big E) r) = None"
    using entry_kvs_iff [OF new, of r "encode_log_meta_key (ev_big E) r"] by (auto intro: ccontr)
  have keys: "\<exists>i. in_i64 i \<and> i < f + int (length (es @ new)) \<and> k = encode_log_data_key (ev_big E) r i"
    if "(case entry_kvs E r new k of None \<Rightarrow> c k | Some v \<Rightarrow> Some v) = Some v"
      and "take 9 k = region_prefix r" for k v
  proof (cases "entry_kvs E r new k")
    case None
    with that st obtain i where "in_i64 i" "i < f + int (length es)" "k = encode_log_data_key (ev_big E) r i"
      by (auto simp: stored_def)
    then show ?thesis by auto
  next
    case (Some v')
    then obtain e where "e \<in> set new" "k = encode_log_data_key (ev_big E) r (entry_index e)"
      using entry_kvs_iff [OF new] by auto
    with entries_at_i64 [OF new, of e] show ?thesis by (auto simp: algebra_simps)
  qed
  have put: "entry_kvs E r new (encode_log_data_key (ev_big E) r (entry_index e)) = Some (entry_value E e)"
    if "e \<in> set new" for e
    using entry_kvs_iff [OF new] that by auto
  from st old put meta keys show ?thesis by (auto simp: stored_def)
qed

lemma tm_append_ids_set: "set (snd (append_ids tm_append q ids)) \<subseteq> set q \<union> set ids"
  by (induction ids arbitrary: q) (fastforce simp: tm_append_def split: prod.splits if_splits)+

lemma map_entry_ids:
  assumes "entries_at E (f + int n) new"
  shows "map le_id new =
    map (\<lambda>i. \<lparr>li_index = f + int (n + i), li_term = map entry_term new ! i\<rparr>) [0..<length (map entry_term new)]"
  using assms by (auto simp: entries_at_def intro!: nth_equalityI)

lemma append_entries_rel:
  assumes env: "env_ok E contents" and rel: "raft_log_rel E contents st w es"
    and new: "entries_at E (ls_last_log_index st + 1) new" "new \<noteq> []"
    and terms: "sorted (map entry_term new)"
      "\<forall>u \<in> set_option (tm_floor (ls_term_map st)). \<forall>e \<in> set new. u \<le> entry_term e"
    and up: "rocks_up (ev_rocks E)"
  obtains st' w' where "append_entries E st w new = (int (length new), st', w')"
    and "raft_log_rel E contents st' w' (es @ new)" and "ls_first_log_index st' = ls_first_log_index st"
    and "ls_region_id st' = ls_region_id st"
    and "set (ls_term_map st') \<subseteq> set (ls_term_map st) \<union> le_id ` set new"
proof -
  let ?f = "ls_first_log_index st"
  have last: "ls_last_log_index st + 1 = ?f + int (length es)" using rel by (simp add: raft_log_rel_def)
  note new = new(1) [unfolded last] new(2)
  have nb: "\<not> ls_is_binlog_region st" using rel by (simp add: raft_log_rel_def)
  have rocks: "rocks_ok (ev_rocks E) contents" using env by (simp add: env_ok_def)
  obtain db' where wr: "rk_write (ev_rocks E) (lw_db w)
      (map (\<lambda>e. W_put Raft_Log_Cf (log_key E st (entry_index e)) (entry_value E e)) new) = (R_ok, db')"
    and c: "contents db' = fold apply_op
      (map (\<lambda>e. W_put Raft_Log_Cf (log_key E st (entry_index e)) (entry_value E e)) new) (contents (lw_db w))"
    by (rule rocks_up_write [OF rocks up])
  have c': "contents db' Raft_Log_Cf = (\<lambda>k. case entry_kvs E (ls_region_id st) new k of
      None \<Rightarrow> contents (lw_db w) Raft_Log_Cf k | Some v \<Rightarrow> Some v)"
    using c fold_puts [of Raft_Log_Cf "map (\<lambda>e. (log_key E st (entry_index e), entry_value E e)) new"
        "contents (lw_db w)"]
    by (simp add: entry_kvs_def comp_def)
  obtain tm where tm: "append_ids tm_append (ls_term_map st) (map le_id new) = (0, tm)"
    "tm_tracks tm ?f (map entry_term es @ map entry_term new)"
    using tmi.append_ids_ok [of "ls_term_map st" ?f "map entry_term es" "map entry_term new" "map le_id new"]
      rel terms map_entry_ids [OF new(1)] by (auto simp: raft_log_rel_def)
  have idx: "entry_index (hd new) = ls_last_log_index st + 1"
    using new last by (auto simp: entries_at_def hd_conv_nth)
  let ?st' = "st\<lparr>ls_term_map := tm, ls_last_log_index := ls_last_log_index st + int (length new)\<rparr>"
  let ?w' = "w\<lparr>lw_db := db'\<rparr>"
  have "\<forall>e \<in> set new. entry_ok E e" using new by (simp add: entries_at_def)
  then have "append_entries E st w new = (int (length new), ?st', ?w')"
    using idx new(2) build_all_values [OF env _ nb, of new] wr tm(1)
    by (simp add: append_entries_def comp_def)
  moreover have "sorted (map entry_term (es @ new))"
  proof (cases "es = []")
    case False
    then have "tm_floor (ls_term_map st) = Some (entry_term (last es))"
      using rel tmi.floor_last [of "ls_term_map st" ?f "map entry_term es"] by (simp add: raft_log_rel_def last_map)
    moreover have "\<forall>e \<in> set es. entry_term e \<le> entry_term (last es)"
      using rel False by (auto simp: raft_log_rel_def in_set_conv_nth sorted_iff_nth_mono last_conv_nth)
    ultimately show ?thesis using rel terms by (fastforce simp: raft_log_rel_def sorted_append)
  qed (use terms in simp)
  moreover from this have "raft_log_rel E contents ?st' ?w' (es @ new)"
    using rel stored_append [of E "ls_region_id st" _ ?f es new] new(1) entries_at_append [of E ?f es new] tm(2)
    by (auto simp: raft_log_rel_def c')
  moreover have "set tm \<subseteq> set (ls_term_map st) \<union> le_id ` set new"
    using tm_append_ids_set [of "ls_term_map st" "map le_id new"] tm(1) by simp
  ultimately show thesis using that by auto
qed

section \<open>Truncating\<close>

lemma meta_key_less: "encode_log_meta_key big r < encode_log_data_key big r i"
proof -
  have "encode_log_meta_key big r = be_bytes 8 (encode_i64 (word_of_int r)) @ [1]"
    by (simp add: encode_log_meta_key_def mem_to_endian_u64 LOG_META_IDENTIFY_def)
  then show ?thesis by (simp add: data_key_eq region_prefix_def lex_append_same)
qed

lemma stored_drop:
  assumes st: "stored E r c f es" and es: "entries_at E f es" and k: "f < k" "k < 2 ^ 63"
    and c': "c' = (\<lambda>x. if encode_log_data_key (ev_big E) r f \<le> x \<and> x < encode_log_data_key (ev_big E) r k
      then None else (c(encode_log_meta_key (ev_big E) r \<mapsto> mem_bytes (ev_big E) 8 (word_of_int k :: 64 word))) x)"
  shows "stored E r c' k (drop (nat (k - f)) es)"
proof -
  have i64: "in_i64 k" "in_i64 f" using k es by (auto simp: in_i64_def entries_at_def)
  have "c' (encode_log_data_key (ev_big E) r (entry_index e)) = Some (entry_value E e)"
    if "e \<in> set (drop (nat (k - f)) es)" for e
    using entries_at_i64 [OF entries_at_drop [OF es _ k(2)] that] k(1) i64 st that
    by (auto simp: c' stored_def dest: in_set_dropD)
  moreover have "\<exists>i. in_i64 i \<and> i < k + int (length (drop (nat (k - f)) es)) \<and>
      x = encode_log_data_key (ev_big E) r i"
    if x: "c' x = Some v" "take 9 x = region_prefix r" for x v
  proof -
    have "c x = Some v" using x by (auto simp: c' split: if_splits)
    with x(2) st obtain i where i: "in_i64 i" "i < f + int (length es)" "x = encode_log_data_key (ev_big E) r i"
      by (auto simp: stored_def)
    then show ?thesis using k(1) by (intro exI [of _ i]) auto
  qed
  moreover have "c' (encode_log_meta_key (ev_big E) r) = Some (mem_bytes (ev_big E) 8 (word_of_int k :: 64 word))"
    using meta_key_less [of "ev_big E" r f] by (auto simp: c' dest: leD)
  ultimately show ?thesis unfolding stored_def by blast
qed

lemma truncate_prefix_rel:
  assumes env: "env_ok E contents" and up: "rocks_up (ev_rocks E)"
    and rel: "raft_log_rel E contents st w es" and k: "ls_first_log_index st \<le> k" "k < 2 ^ 63"
  obtains st' w' where "truncate_prefix E st w k = (0, st', w')"
    and "raft_log_rel E contents st' w' (drop (nat (k - ls_first_log_index st)) es)"
    and "ls_first_log_index st' = k" and "ls_region_id st' = ls_region_id st"
    and "set (ls_term_map st') \<subseteq> set (ls_term_map st)"
proof (cases "k = ls_first_log_index st")
  case True
  show thesis by (rule that [of st w]) (use True rel in \<open>simp_all add: truncate_prefix_def\<close>)
next
  case False
  let ?f = "ls_first_log_index st" and ?r = "ls_region_id st"
  have rocks: "rocks_ok (ev_rocks E) contents" using env by (simp add: env_ok_def)
  have f: "0 \<le> ?f" and es: "entries_at E ?f es" and st: "stored E ?r (contents (lw_db w) Raft_Log_Cf) ?f es"
    using rel by (simp_all add: raft_log_rel_def entries_at_def)
  let ?meta = "encode_log_meta_key (ev_big E) ?r" and ?v = "mem_bytes (ev_big E) 8 (word_of_int k :: 64 word)"
  obtain db1 where db1: "rk_put (ev_rocks E) (lw_db w) Raft_Log_Cf ?meta ?v = (R_ok, db1)"
    "contents db1 = apply_op (W_put Raft_Log_Cf ?meta ?v) (contents (lw_db w))"
    by (rule rocks_up_put [OF rocks up])
  obtain db2 where db2: "remove_range (ev_rocks E) (ev_delete_files E) db1 Raft_Log_Cf
      (log_key E st ?f) (log_key E st k) True = (R_ok, db2)"
    "contents db2 = (contents db1)(Raft_Log_Cf := (\<lambda>x. if log_key E st ?f \<le> x \<and> x < log_key E st k
      then None else contents db1 Raft_Log_Cf x))"
    by (rule remove_range_up [OF rocks up])
  let ?st' = "st\<lparr>ls_first_log_index := k,
    ls_last_log_index := (if ls_last_log_index st < k then k - 1 else ls_last_log_index st),
    ls_term_map := tm_truncate_prefix (ls_term_map st) k\<rparr>"
  let ?w' = "w\<lparr>lw_can_add_peer := insert ?r (lw_can_add_peer w), lw_db := db2\<rparr>"
  have "truncate_prefix E st w k = (0, ?st', ?w')"
    using k False f db1(1) db2(1) by (simp add: truncate_prefix_def Let_def)
  moreover have "stored E ?r (contents db2 Raft_Log_Cf) k (drop (nat (k - ?f)) es)"
    using False k by (intro stored_drop [OF st es]) (auto simp: db1(2) db2(2))
  then have "raft_log_rel E contents ?st' ?w' (drop (nat (k - ?f)) es)"
    using rel k entries_at_drop [OF es k] tmi.prefix_ok [of "ls_term_map st" ?f "map entry_term es" k]
      sorted_wrt_drop [of "(\<le>)" "map entry_term es"]
    by (auto simp: raft_log_rel_def drop_map)
  moreover have "set (tm_truncate_prefix (ls_term_map st) k) \<subseteq> set (ls_term_map st)"
    by (auto simp: tm_truncate_prefix_def dest: in_set_dropD)
  ultimately show thesis using that by simp
qed

lemma fold_deletes:
  "fold apply_op (map (\<lambda>i. W_delete cf (g i)) is) c =
     c(cf := (\<lambda>k. if k \<in> g ` set is then None else c cf k))"
  by (induction "is" arbitrary: c) (auto simp: fun_eq_iff)

lemma stored_take:
  assumes st: "stored E r c f es" and es: "entries_at E f es" and k: "f - 1 \<le> k"
    and c': "c' = (\<lambda>x. if x \<in> encode_log_data_key (ev_big E) r ` {k + 1..f + int (length es) - 1}
      then None else c x)"
  shows "stored E r c' f (take (nat (k + 1 - f)) es)"
proof -
  let ?n = "nat (k + 1 - f)"
  have range: "in_i64 i" if "i \<in> {k + 1..f + int (length es) - 1}" for i
    using that k es by (auto simp: in_i64_def entries_at_def)
  have "c' (encode_log_data_key (ev_big E) r (entry_index e)) = Some (entry_value E e)"
    if "e \<in> set (take ?n es)" for e
    using entries_at_i64 [OF entries_at_take [OF es] that] st that range k
    by (auto simp: c' stored_def dest: in_set_takeD)
  moreover have "\<exists>i. in_i64 i \<and> i < f + int (length (take ?n es)) \<and> x = encode_log_data_key (ev_big E) r i"
    if x: "c' x = Some v" "take 9 x = region_prefix r" for x v
  proof -
    have "c x = Some v" using x by (auto simp: c' split: if_splits)
    with x(2) st obtain i where i: "in_i64 i" "i < f + int (length es)" "x = encode_log_data_key (ev_big E) r i"
      by (auto simp: stored_def)
    with x(1) have "\<not> (k + 1 \<le> i)" by (auto simp: c')
    with i k show ?thesis by (intro exI [of _ i]) auto
  qed
  moreover have "c' (encode_log_meta_key (ev_big E) r) = Some (mem_bytes (ev_big E) 8 (word_of_int f :: 64 word))"
    using st by (auto simp: c' stored_def)
  ultimately show ?thesis unfolding stored_def by blast
qed

lemma truncate_suffix_rel:
  assumes env: "env_ok E contents" and up: "rocks_up (ev_rocks E)"
    and rel: "raft_log_rel E contents st w es" and k: "ls_first_log_index st - 1 \<le> k"
  obtains st' w' where "truncate_suffix E st w k = (0, st', w')"
    and "raft_log_rel E contents st' w' (take (nat (k + 1 - ls_first_log_index st)) es)"
    and "ls_first_log_index st' = ls_first_log_index st" and "ls_region_id st' = ls_region_id st"
    and "set (ls_term_map st') \<subseteq> set (ls_term_map st)"
proof (cases "ls_last_log_index st \<le> k")
  case True
  show thesis
    by (rule that [of st w]) (use True rel in \<open>simp_all add: truncate_suffix_def raft_log_rel_def\<close>)
next
  case False
  let ?f = "ls_first_log_index st" and ?r = "ls_region_id st"
  have rocks: "rocks_ok (ev_rocks E) contents" using env by (simp add: env_ok_def)
  have es: "entries_at E ?f es" and st: "stored E ?r (contents (lw_db w) Raft_Log_Cf) ?f es"
    and last: "ls_last_log_index st = ?f + int (length es) - 1"
    using rel by (simp_all add: raft_log_rel_def)
  let ?ops = "map (\<lambda>i. W_delete Raft_Log_Cf (log_key E st i)) [k + 1..ls_last_log_index st]"
  obtain db1 where db1: "rk_write (ev_rocks E) (lw_db w) ?ops = (R_ok, db1)"
    "contents db1 = fold apply_op ?ops (contents (lw_db w))"
    by (rule rocks_up_write [OF rocks up])
  let ?st' = "st\<lparr>ls_term_map := tm_truncate_suffix (ls_term_map st) k, ls_last_log_index := k\<rparr>"
  let ?w' = "w\<lparr>lw_db := db1\<rparr>"
  have "truncate_suffix E st w k = (0, ?st', ?w')"
    using False db1(1) by (simp add: truncate_suffix_def Let_def)
  moreover have "stored E ?r (contents db1 Raft_Log_Cf) ?f (take (nat (k + 1 - ?f)) es)"
    using k by (intro stored_take [OF st es]) (auto simp: db1(2) fold_deletes last)
  then have "raft_log_rel E contents ?st' ?w' (take (nat (k + 1 - ?f)) es)"
    using rel k last False entries_at_take [OF es] tmi.suffix_ok [of "ls_term_map st" ?f "map entry_term es" k]
      sorted_wrt_take [of "(\<le>)" "map entry_term es"]
    by (auto simp: raft_log_rel_def take_map)
  moreover have "set (tm_truncate_suffix (ls_term_map st) k) \<subseteq> set (ls_term_map st)"
    using rel by (auto simp: raft_log_rel_def tm_tracks_def tm_truncate_suffix_filter)
  ultimately show thesis using that by simp
qed

lemma reset_rel:
  assumes env: "env_ok E contents" and up: "rocks_up (ev_rocks E)"
    and rel: "raft_log_rel E contents st w es" and k: "ls_first_log_index st \<le> k" "k < 2 ^ 63"
  obtains st' w' where "reset E st w k = (0, st', w')" and "raft_log_rel E contents st' w' []"
    and "ls_first_log_index st' = k" and "ls_region_id st' = ls_region_id st"
    and "ls_term_map st' = []"
proof -
  obtain st1 w1 where 1: "truncate_prefix E st w k = (0, st1, w1)"
    "raft_log_rel E contents st1 w1 (drop (nat (k - ls_first_log_index st)) es)"
    "ls_first_log_index st1 = k" "ls_region_id st1 = ls_region_id st"
    by (rule truncate_prefix_rel [OF env up rel k])
  obtain st2 w2 where 2: "truncate_suffix E st1 w1 (k - 1) = (0, st2, w2)"
    "raft_log_rel E contents st2 w2 []" "ls_first_log_index st2 = k" "ls_region_id st2 = ls_region_id st"
    by (rule truncate_suffix_rel [OF env up 1(2), of "k - 1"]) (use 1 in auto)
  let ?st' = "st2\<lparr>ls_term_map := tm_reset (ls_term_map st2)\<rparr>"
  have "reset E st w k = (0, ?st', w2)" by (simp add: reset_def 1(1) 2(1))
  moreover have "raft_log_rel E contents ?st' w2 []"
    using 2 tmi.reset_ok by (simp add: raft_log_rel_def)
  ultimately show thesis using that 2 by (simp add: tm_reset_def)
qed

section \<open>Loading the log again\<close>

definition conf_of :: "'p log_entry \<Rightarrow> 'p conf_entry" where
  "conf_of e = \<lparr>ce_id = le_id e, ce_conf = the (le_peers e),
     ce_old_conf = (case le_old_peers e of None \<Rightarrow> [] | Some ps \<Rightarrow> ps)\<rparr>"

definition log_confs :: "('db, 'p) log_env \<Rightarrow> 'p log_entry list \<Rightarrow> 'p conf_entry list" where
  "log_confs E es = map conf_of (filter (\<lambda>e. le_type e = ev_configuration E) es)"

abbreviation entry_kv :: "('db, 'p) log_env \<Rightarrow> int \<Rightarrow> 'p log_entry \<Rightarrow> bytes \<times> bytes" where
  "entry_kv E r e \<equiv> (encode_log_data_key (ev_big E) r (entry_index e), entry_value E e)"

lemma entries_at_Cons:
  assumes "entries_at E f (e # es)"
  shows "entry_index e = f" and "entry_ok E e" and "in_i64 f" and "entries_at E (f + 1) es"
  using assms by (auto simp: entries_at_def in_i64_def All_less_Suc2 algebra_simps)

lemma entries_at_last:
  assumes "entries_at E f es" and "es \<noteq> []"
  shows "entry_index (last es) = f + int (length es) - 1" and "0 < entry_index (last es)"
proof -
  obtain n where "length es = Suc n" using assms(2) by (cases es) auto
  with assms show "entry_index (last es) = f + int (length es) - 1" and "0 < entry_index (last es)"
    by (auto simp: entries_at_def last_conv_nth)
qed

lemma init_loop_entries:
  assumes env: "env_ok E contents" and r: "in_i64 r"
  shows "entries_at E f es \<Longrightarrow> append_ids tm_append tm (map le_id es) = (0, tm') \<Longrightarrow>
    init_loop E r (map (entry_kv E r) es) f tm last_index confs =
      (0, tm', if es = [] then last_index else entry_index (last es), confs @ log_confs E es)"
proof (induction es arbitrary: f tm last_index confs)
  case Nil
  then show ?case by (simp add: log_confs_def)
next
  case (Cons e es)
  note e = entries_at_Cons [OF Cons.prems(1)]
  obtain tm1 where tm1: "tm_append tm (le_id e) = (0, tm1)"
    "append_ids tm_append tm1 (map le_id es) = (0, tm')"
    using Cons.prems(2) by (auto split: prod.splits if_splits)
  have id: "\<lparr>li_index = f, li_term = entry_term e\<rparr> = le_id e" using e(1) by (simp add: log_id.equality)
  note IH = Cons.IH [OF e(4) tm1(2)]
  show ?case
  proof (cases "le_type e = ev_configuration E")
    case True
    then show ?thesis
      using e r tm1(1) head_entry_value [OF env e(2)] parse_entry_value [OF env e(2) True]
      by (simp add: id IH log_confs_def conf_of_def not_le)
  next
    case False
    then show ?thesis
      using e r tm1(1) head_entry_value [OF env e(2)]
      by (simp add: id IH log_confs_def not_le)
  qed
qed

lemma iterated_entries:
  assumes st: "stored E r (c Raft_Log_Cf) f es" and es: "entries_at E f es"
    and it: "iterates c Raft_Log_Cf 9 (encode_log_data_key (ev_big E) r f) kvs"
  shows "kvs = map (entry_kv E r) es"
proof -
  have f: "in_i64 f" using es by (auto simp: entries_at_def in_i64_def)
  have sorted: "sorted_wrt (<) (map fst (map (entry_kv E r) es))"
    using es by (auto simp: sorted_wrt_iff_nth_less entries_at_def in_i64_def)
  have "(k, v) \<in> set kvs \<longleftrightarrow> (k, v) \<in> set (map (entry_kv E r) es)" for k v
  proof
    assume "(k, v) \<in> set kvs"
    then have k: "c Raft_Log_Cf k = Some v" "encode_log_data_key (ev_big E) r f \<le> k" "take 9 k = region_prefix r"
      using it by (auto simp: iterates_def)
    then obtain i where i: "in_i64 i" "i < f + int (length es)" "k = encode_log_data_key (ev_big E) r i"
      using st by (auto simp: stored_def)
    with k(2) f have "f \<le> i" by simp
    with i es have e: "es ! nat (i - f) \<in> set es" "entry_index (es ! nat (i - f)) = i"
      by (auto simp: entries_at_def)
    with st k(1) i(3) have "v = entry_value E (es ! nat (i - f))" by (auto simp: stored_def)
    with e i(3) show "(k, v) \<in> set (map (entry_kv E r) es)" by force
  next
    assume "(k, v) \<in> set (map (entry_kv E r) es)"
    then show "(k, v) \<in> set kvs"
      using it st f entries_at_i64 [OF es] by (auto simp: iterates_def stored_def)
  qed
  then have set: "set kvs = set (map (entry_kv E r) es)" by auto
  then have "map fst kvs = map fst (map (entry_kv E r) es)"
    using it sorted by (intro strict_sorted_equal) (simp_all add: iterates_def image_image)
  moreover have "x = (fst x, the (c Raft_Log_Cf (fst x)))" if "x \<in> set kvs" for x
  proof -
    obtain k v where "x = (k, v)" by force
    with that it show ?thesis by (simp add: iterates_def)
  qed
  then have "kvs = map (\<lambda>k. (k, the (c Raft_Log_Cf k))) (map fst kvs)"
    by (simp add: comp_def map_idI)
  moreover have "map (entry_kv E r) es = map (\<lambda>k. (k, the (c Raft_Log_Cf k))) (map fst (map (entry_kv E r) es))"
    using st by (auto simp: stored_def)
  ultimately show ?thesis by simp
qed

lemma init_rel:
  assumes env: "env_ok E contents" and up: "rocks_readable (ev_rocks E)" and rel: "raft_log_rel E contents st w es"
    and db: "lw_db w' = lw_db w"
  obtains st' w'' where
    "init E (new_log_storage (ls_region_id st) False) w' = Some (0, st', w'', log_confs E es)"
    and "raft_log_rel E contents st' w'' es" and "ls_first_log_index st' = ls_first_log_index st"
    and "ls_region_id st' = ls_region_id st" and "lw_db w'' = lw_db w"
    and "lw_first_index_map w'' = (lw_first_index_map w')(ls_region_id st \<mapsto> ls_first_log_index st)"
    and "set (ls_term_map st') \<subseteq> le_id ` set es"
proof -
  let ?f = "ls_first_log_index st" and ?r = "ls_region_id st"
  let ?st0 = "new_log_storage ?r False"
  have rocks: "rocks_ok (ev_rocks E) contents" using env by (simp add: env_ok_def)
  have es: "entries_at E ?f es" and st: "stored E ?r (contents (lw_db w) Raft_Log_Cf) ?f es" and r: "in_i64 ?r"
    and sorted: "sorted (map entry_term es)"
    using rel by (simp_all add: raft_log_rel_def)
  have f: "in_i64 ?f" using es by (auto simp: entries_at_def in_i64_def)
  have get: "rk_get (ev_rocks E) (lw_db w) Raft_Log_Cf (encode_log_meta_key (ev_big E) ?r) =
      (R_ok, mem_bytes (ev_big E) 8 (word_of_int ?f :: 64 word))"
    using st by (intro rocks_up_get(1) [OF rocks up]) (simp add: stored_def)
  obtain kvs where kvs: "rk_iterate (ev_rocks E) (lw_db w) Raft_Log_Cf 9 (encode_log_data_key (ev_big E) ?r ?f) = (kvs, R_ok)"
    by (rule rocks_readable_iterate [OF up])
  have kvs_eq: "kvs = map (entry_kv E ?r) es"
    by (rule iterated_entries [OF st es rocks_iterate [OF rocks kvs]])
  obtain tm where tm: "append_ids tm_append [] (map le_id es) = (0, tm)" "tm_tracks tm ?f (map entry_term es)"
    using tmi.append_ids_ok [of "[]" ?f "[]" "map entry_term es" "map le_id es"] sorted
      map_entry_ids [of E ?f 0 es] es tmi.reset_ok [of "[]" ?f]
    by (auto simp: tm_reset_def tm_floor_def)
  note loop = init_loop_entries [OF env r es tm(1), of 0 "[]"]
  let ?st' = "?st0\<lparr>ls_term_map := tm, ls_first_log_index := ?f,
    ls_last_log_index := (if (if es = [] then 0 else entry_index (last es)) = 0 then ?f - 1
      else (if es = [] then 0 else entry_index (last es)))\<rparr>"
  let ?w'' = "update_first_index_map ?r ?f w'"
  have "init E ?st0 w' = Some (0, ?st', ?w'', log_confs E es)"
    using get kvs loop f db
    by (simp add: init_def init_scan_def kvs_eq new_log_storage_def LOG_META_KEY_SIZE_def Let_def mem_bytes_inverse)
  moreover have last: "ls_last_log_index ?st' = ?f + int (length es) - 1"
    using entries_at_last [OF es] by auto
  then have "raft_log_rel E contents ?st' ?w'' es"
    using rel tm(2) db by (simp add: raft_log_rel_def new_log_storage_def update_first_index_map_def)
  moreover have "set tm \<subseteq> le_id ` set es"
    using tm_append_ids_set [of "[]" "map le_id es"] tm(1) by simp
  ultimately show thesis
    using that db by (simp add: new_log_storage_def update_first_index_map_def)
qed

section \<open>Reading\<close>

lemma get_entry_rel:
  assumes env: "env_ok E contents" and up: "rocks_readable (ev_rocks E)" and rel: "raft_log_rel E contents st w es"
    and e: "e \<in> set es"
  shows "get_entry E st w (entry_index e) = Some e"
proof -
  have c: "contents (lw_db w) Raft_Log_Cf (log_key E st (entry_index e)) = Some (entry_value E e)"
    and ok: "entry_ok E e" and nb: "\<not> ls_is_binlog_region st"
    using rel e by (auto simp: raft_log_rel_def stored_def entries_at_def)
  have "rocks_ok (ev_rocks E) contents" using env by (simp add: env_ok_def)
  from rocks_up_get(1) [OF this up c] show ?thesis
    by (intro get_entry_stored [OF env ok nb c]) simp
qed

lemma get_entry_outside:
  assumes env: "env_ok E contents" and rel: "raft_log_rel E contents st w es"
    and i: "in_i64 i" "ls_last_log_index st < i"
  shows "get_entry E st w i = None"
proof -
  have "contents (lw_db w) Raft_Log_Cf (log_key E st i) = None"
  proof (rule ccontr)
    assume "contents (lw_db w) Raft_Log_Cf (log_key E st i) \<noteq> None"
    then obtain v where "contents (lw_db w) Raft_Log_Cf (log_key E st i) = Some v" by blast
    then obtain j where "in_i64 j" "j < ls_first_log_index st + int (length es)"
      "log_key E st i = log_key E st j"
      using rel by (fastforce simp: raft_log_rel_def stored_def)
    with i rel show False by (simp add: raft_log_rel_def)
  qed
  then have "fst (rk_get (ev_rocks E) (lw_db w) Raft_Log_Cf (log_key E st i)) \<noteq> R_ok"
    using rocks_get(1) [of "ev_rocks E" contents] env by (auto simp: env_ok_def) (metis option.distinct(1) prod.collapse)
  then show ?thesis
    by (cases "rk_get (ev_rocks E) (lw_db w) Raft_Log_Cf (log_key E st i)") (simp add: get_entry_def)
qed

lemma get_term_rel:
  assumes rel: "raft_log_rel E contents st w es"
  shows "get_term st i =
    (if ls_first_log_index st \<le> i \<and> i \<le> ls_last_log_index st
     then entry_term (es ! nat (i - ls_first_log_index st)) else 0)"
proof (cases "ls_first_log_index st \<le> i \<and> i \<le> ls_last_log_index st")
  case True
  then have "nat (i - ls_first_log_index st) < length (map entry_term es)"
    using rel by (auto simp: raft_log_rel_def)
  with True rel tmi.get_term [of "ls_term_map st" "ls_first_log_index st" "map entry_term es"
      "nat (i - ls_first_log_index st)"]
  show ?thesis by (auto simp: get_term_def raft_log_rel_def)
qed (auto simp: get_term_def)

section \<open>Runs of the storage\<close>

text \<open>
  The operations braft issues, a restart of the process included, and what they mean for
  an abstract log: its first index, its entries, and the term of the last entry before them
  that truncation removed.
\<close>

datatype 'p log_op =
    Append "'p log_entry list"
  | Truncate_Prefix int
  | Truncate_Suffix int
  | Reset int
  | Restart

record 'p abs_log =
  al_first :: int
  al_entries :: "'p log_entry list"
  al_base :: "int option"

definition al_next :: "'p abs_log \<Rightarrow> int" where
  "al_next a = al_first a + int (length (al_entries a))"

definition al_floor :: "'p abs_log \<Rightarrow> int option" where
  "al_floor a = (if al_entries a = [] then al_base a else Some (entry_term (last (al_entries a))))"

fun op_allowed :: "('db, 'p) log_env \<Rightarrow> 'p abs_log \<Rightarrow> 'p log_op \<Rightarrow> bool" where
  "op_allowed E a (Append new) \<longleftrightarrow> new \<noteq> [] \<and> entries_at E (al_next a) new \<and>
     sorted (map entry_term new) \<and> (\<forall>u \<in> set_option (al_floor a). \<forall>e \<in> set new. u \<le> entry_term e)"
| "op_allowed E a (Truncate_Prefix k) \<longleftrightarrow> al_first a \<le> k \<and> k < 2 ^ 63"
| "op_allowed E a (Truncate_Suffix k) \<longleftrightarrow> al_first a - 1 \<le> k"
| "op_allowed E a (Reset k) \<longleftrightarrow> al_first a \<le> k \<and> k < 2 ^ 63"
| "op_allowed E a Restart \<longleftrightarrow> True"

fun abs_step :: "'p log_op \<Rightarrow> 'p abs_log \<Rightarrow> 'p abs_log" where
  "abs_step (Append new) a = a\<lparr>al_entries := al_entries a @ new\<rparr>"
| "abs_step (Truncate_Prefix k) a =
     a\<lparr>al_first := k, al_entries := drop (nat (k - al_first a)) (al_entries a),
       al_base := (if k = al_first a then al_base a
         else if k \<le> al_next a then Some (entry_term (al_entries a ! nat (k - 1 - al_first a)))
         else al_floor a)\<rparr>"
| "abs_step (Truncate_Suffix k) a =
     a\<lparr>al_entries := take (nat (k + 1 - al_first a)) (al_entries a)\<rparr>"
| "abs_step (Reset k) a = \<lparr>al_first = k, al_entries = [], al_base = None\<rparr>"
| "abs_step Restart a = a"

text \<open>The program on the same operation. A step is the resulting object and world if
  the operation reports success.\<close>

fun storage_step ::
  "('db, 'p) log_env \<Rightarrow> 'p log_op \<Rightarrow> log_storage \<times> 'db log_world \<Rightarrow> (log_storage \<times> 'db log_world) option" where
  "storage_step E (Append new) (st, w) =
     (case append_entries E st w new of (r, s) \<Rightarrow> if r = int (length new) then Some s else None)"
| "storage_step E (Truncate_Prefix k) (st, w) =
     (case truncate_prefix E st w k of (r, s) \<Rightarrow> if r = 0 then Some s else None)"
| "storage_step E (Truncate_Suffix k) (st, w) =
     (case truncate_suffix E st w k of (r, s) \<Rightarrow> if r = 0 then Some s else None)"
| "storage_step E (Reset k) (st, w) =
     (case reset E st w k of (r, s) \<Rightarrow> if r = 0 then Some s else None)"
| "storage_step E Restart (st, w) =
     (case init E (new_log_storage (ls_region_id st) (ls_is_binlog_region st)) w of
        Some (r, st', w', confs) \<Rightarrow> if r = 0 then Some (st', w') else None
      | None \<Rightarrow> None)"

fun storage_run ::
  "('db, 'p) log_env \<Rightarrow> 'p log_op list \<Rightarrow> log_storage \<times> 'db log_world \<Rightarrow> (log_storage \<times> 'db log_world) option" where
  "storage_run E [] s = Some s"
| "storage_run E (op # ops) s =
     (case storage_step E op s of None \<Rightarrow> None | Some s' \<Rightarrow> storage_run E ops s')"

fun abs_run :: "'p log_op list \<Rightarrow> 'p abs_log \<Rightarrow> 'p abs_log" where
  "abs_run [] a = a"
| "abs_run (op # ops) a = abs_run ops (abs_step op a)"

fun run_allowed :: "('db, 'p) log_env \<Rightarrow> 'p abs_log \<Rightarrow> 'p log_op list \<Rightarrow> bool" where
  "run_allowed E a [] \<longleftrightarrow> True"
| "run_allowed E a (op # ops) \<longleftrightarrow> op_allowed E a op \<and> run_allowed E (abs_step op a) ops"

definition implements ::
  "('db, 'p) log_env \<Rightarrow> ('db \<Rightarrow> contents) \<Rightarrow> log_storage \<times> 'db log_world \<Rightarrow> 'p abs_log \<Rightarrow> bool" where
  "implements E contents s a \<longleftrightarrow>
     raft_log_rel E contents (fst s) (snd s) (al_entries a) \<and> ls_first_log_index (fst s) = al_first a \<and>
     (\<forall>x \<in> set (ls_term_map (fst s)). li_index x < al_first a \<longrightarrow>
        (\<exists>b. al_base a = Some b \<and> li_term x \<le> b))"

lemma tm_spec_ge:
  assumes "tm_inv q" and "x \<in> set q" and "li_index x \<le> i"
  shows "li_term x \<le> tm_spec q i"
  using assms by (induction q rule: rev_induct) auto

lemma implements_floor:
  assumes imp: "implements E contents (st, w) a" and x: "x \<in> set (ls_term_map st)"
  shows "\<exists>b. al_floor a = Some b \<and> li_term x \<le> b"
proof (cases "al_entries a = []")
  case True
  then have "li_index x < al_first a"
    using imp x by (auto simp: implements_def raft_log_rel_def tm_tracks_def)
  with True imp x show ?thesis by (auto simp: implements_def al_floor_def)
next
  case False
  let ?q = "ls_term_map st" and ?i = "al_first a + int (length (al_entries a) - 1)"
  have t: "tm_tracks ?q (al_first a) (map entry_term (al_entries a))"
    using imp by (auto simp: implements_def raft_log_rel_def)
  then have "li_index x \<le> ?i" using x False by (auto simp: tm_tracks_def of_nat_diff Suc_le_eq)
  moreover have "tm_spec ?q ?i = entry_term (last (al_entries a))"
    using t False by (simp add: tm_tracks_def last_conv_nth)
  ultimately have "li_term x \<le> entry_term (last (al_entries a))"
    using tm_spec_ge [of ?q x ?i] t x by (simp add: tm_tracks_def)
  with False show ?thesis by (simp add: al_floor_def)
qed

text \<open>One step of the program is the step of the abstract log, and it succeeds.\<close>

lemma storage_step_implements:
  assumes env: "env_ok E contents" and up: "rocks_up (ev_rocks E)"
    and imp: "implements E contents s a" and allowed: "op_allowed E a op"
  shows "\<exists>s'. storage_step E op s = Some s' \<and> implements E contents s' (abs_step op a)"
proof -
  obtain st w where s: "s = (st, w)" by force
  have rel: "raft_log_rel E contents st w (al_entries a)" and f: "ls_first_log_index st = al_first a"
    and stale: "\<And>x. x \<in> set (ls_term_map st) \<Longrightarrow> li_index x < al_first a \<Longrightarrow>
      \<exists>b. al_base a = Some b \<and> li_term x \<le> b"
    using imp by (auto simp: implements_def s)
  have nx: "ls_last_log_index st + 1 = al_next a" using rel f by (simp add: raft_log_rel_def al_next_def)
  note floor = implements_floor [OF imp [unfolded s]]
  show ?thesis
  proof (cases op)
    case (Append new)
    have fl: "\<forall>u \<in> set_option (tm_floor (ls_term_map st)). \<forall>e \<in> set new. u \<le> entry_term e"
      using floor [of "last (ls_term_map st)"] allowed Append
      by (fastforce simp: tm_floor_def split: if_splits)
    have pre: "entries_at E (ls_last_log_index st + 1) new" "new \<noteq> []" "sorted (map entry_term new)"
      using allowed Append nx by auto
    obtain st' w' where "append_entries E st w new = (int (length new), st', w')"
      "raft_log_rel E contents st' w' (al_entries a @ new)" "ls_first_log_index st' = ls_first_log_index st"
      "set (ls_term_map st') \<subseteq> set (ls_term_map st) \<union> le_id ` set new"
      by (rule append_entries_rel [OF env rel pre fl up])
    moreover have "\<forall>e \<in> set new. al_first a \<le> entry_index e"
      using allowed Append entries_at_i64(2) [of E "al_next a" new] by (force simp: al_next_def)
    ultimately show ?thesis using stale f Append by (fastforce simp: s implements_def)
  next
    case (Truncate_Prefix k)
    have pre: "ls_first_log_index st \<le> k" "k < 2 ^ 63" using allowed Truncate_Prefix f by auto
    obtain st' w' where 1: "truncate_prefix E st w k = (0, st', w')"
      "raft_log_rel E contents st' w' (drop (nat (k - al_first a)) (al_entries a))"
      "ls_first_log_index st' = k" "set (ls_term_map st') \<subseteq> set (ls_term_map st)"
      by (rule truncate_prefix_rel [OF env up rel pre, unfolded f])
    have "\<exists>b. al_base (abs_step op a) = Some b \<and> li_term x \<le> b"
      if x: "x \<in> set (ls_term_map st')" "li_index x < k" for x
    proof -
      consider "k = al_first a" | "al_first a < k" "k \<le> al_next a" | "al_next a < k"
        using allowed Truncate_Prefix by force
      then show ?thesis
      proof cases
        case 2
        define n where "n = nat (k - 1 - al_first a)"
        have n: "n < length (al_entries a)" "k - 1 = al_first a + int n"
          using 2 by (auto simp: n_def al_next_def)
        have t: "tm_inv (ls_term_map st)" "tm_spec (ls_term_map st) (k - 1) = entry_term (al_entries a ! n)"
          using rel f n by (auto simp: raft_log_rel_def tm_tracks_def)
        show ?thesis
          using tm_spec_ge [OF t(1), of x "k - 1"] t(2) x 1(4) 2 Truncate_Prefix by (auto simp: n_def)
      qed (use x 1(4) stale floor Truncate_Prefix in \<open>auto simp: al_next_def\<close>)
    qed
    with 1 show ?thesis using Truncate_Prefix by (auto simp: s implements_def)
  next
    case (Truncate_Suffix k)
    have pre: "ls_first_log_index st - 1 \<le> k" using allowed Truncate_Suffix f by auto
    obtain st' w' where "truncate_suffix E st w k = (0, st', w')"
      "raft_log_rel E contents st' w' (take (nat (k + 1 - al_first a)) (al_entries a))"
      "ls_first_log_index st' = al_first a" "set (ls_term_map st') \<subseteq> set (ls_term_map st)"
      by (rule truncate_suffix_rel [OF env up rel pre, unfolded f])
    then show ?thesis using stale Truncate_Suffix by (fastforce simp: s implements_def)
  next
    case (Reset k)
    have pre: "ls_first_log_index st \<le> k" "k < 2 ^ 63" using allowed Reset f by auto
    obtain st' w' where "reset E st w k = (0, st', w')" "raft_log_rel E contents st' w' []"
      "ls_first_log_index st' = k" "ls_term_map st' = []"
      by (rule reset_rel [OF env up rel pre])
    then show ?thesis using Reset by (simp add: s implements_def)
  next
    case Restart
    obtain st' w'' where "init E (new_log_storage (ls_region_id st) False) w =
        Some (0, st', w'', log_confs E (al_entries a))"
      "raft_log_rel E contents st' w'' (al_entries a)" "ls_first_log_index st' = al_first a"
      "set (ls_term_map st') \<subseteq> le_id ` set (al_entries a)"
      by (rule init_rel [OF env rocks_up_readable [OF up] rel refl, unfolded f])
    moreover have "\<not> ls_is_binlog_region st" using rel by (simp add: raft_log_rel_def)
    moreover have "\<forall>e \<in> set (al_entries a). al_first a \<le> entry_index e"
      using rel f entries_at_i64(2) [of E "al_first a" "al_entries a"] by (auto simp: raft_log_rel_def)
    ultimately show ?thesis using Restart by (fastforce simp: s implements_def)
  qed
qed

lemma storage_run_implements:
  assumes env: "env_ok E contents" and up: "rocks_up (ev_rocks E)"
  shows "implements E contents s a \<Longrightarrow> run_allowed E a ops \<Longrightarrow>
    \<exists>s'. storage_run E ops s = Some s' \<and> implements E contents s' (abs_run ops a)"
proof (induction ops arbitrary: s a)
  case Nil
  then show ?case by simp
next
  case (Cons op ops)
  from Cons.prems storage_step_implements [OF env up Cons.prems(1), of op] Cons.IH
  show ?case by fastforce
qed

section \<open>A new region\<close>

definition fresh_region :: "contents \<Rightarrow> int \<Rightarrow> bool" where
  "fresh_region c r \<longleftrightarrow>
     (\<forall>k. take 8 k = be_bytes 8 (encode_i64 (word_of_int r :: 64 word)) \<longrightarrow> c Raft_Log_Cf k = None)"

lemma fresh_prefix:
  assumes "fresh_region c r" and "c Raft_Log_Cf k = Some v"
  shows "take 9 k \<noteq> region_prefix r"
proof
  assume "take 9 k = region_prefix r"
  then have "take 8 (take 9 k) = take 8 (region_prefix r)" by (rule arg_cong)
  then have "take 8 k = be_bytes 8 (encode_i64 (word_of_int r :: 64 word))"
    by (simp add: region_prefix_def)
  with assms show False by (simp add: fresh_region_def)
qed

lemma init_fresh:
  assumes env: "env_ok E contents" and up: "rocks_up (ev_rocks E)" and r: "in_i64 r"
    and fresh: "fresh_region (contents (lw_db w)) r"
  obtains st' w' where "init E (new_log_storage r False) w = Some (0, st', w', [])"
    and "implements E contents (st', w') \<lparr>al_first = 1, al_entries = [], al_base = None\<rparr>"
    and "ls_region_id st' = r" and "lw_first_index_map w' = (lw_first_index_map w)(r \<mapsto> 1)"
proof -
  let ?st0 = "new_log_storage r False" and ?meta = "encode_log_meta_key (ev_big E) r"
  have rocks: "rocks_ok (ev_rocks E) contents" using env by (simp add: env_ok_def)
  have "contents (lw_db w) Raft_Log_Cf ?meta = None"
    using fresh by (simp add: fresh_region_def encode_log_meta_key_def mem_to_endian_u64)
  from rocks_up_get(2) [OF rocks rocks_up_readable [OF up] this]
  have get: "fst (rk_get (ev_rocks E) (lw_db w) Raft_Log_Cf ?meta) = R_not_found" .
  obtain db' where put: "rk_put (ev_rocks E) (lw_db w) Raft_Log_Cf ?meta (mem_bytes (ev_big E) 8 (1 :: 64 word)) = (R_ok, db')"
    and c': "contents db' = apply_op (W_put Raft_Log_Cf ?meta (mem_bytes (ev_big E) 8 (1 :: 64 word))) (contents (lw_db w))"
    by (rule rocks_up_put [OF rocks up])
  have st: "stored E r (contents db' Raft_Log_Cf) 1 []"
    using fresh_prefix [OF fresh] by (auto simp: stored_def c' split: if_splits)
  have es: "entries_at E 1 []" by (simp add: entries_at_def)
  obtain kvs where kvs: "rk_iterate (ev_rocks E) db' Raft_Log_Cf 9 (encode_log_data_key (ev_big E) r 1) = (kvs, R_ok)"
    by (rule rocks_readable_iterate [OF rocks_up_readable [OF up]])
  have "kvs = []"
    using iterated_entries [OF st es rocks_iterate [OF rocks kvs]] by simp
  let ?st' = "?st0\<lparr>ls_first_log_index := 1, ls_last_log_index := 0\<rparr>"
  let ?w' = "update_first_index_map r 1 (w\<lparr>lw_db := db'\<rparr>)"
  have "init E ?st0 w = Some (0, ?st', ?w', [])"
    using get put kvs \<open>kvs = []\<close>
    by (cases "rk_get (ev_rocks E) (lw_db w) Raft_Log_Cf ?meta")
       (simp add: init_def init_scan_def new_log_storage_def LOG_META_KEY_SIZE_def Let_def)
  moreover have "implements E contents (?st', ?w') \<lparr>al_first = 1, al_entries = [], al_base = None\<rparr>"
    using st es r tmi.reset_ok [of "[]" 1]
    by (simp add: implements_def raft_log_rel_def new_log_storage_def update_first_index_map_def tm_reset_def)
  ultimately show thesis
    using that by (simp add: new_log_storage_def update_first_index_map_def)
qed

lemma run_from_fresh:
  assumes env: "env_ok E contents" and up: "rocks_up (ev_rocks E)" and r: "in_i64 r"
    and fresh: "fresh_region (contents (lw_db w)) r"
    and ops: "run_allowed E \<lparr>al_first = 1, al_entries = [], al_base = None\<rparr> ops"
  obtains st' w' where "storage_run E (Restart # ops) (new_log_storage r False, w) = Some (st', w')"
    and "implements E contents (st', w') (abs_run ops \<lparr>al_first = 1, al_entries = [], al_base = None\<rparr>)"
proof -
  obtain st1 w1 where "init E (new_log_storage r False) w = Some (0, st1, w1, [])"
    and imp: "implements E contents (st1, w1) \<lparr>al_first = 1, al_entries = [], al_base = None\<rparr>"
    by (rule init_fresh [OF env up r fresh])
  then have "storage_step E Restart (new_log_storage r False, w) = Some (st1, w1)"
    by (simp add: new_log_storage_def)
  with storage_run_implements [OF env up imp ops] that show thesis by fastforce
qed

section \<open>An environment in memory\<close>

definition mem_env :: "(mem_db, bytes) log_env" where
  "mem_env =
     \<lparr>ev_rocks = mem_rocks, ev_big = False, ev_delete_files = True, ev_has_binlog_cf = True,
      ev_has_old_binlog_cf = False,
      ev_pack_head = (\<lambda>t y. be_bytes 8 t @ be_bytes 4 y),
      ev_unpack_head = (\<lambda>raw. (be_word (take 8 raw), be_word (take 4 (drop 8 raw)))),
      ev_no_op = 1, ev_data = 2, ev_configuration = 3,
      ev_parse_conf = (\<lambda>bs. if bs = [] then None
        else Some \<lparr>cm_peers = [tl bs], cm_old_peers = []\<rparr>),
      ev_ser_conf = (\<lambda>m. case cm_peers m of [p] \<Rightarrow> Some (0 # p) | _ \<Rightarrow> None),
      ev_peer_of = id, ev_peer_str = id,
      ev_parse_req = (\<lambda>bs. Some \<lparr>sr_op_type = 61, sr_region_id = 1, sr_region_version = 1,
        sr_binlog_desc = Some \<lparr>bd_binlog_ts = 7, bd_rest = []\<rparr>, sr_rest = bs\<rparr>),
      ev_ser_req = (\<lambda>q. Some (sr_rest q))\<rparr>"

lemma mem_env_ok: "env_ok mem_env mem_contents" and mem_env_up: "rocks_up (ev_rocks mem_env)"
  by (simp_all add: env_ok_def mem_env_def mem_rocks_ok mem_rocks_up be_bytes_inverse)

definition mem_world :: "mem_db log_world" where
  "mem_world = \<lparr>lw_db = [], lw_first_index_map = Map.empty, lw_can_add_peer = {}\<rparr>"

lemma mem_world_fresh: "fresh_region (mem_contents (lw_db mem_world)) r"
  by (simp add: fresh_region_def mem_contents_def mem_world_def)

definition data_entry :: "int \<Rightarrow> int \<Rightarrow> bytes \<Rightarrow> bytes log_entry" where
  "data_entry i t d = \<lparr>le_id = \<lparr>li_index = i, li_term = t\<rparr>, le_type = 2, le_data = d,
     le_peers = None, le_old_peers = None\<rparr>"

definition conf_entry1 :: "int \<Rightarrow> int \<Rightarrow> bytes \<Rightarrow> bytes log_entry" where
  "conf_entry1 i t p = \<lparr>le_id = \<lparr>li_index = i, li_term = t\<rparr>, le_type = 3, le_data = [],
     le_peers = Some [p], le_old_peers = None\<rparr>"

end
