(* ===== verification/RaftLogProperties.thy ===== *)
theory RaftLogProperties
  imports RaftLogRefinement
begin

text \<open>
  The properties of the raft log storage: runs of the program against the abstract log,
  recovery after a restart, what failures of the database leave behind, the split
  storage of binlog entries, and the safety of the compaction filter.
\<close>

abbreviation new_log :: "'p abs_log" where
  "new_log \<equiv> \<lparr>al_first = 1, al_entries = [], al_base = None\<rparr>"

text \<open>
  (C8) The log storage implements a log. From a region that is new to the database, after
  loading it and any sequence of appends, truncations, resets and restarts that
  raft may issue, every operation has reported success, the bounds are those of the
  abstract log, \<^verbatim>\<open>get_entry\<close> returns exactly its entries, nothing behind them,
  and \<^verbatim>\<open>get_term\<close> their terms.
\<close>

theorem raft_log_run_refines:
  assumes "env_ok E contents" and "rocks_up (ev_rocks E)" and "in_i64 r"
    and "fresh_region (contents (lw_db w)) r" and "run_allowed E new_log ops"
    and "a = abs_run ops new_log"
  shows "\<exists>st' w'. storage_run E (Restart # ops) (new_log_storage r False, w) = Some (st', w') \<and>
    ls_first_log_index st' = al_first a \<and> ls_last_log_index st' = al_next a - 1 \<and>
    (\<forall>i < length (al_entries a). get_entry E st' w' (al_first a + int i) = Some (al_entries a ! i) \<and>
       get_term st' (al_first a + int i) = li_term (le_id (al_entries a ! i))) \<and>
    (\<forall>i. in_i64 i \<and> al_next a \<le> i \<longrightarrow> get_entry E st' w' i = None \<and> get_term st' i = 0)"
proof -
  obtain st' w' where run: "storage_run E (Restart # ops) (new_log_storage r False, w) = Some (st', w')"
    and imp: "implements E contents (st', w') a"
    using run_from_fresh [OF assms(1-5)] assms(6) by metis
  have rel: "raft_log_rel E contents st' w' (al_entries a)" and f: "ls_first_log_index st' = al_first a"
    using imp by (simp_all add: implements_def)
  have last: "ls_last_log_index st' = al_next a - 1" using rel f by (simp add: raft_log_rel_def al_next_def)
  have "get_entry E st' w' (al_first a + int i) = Some (al_entries a ! i) \<and>
      get_term st' (al_first a + int i) = li_term (le_id (al_entries a ! i))" if "i < length (al_entries a)" for i
  proof -
    have "li_index (le_id (al_entries a ! i)) = al_first a + int i"
      using rel f that by (simp add: raft_log_rel_def entries_at_def)
    with get_entry_rel [OF assms(1) rocks_up_readable [OF assms(2)] rel, of "al_entries a ! i"] get_term_rel [OF rel] that f last
    show ?thesis by (simp add: al_next_def)
  qed
  moreover have "get_entry E st' w' i = None \<and> get_term st' i = 0" if "in_i64 i" "al_next a \<le> i" for i
    using get_entry_outside [OF assms(1) rel that(1)] get_term_rel [OF rel] that(2) last by simp
  ultimately show ?thesis using run f last by blast
qed

definition sample_ops :: "bytes log_op list" where
  "sample_ops = [Append [conf_entry1 1 1 [9], data_entry 2 1 [65]], Append [data_entry 3 2 [66]],
     Truncate_Prefix 2, Restart, Truncate_Suffix 2, Append [data_entry 3 4 [67]]]"

lemma sample_ops_allowed: "run_allowed mem_env new_log sample_ops"
  by (simp add: sample_ops_def entries_at_def al_next_def entry_ok_def conf_entry1_def data_entry_def mem_env_def in_i64_def al_floor_def conf_meta_of_def All_less_Suc)

lemma sample_abs:
  "abs_run sample_ops new_log =
     \<lparr>al_first = 2, al_entries = [data_entry 2 1 [65], data_entry 3 4 [67]], al_base = Some 1\<rparr>"
  by (simp add: sample_ops_def al_next_def conf_entry1_def)

theorem raft_log_run_refines_witness:
  "\<exists>st' w'. storage_run mem_env (Restart # sample_ops) (new_log_storage 7 False, mem_world) = Some (st', w') \<and>
    ls_first_log_index st' = 2 \<and> ls_last_log_index st' = 3 \<and>
    get_entry mem_env st' w' 3 = Some (data_entry 3 4 [67]) \<and> get_entry mem_env st' w' 4 = None"
proof -
  have "in_i64 7" by (simp add: in_i64_def)
  from raft_log_run_refines [OF mem_env_ok mem_env_up this mem_world_fresh sample_ops_allowed
      sample_abs [symmetric]]
  obtain st' w' where
    "storage_run mem_env (Restart # sample_ops) (new_log_storage 7 False, mem_world) = Some (st', w')"
    "ls_first_log_index st' = 2" "ls_last_log_index st' = 3"
    "get_entry mem_env st' w' 3 = Some (data_entry 3 4 [67])" "get_entry mem_env st' w' 4 = None"
    by (auto simp: All_less_Suc al_next_def in_i64_def)
  then show ?thesis by blast
qed

section \<open>Recovery\<close>

lemma storage_step_region:
  "storage_step E op (st, w) = Some (st', w') \<Longrightarrow> ls_region_id st' = ls_region_id st"
  by (cases op)
     (auto simp: append_entries_def truncate_prefix_def truncate_suffix_def reset_def init_def
       init_scan_def new_log_storage_def Let_def split: if_splits prod.splits option.splits)

lemma storage_run_region:
  "storage_run E ops s = Some s' \<Longrightarrow> ls_region_id (fst s') = ls_region_id (fst s)"
proof (induction ops arbitrary: s)
  case (Cons op ops)
  then show ?case
    using storage_step_region [of E op "fst s" "snd s"] by (auto split: option.splits)
qed simp

text \<open>
  (C9) Recovery. Loading the log with a new object after any run of allowed operations,
  without any write in between, succeeds, leaves the database as it is, and yields the
  bounds and terms of the object that was lost. The configuration manager
  gets exactly the configurations of the log in order, and the compaction filter
  the first index.
\<close>

theorem raft_log_recovery:
  assumes "env_ok E contents" and "rocks_up (ev_rocks E)" and "in_i64 r"
    and "fresh_region (contents (lw_db w)) r" and "run_allowed E new_log ops"
    and "storage_run E (Restart # ops) (new_log_storage r False, w) = Some (st', w')"
  shows "\<exists>st2 w2. init E (new_log_storage r False) w' =
      Some (0, st2, w2, log_confs E (al_entries (abs_run ops new_log))) \<and>
    lw_db w2 = lw_db w' \<and> lw_first_index_map w2 r = Some (ls_first_log_index st') \<and>
    ls_first_log_index st2 = ls_first_log_index st' \<and> ls_last_log_index st2 = ls_last_log_index st' \<and>
    (\<forall>i. get_term st2 i = get_term st' i \<and> get_entry E st2 w2 i = get_entry E st' w' i)"
proof -
  have rel: "raft_log_rel E contents st' w' (al_entries (abs_run ops new_log))"
    using run_from_fresh [OF assms(1-5)] assms(6) by (metis fst_conv snd_conv implements_def option.inject)
  have r: "ls_region_id st' = r"
    using storage_run_region [OF assms(6)] by (simp add: new_log_storage_def)
  obtain st2 w2 where 2: "init E (new_log_storage r False) w' =
      Some (0, st2, w2, log_confs E (al_entries (abs_run ops new_log)))"
    "raft_log_rel E contents st2 w2 (al_entries (abs_run ops new_log))"
    "ls_first_log_index st2 = ls_first_log_index st'" "ls_region_id st2 = r" "lw_db w2 = lw_db w'"
    "lw_first_index_map w2 = (lw_first_index_map w')(r \<mapsto> ls_first_log_index st')"
    by (rule init_rel [OF assms(1) rocks_up_readable [OF assms(2)] rel refl, unfolded r])
  moreover have last: "ls_last_log_index st2 = ls_last_log_index st'"
    using 2 rel by (simp add: raft_log_rel_def)
  moreover have "get_term st2 i = get_term st' i" for i
    using get_term_rel [OF rel, of i] get_term_rel [OF 2(2), of i] 2(3) last by simp
  moreover have "get_entry E st2 w2 i = get_entry E st' w' i" for i
    using 2 r rel
    by (cases "rk_get (ev_rocks E) (lw_db w') Raft_Log_Cf (encode_log_data_key (ev_big E) r i)")
       (simp add: get_entry_def raft_log_rel_def Let_def split: prod.split)
  ultimately show ?thesis by auto
qed

theorem raft_log_recovery_witness:
  "\<exists>st' w' st2 w2. storage_run mem_env (Restart # sample_ops) (new_log_storage 7 False, mem_world) = Some (st', w') \<and>
    init mem_env (new_log_storage 7 False) w' = Some (0, st2, w2, []) \<and>
    ls_last_log_index st2 = ls_last_log_index st'"
proof -
  have r: "in_i64 7" by (simp add: in_i64_def)
  obtain st' w' where run:
    "storage_run mem_env (Restart # sample_ops) (new_log_storage 7 False, mem_world) = Some (st', w')"
    by (rule run_from_fresh [OF mem_env_ok mem_env_up r mem_world_fresh sample_ops_allowed])
  have "log_confs mem_env (al_entries (abs_run sample_ops new_log)) = []"
    by (simp add: sample_abs log_confs_def data_entry_def mem_env_def)
  with run raft_log_recovery [OF mem_env_ok mem_env_up r mem_world_fresh sample_ops_allowed run]
  show ?thesis by auto
qed

section \<open>The compaction filter\<close>

lemma storage_step_filter:
  assumes "storage_step E op (st, w) = Some (st', w')"
  shows "if op = Restart
    then lw_first_index_map w' = (lw_first_index_map w)(ls_region_id st \<mapsto> ls_first_log_index st')
    else lw_first_index_map w' = lw_first_index_map w \<and> ls_first_log_index st \<le> ls_first_log_index st'"
  using assms
  by (cases op)
     (auto simp: append_entries_def truncate_prefix_def truncate_suffix_def reset_def init_def
       init_scan_def new_log_storage_def update_first_index_map_def Let_def
       split: if_splits prod.splits option.splits)

lemma storage_run_filter:
  assumes "storage_run E ops (st, w) = Some (st', w')"
    and "lw_first_index_map w (ls_region_id st) = Some f" and "f \<le> ls_first_log_index st"
  shows "\<exists>f'. lw_first_index_map w' (ls_region_id st) = Some f' \<and> f' \<le> ls_first_log_index st'"
  using assms
proof (induction ops arbitrary: st w f)
  case (Cons op ops)
  then obtain st1 w1 where 1: "storage_step E op (st, w) = Some (st1, w1)"
    "storage_run E ops (st1, w1) = Some (st', w')" by (auto split: option.splits)
  show ?case
    using Cons.IH [OF 1(2)] storage_step_filter [OF 1(1)] storage_step_region [OF 1(1)] Cons.prems(2, 3)
    by (cases "op = Restart") auto
qed simp

text \<open>
  (C10) Compaction is safe. After any run of allowed operations, and whatever index a running
  split holds back, the compaction filter keeps the meta key and every entry of
  the log: it drops a key of the region only if its index lies before the first index.
\<close>

theorem compaction_keeps_log:
  assumes "env_ok E contents" and "rocks_up (ev_rocks E)" and "in_i64 r"
    and "fresh_region (contents (lw_db w)) r" and "run_allowed E new_log ops"
    and "storage_run E (Restart # ops) (new_log_storage r False, w) = Some (st', w')"
  shows "(\<forall>i. in_i64 i \<and> ls_first_log_index st' \<le> i \<longrightarrow>
      \<not> compaction_filter (ev_big E) (lw_first_index_map w') split
          (encode_log_data_key (ev_big E) r i)) \<and>
    \<not> compaction_filter (ev_big E) (lw_first_index_map w') split (encode_log_meta_key (ev_big E) r)"
proof -
  obtain st1 w1 where 1: "init E (new_log_storage r False) w = Some (0, st1, w1, [])"
    "implements E contents (st1, w1) new_log" "ls_region_id st1 = r"
    "lw_first_index_map w1 = (lw_first_index_map w)(r \<mapsto> 1)"
    by (rule init_fresh [OF assms(1-4)])
  have "storage_run E ops (st1, w1) = Some (st', w')"
    using assms(6) 1(1) by (simp add: new_log_storage_def)
  moreover have "ls_first_log_index st1 = 1" using 1(2) by (simp add: implements_def)
  ultimately obtain f' where "lw_first_index_map w' r = Some f'" "f' \<le> ls_first_log_index st'"
    using storage_run_filter [of E ops st1 w1 st' w' 1] 1(3, 4) by auto
  moreover have "decode_log_data_key (ev_big E) (encode_log_meta_key (ev_big E) r) = None"
    by (simp add: decode_log_data_key_def LOG_DATA_KEY_SIZE_def encode_log_meta_key_def mem_to_endian_u64)
  ultimately show ?thesis using assms(3) by (auto simp: compaction_filter_def)
qed

theorem compaction_keeps_log_witness:
  "\<exists>st' w'. storage_run mem_env (Restart # sample_ops) (new_log_storage 7 False, mem_world) = Some (st', w') \<and>
    \<not> compaction_filter False (lw_first_index_map w') (\<lambda>_. 100) (encode_log_data_key False 7 3)"
proof -
  have r: "in_i64 7" by (simp add: in_i64_def)
  obtain st' w' where run:
    "storage_run mem_env (Restart # sample_ops) (new_log_storage 7 False, mem_world) = Some (st', w')"
    and imp: "implements mem_env mem_contents (st', w') (abs_run sample_ops new_log)"
    by (rule run_from_fresh [OF mem_env_ok mem_env_up r mem_world_fresh sample_ops_allowed])
  then have "ls_first_log_index st' = 2" by (simp add: implements_def sample_abs)
  with run compaction_keeps_log [OF mem_env_ok mem_env_up r mem_world_fresh sample_ops_allowed run,
      of "\<lambda>_. 100"]
  show ?thesis by (auto simp: mem_env_def in_i64_def)
qed

section \<open>Failures\<close>

text \<open>A database in memory that refuses every write batch.\<close>

definition stuck_env :: "(mem_db, bytes) log_env" where
  "stuck_env = mem_env\<lparr>ev_rocks := mem_rocks\<lparr>rk_write := (\<lambda>db ops. (R_error, db))\<rparr>\<rparr>"

lemma stuck_env_ok: "env_ok stuck_env mem_contents"
  using mem_env_ok unfolding env_ok_def stuck_env_def rocks_ok_def by (simp add: mem_env_def)

lemma stuck_env_readable: "rocks_readable (ev_rocks stuck_env)"
  using mem_rocks_up by (simp add: stuck_env_def rocks_up_def rocks_readable_def)

text \<open>The state after one data entry was appended in region 7.\<close>

definition one_entry_storage :: log_storage where
  "one_entry_storage = \<lparr>ls_first_log_index = 1, ls_last_log_index = 1, ls_region_id = 7,
     ls_is_binlog_region = False, ls_term_map = [\<lparr>li_index = 1, li_term = 5\<rparr>]\<rparr>"

definition one_entry_world :: "mem_db log_world" where
  "one_entry_world = \<lparr>lw_db =
     [((Raft_Log_Cf, encode_log_data_key False 7 1), entry_value mem_env (data_entry 1 5 [65])),
      ((Raft_Log_Cf, encode_log_meta_key False 7), mem_bytes False 8 (1 :: 64 word))],
     lw_first_index_map = Map.empty, lw_can_add_peer = {}\<rparr>"

lemma one_entry_rel:
  assumes "E = mem_env \<or> E = stuck_env"
  shows "raft_log_rel E mem_contents one_entry_storage one_entry_world [data_entry 1 5 [65]]"
proof -
  have E: "ev_big E = False" "entry_value E = entry_value mem_env" "entry_ok E (data_entry 1 5 [65])"
    using assms
    by (auto simp: stuck_env_def mem_env_def entry_ok_def data_entry_def in_i64_def entry_value_def
        head_serialize_def conf_meta_of_def fun_eq_iff)
  have "stored E 7 (mem_contents (lw_db one_entry_world) Raft_Log_Cf) 1 [data_entry 1 5 [65]]"
    by (auto simp: stored_def one_entry_world_def mem_contents_def E data_entry_def in_i64_def
        split: if_splits intro!: exI [of _ 1])
  then show ?thesis
    by (simp add: raft_log_rel_def one_entry_storage_def entries_at_def E tm_tracks_def tm_spec_def)
       (simp add: data_entry_def in_i64_def)
qed

text \<open>
  A failed append changes nothing. If the database refuses the write,
  \<^verbatim>\<open>append_entries\<close> returns -1, leaves the object untouched and the database
  still holds the log that it held before.
\<close>

theorem append_failure_keeps_log:
  assumes "env_ok E contents" and "raft_log_rel E contents st w es" and "new \<noteq> []"
    and "\<And>db ops. fst (rk_write (ev_rocks E) db ops) \<noteq> R_ok"
  shows "\<exists>w'. append_entries E st w new = (-1, st, w') \<and> raft_log_rel E contents st w' es"
proof -
  have "contents (snd (rk_write (ev_rocks E) db ops)) = contents db" for db ops
    using rocks_write [of "ev_rocks E" contents db ops] assms(1) assms(4) [of db ops]
    by (cases "rk_write (ev_rocks E) db ops") (simp add: env_ok_def)
  moreover have "fst (rk_write (ev_rocks E) db ops) = R_ok \<longleftrightarrow> False" for db ops
    using assms(4) by simp
  ultimately show ?thesis
    using assms(2, 3)
    by (auto simp: append_entries_def raft_log_rel_def case_prod_unfold split: option.splits)
qed

theorem append_failure_keeps_log_witness:
  "\<exists>w'. append_entries stuck_env one_entry_storage one_entry_world [data_entry 2 5 [66]] =
      (-1, one_entry_storage, w') \<and>
    raft_log_rel stuck_env mem_contents one_entry_storage w' [data_entry 1 5 [65]]"
  using append_failure_keeps_log [OF stuck_env_ok one_entry_rel, of "[data_entry 2 5 [66]]"]
  by (simp add: stuck_env_def mem_env_def)

text \<open>
  (C36) A failed suffix truncation is reported as success. If the database refuses the
  deletions, \<^verbatim>\<open>truncate_suffix\<close> still returns 0 and lowers the last index, and
  loading the log again brings every truncated entry back.
\<close>

theorem truncate_suffix_failure_undone:
  assumes "env_ok E contents" and "rocks_readable (ev_rocks E)" and "raft_log_rel E contents st w es"
    and "k < ls_last_log_index st" and "\<And>db ops. fst (rk_write (ev_rocks E) db ops) \<noteq> R_ok"
  shows "\<exists>st' w' st2 w2 confs. truncate_suffix E st w k = (0, st', w') \<and> ls_last_log_index st' = k \<and>
    init E (new_log_storage (ls_region_id st) False) w' = Some (0, st2, w2, confs) \<and>
    ls_last_log_index st2 = ls_last_log_index st \<and>
    (\<forall>e \<in> set es. get_entry E st2 w2 (li_index (le_id e)) = Some e)"
proof -
  let ?ops = "map (\<lambda>i. W_delete Raft_Log_Cf (encode_log_data_key (ev_big E) (ls_region_id st) i))
    [k + 1..ls_last_log_index st]"
  obtain s db' where wr: "rk_write (ev_rocks E) (lw_db w) ?ops = (s, db')" by force
  then have "s \<noteq> R_ok" using assms(5) [of "lw_db w" ?ops] by simp
  then have c: "contents db' = contents (lw_db w)"
    using rocks_write [OF _ wr, of contents] assms(1) by (simp add: env_ok_def)
  let ?st' = "st\<lparr>ls_term_map := tm_truncate_suffix (ls_term_map st) k, ls_last_log_index := k\<rparr>"
  let ?w' = "w\<lparr>lw_db := db'\<rparr>"
  have tr: "truncate_suffix E st w k = (0, ?st', ?w')"
    using assms(4) wr by (simp add: truncate_suffix_def Let_def)
  have rel: "raft_log_rel E contents st ?w' es" using assms(3) c by (simp add: raft_log_rel_def)
  obtain st2 w2 where 2: "init E (new_log_storage (ls_region_id st) False) ?w' = Some (0, st2, w2, log_confs E es)"
    "raft_log_rel E contents st2 w2 es" "ls_first_log_index st2 = ls_first_log_index st"
    by (rule init_rel [OF assms(1, 2) rel refl])
  then have "ls_last_log_index st2 = ls_last_log_index st"
    using assms(3) by (simp add: raft_log_rel_def)
  with tr 2 get_entry_rel [OF assms(1, 2) 2(2)] show ?thesis by auto
qed

theorem truncate_suffix_failure_undone_witness:
  "\<exists>st' w' st2 w2 confs. truncate_suffix stuck_env one_entry_storage one_entry_world 0 = (0, st', w') \<and>
    ls_last_log_index st' = 0 \<and>
    init stuck_env (new_log_storage 7 False) w' = Some (0, st2, w2, confs) \<and> ls_last_log_index st2 = 1"
proof -
  have "fst (rk_write (ev_rocks stuck_env) db ops) \<noteq> R_ok" for db ops
    by (simp add: stuck_env_def mem_env_def)
  from truncate_suffix_failure_undone [OF stuck_env_ok stuck_env_readable one_entry_rel _ this, of 0]
  show ?thesis by (auto simp: one_entry_storage_def)
qed

lemma stored_iterates_all:
  assumes "rocks_ok (ev_rocks E) contents" and "rocks_readable (ev_rocks E)"
    and "stored E r (contents db Raft_Log_Cf) f es" and "entries_at E f es"
  shows "rk_iterate (ev_rocks E) db Raft_Log_Cf 9 (encode_log_data_key (ev_big E) r f) =
    (map (entry_kv E r) es, R_ok)"
proof -
  obtain kvs where kvs: "rk_iterate (ev_rocks E) db Raft_Log_Cf 9 (encode_log_data_key (ev_big E) r f) = (kvs, R_ok)"
    by (rule rocks_readable_iterate [OF assms(2)])
  with iterated_entries [OF assms(3, 4) rocks_iterate [OF assms(1) kvs]] show ?thesis by simp
qed

lemma init_loop_refused:
  assumes env: "env_ok E contents" and r: "in_i64 r" and "tm_append tm' (le_id e) = (-1, tm'')"
  shows "entries_at E f (es @ [e]) \<Longrightarrow> append_ids tm_append tm (map le_id es) = (0, tm') \<Longrightarrow>
    \<exists>tm1 l c. init_loop E r (map (entry_kv E r) (es @ [e])) f tm last_index confs = (-1, tm1, l, c)"
proof (induction es arbitrary: f tm last_index confs)
  case Nil
  then have e: "entries_at E f [e]" by simp
  have id: "\<lparr>li_index = f, li_term = li_term (le_id e)\<rparr> = le_id e"
    using entries_at_Cons(1) [OF e] by (simp add: log_id.equality)
  show ?case
    using Nil entries_at_Cons [OF e] r assms(3) head_entry_value [OF env entries_at_Cons(2) [OF e]]
    by (simp add: id not_le)
next
  case (Cons d es)
  note d = entries_at_Cons [OF Cons.prems(1) [simplified]]
  obtain tm1 where tm1: "tm_append tm (le_id d) = (0, tm1)" "append_ids tm_append tm1 (map le_id es) = (0, tm')"
    using Cons.prems(2) by (auto split: prod.splits if_splits)
  have id: "\<lparr>li_index = f, li_term = li_term (le_id d)\<rparr> = le_id d"
    using d(1) by (simp add: log_id.equality)
  note IH = Cons.IH [OF d(4) tm1(2)]
  show ?case
  proof (cases "le_type d = ev_configuration E")
    case True
    then show ?thesis
      using d r tm1(1) head_entry_value [OF env d(2)] parse_entry_value [OF env d(2) True] IH
      by (simp add: id not_le)
  next
    case False
    then show ?thesis
      using d r tm1(1) head_entry_value [OF env d(2)] IH by (simp add: id not_le)
  qed
qed

text \<open>
  (C37) A refused append stays in the database. \<^verbatim>\<open>append_entries\<close> writes the batch before it
  looks at the terms. An entry with a term below that of the last entry is refused with
  -1 and the object is rolled back, but the entry stays in RocksDB: the next
  \<^verbatim>\<open>init\<close> of the region finds it and fails.
\<close>

theorem refused_append_breaks_init:
  assumes "env_ok E contents" and "rocks_up (ev_rocks E)" and "raft_log_rel E contents st w es"
    and "es \<noteq> []" and "entries_at E (ls_last_log_index st + 1) [e]"
    and "li_term (le_id e) < li_term (le_id (last es))"
  shows "\<exists>st' w' st2 w2 confs. append_entries E st w [e] = (-1, st', w') \<and>
    ls_last_log_index st' = ls_last_log_index st \<and>
    init E (new_log_storage (ls_region_id st) False) w' = Some (-1, st2, w2, confs)"
proof -
  let ?f = "ls_first_log_index st" and ?r = "ls_region_id st"
  have rocks: "rocks_ok (ev_rocks E) contents" using assms(1) by (simp add: env_ok_def)
  have nb: "\<not> ls_is_binlog_region st" and r: "in_i64 ?r" and es: "entries_at E ?f es"
    and last: "ls_last_log_index st + 1 = ?f + int (length es)"
    and t: "tm_tracks (ls_term_map st) ?f (map (\<lambda>e. li_term (le_id e)) es)"
    and st: "stored E ?r (contents (lw_db w) Raft_Log_Cf) ?f es"
    and sorted: "sorted (map (\<lambda>e. li_term (le_id e)) es)"
    using assms(3) by (simp_all add: raft_log_rel_def)
  note new = assms(5) [unfolded last]
  have idx: "li_index (le_id e) = ?f + int (length es)" and ok: "entry_ok E e"
    using entries_at_Cons(1, 2) [OF new] by simp_all
  have id: "le_id e = \<lparr>li_index = ?f + int (length (map (\<lambda>e. li_term (le_id e)) es)), li_term = li_term (le_id e)\<rparr>"
    using idx by (simp add: log_id.equality)
  have stale: "tm_append q (le_id e) = (-1, q)" if "tm_tracks q ?f (map (\<lambda>e. li_term (le_id e)) es)" for q
  proof -
    have "tm_append q \<lparr>li_index = ?f + int (length (map (\<lambda>e. li_term (le_id e)) es)), li_term = li_term (le_id e)\<rparr> = (-1, q)"
      by (rule tmi.app_stale [OF that tmi.floor_last [OF that]])
        (use assms(4, 6) in \<open>simp_all add: last_map\<close>)
    then show ?thesis by (simp only: id [symmetric])
  qed
  obtain db' where wr: "rk_write (ev_rocks E) (lw_db w)
      [W_put Raft_Log_Cf (encode_log_data_key (ev_big E) ?r (li_index (le_id e))) (entry_value E e)] = (R_ok, db')"
    and c: "contents db' = fold apply_op
      [W_put Raft_Log_Cf (encode_log_data_key (ev_big E) ?r (li_index (le_id e))) (entry_value E e)] (contents (lw_db w))"
    by (rule rocks_up_write [OF rocks assms(2)])
  let ?st' = "st\<lparr>ls_term_map := tm_truncate_suffix (ls_term_map st) (ls_last_log_index st)\<rparr>"
  have app: "append_entries E st w [e] = (-1, ?st', w\<lparr>lw_db := db'\<rparr>)"
    using last idx wr build_entry_value [OF assms(1) ok nb] stale [OF t] by (simp add: append_entries_def)
  have c': "contents db' Raft_Log_Cf = (\<lambda>k. case entry_kvs E ?r [e] k of
      None \<Rightarrow> contents (lw_db w) Raft_Log_Cf k | Some v \<Rightarrow> Some v)"
    using c by (auto simp: entry_kvs_def fun_eq_iff)
  have st': "stored E ?r (contents db' Raft_Log_Cf) ?f (es @ [e])"
    unfolding c' by (rule stored_append [OF st es new])
  have es': "entries_at E ?f (es @ [e])" by (rule entries_at_append [OF es new])
  obtain tm where tm: "append_ids tm_append [] (map le_id es) = (0, tm)"
    "tm_tracks tm ?f (map (\<lambda>e. li_term (le_id e)) es)"
    using tmi.append_ids_ok [of "[]" ?f "[]" "map (\<lambda>e. li_term (le_id e)) es" "map le_id es"] sorted
      map_entry_ids [of E ?f 0 es] es tmi.reset_ok [of "[]" ?f]
    by (auto simp: tm_reset_def tm_floor_def)
  obtain tm1 l cf where loop: "init_loop E ?r (map (entry_kv E ?r) (es @ [e])) ?f [] 0 [] = (-1, tm1, l, cf)"
    using init_loop_refused [OF assms(1) r stale [OF tm(2)] es' tm(1)] by blast
  have get: "rk_get (ev_rocks E) db' Raft_Log_Cf (encode_log_meta_key (ev_big E) ?r) =
      (R_ok, mem_bytes (ev_big E) 8 (word_of_int ?f :: 64 word))"
    using st' by (intro rocks_up_get(1) [OF rocks rocks_up_readable [OF assms(2)]]) (simp add: stored_def)
  have f: "in_i64 ?f" using es' by (auto simp: entries_at_def in_i64_def)
  have "\<exists>st2 w2 confs. init E (new_log_storage ?r False) (w\<lparr>lw_db := db'\<rparr>) = Some (-1, st2, w2, confs)"
    using get loop f stored_iterates_all [OF rocks rocks_up_readable [OF assms(2)] st' es']
    by (simp add: init_def init_scan_def new_log_storage_def LOG_META_KEY_SIZE_def Let_def mem_bytes_inverse)
  with app show ?thesis by auto
qed

theorem refused_append_breaks_init_witness:
  "\<exists>st' w' st2 w2 confs. append_entries mem_env one_entry_storage one_entry_world [data_entry 2 3 [66]] = (-1, st', w') \<and>
    init mem_env (new_log_storage 7 False) w' = Some (-1, st2, w2, confs)"
proof -
  have "entries_at mem_env (ls_last_log_index one_entry_storage + 1) [data_entry 2 3 [66]]"
    by (simp add: one_entry_storage_def entries_at_def entry_ok_def data_entry_def mem_env_def in_i64_def)
  from refused_append_breaks_init [OF mem_env_ok mem_env_up one_entry_rel _ this]
  show ?thesis by (auto simp: data_entry_def one_entry_storage_def)
qed

section \<open>Binlog regions\<close>

text \<open>
  Binlog entries. In a binlog region a prewrite request is stored under its timestamp
  in the binlog column family and only a stub of it in the log. Reading the entry
  back after \<^verbatim>\<open>append_entries\<close> returns the original entry with its full payload.
\<close>

theorem binlog_entry_round_trip:
  assumes env: "env_ok E contents" and up: "rocks_up (ev_rocks E)"
    and st: "ls_is_binlog_region st" "ev_has_binlog_cf E" "ls_term_map st = []"
    and e: "e = new_entry \<lparr>li_index = ls_last_log_index st + 1, li_term = t\<rparr> (ev_data E)\<lparr>le_data := d\<rparr>" "in_i64 t"
    and req: "ev_parse_req E d = Some q" "sr_op_type q = OP_PREWRITE_BINLOG" "sr_binlog_desc q = Some desc"
    and stub: "ev_ser_req E (q\<lparr>sr_rest := []\<rparr>) = Some b" "ev_parse_req E b = Some (q\<lparr>sr_rest := []\<rparr>)"
  shows "\<exists>st' w'. append_entries E st w [e] = (1, st', w') \<and>
    get_entry E st' w' (ls_last_log_index st + 1) = Some e"
proof -
  let ?i = "ls_last_log_index st + 1" and ?id = "\<lparr>li_index = ls_last_log_index st + 1, li_term = t\<rparr>"
  let ?k = "encode_log_data_key (ev_big E) (ls_region_id st) ?i"
  let ?head = "head_serialize E t (ev_data E)"
  let ?ops = "[W_put Raft_Log_Cf ?k (?head @ b), W_put Bin_Log_Cf (binlog_key (ev_big E) (bd_binlog_ts desc)) d]"
  have rocks: "rocks_ok (ev_rocks E) contents" using env by (simp add: env_ok_def)
  note get = rocks_up_get(1) [OF rocks rocks_up_readable [OF up]]
  obtain db' where wr: "rk_write (ev_rocks E) (lw_db w) ?ops = (R_ok, db')"
    and c: "contents db' = fold apply_op ?ops (contents (lw_db w))"
    by (rule rocks_up_write [OF rocks up])
  have q: "\<lparr>sr_op_type = OP_PREWRITE_BINLOG, sr_region_id = sr_region_id q, sr_region_version = sr_region_version q,
      sr_binlog_desc = Some desc, sr_rest = []\<rparr> = q\<lparr>sr_rest := []\<rparr>"
    using req(2, 3) by simp
  have "build_key_value E st e = Some ((?k, ?head @ b), [(binlog_key (ev_big E) (bd_binlog_ts desc), d)])"
    using st req stub(1) e(1)
    by (simp add: build_key_value_def construct_binlog_slices_def new_entry_def q Let_def)
  then have app: "append_entries E st w [e] =
      (1, st\<lparr>ls_term_map := [?id], ls_last_log_index := ls_last_log_index st + 1\<rparr>, w\<lparr>lw_db := db'\<rparr>)"
    using wr e(1) st(3) by (simp add: append_entries_def new_entry_def tm_append_def)
  have "rk_get (ev_rocks E) db' Raft_Log_Cf ?k = (R_ok, ?head @ b)"
    and "rk_get (ev_rocks E) db' Bin_Log_Cf (binlog_key (ev_big E) (bd_binlog_ts desc)) = (R_ok, d)"
    by (rule get; simp add: c)+
  moreover have "length ?head = 12" and "head_of E (?head @ b) = (t, ev_data E)"
    using env e(2) by (auto simp: env_ok_def head_serialize_def head_of_def)
  ultimately have "get_entry E (st\<lparr>ls_term_map := [?id], ls_last_log_index := ls_last_log_index st + 1\<rparr>)
      (w\<lparr>lw_db := db'\<rparr>) ?i = Some e"
    using st req stub(2) e(1)
    by (simp add: get_entry_def get_binlog_entry_def get_binlog_value_def LOG_HEAD_SIZE_def Let_def)
  with app show ?thesis by blast
qed

theorem binlog_entry_round_trip_witness:
  "\<exists>st' w'. append_entries mem_env (new_log_storage 7 True) mem_world
      [new_entry \<lparr>li_index = 1, li_term = 2\<rparr> 2\<lparr>le_data := [66]\<rparr>] = (1, st', w') \<and>
    get_entry mem_env st' w' 1 = Some (new_entry \<lparr>li_index = 1, li_term = 2\<rparr> 2\<lparr>le_data := [66]\<rparr>)"
  using binlog_entry_round_trip [OF mem_env_ok mem_env_up, where st = "new_log_storage 7 True"
      and e = "new_entry \<lparr>li_index = 1, li_term = 2\<rparr> 2\<lparr>le_data := [66]\<rparr>" and t = 2 and d = "[66]"
      and q = "\<lparr>sr_op_type = 61, sr_region_id = 1, sr_region_version = 1,
        sr_binlog_desc = Some \<lparr>bd_binlog_ts = 7, bd_rest = []\<rparr>, sr_rest = [66]\<rparr>"
      and desc = "\<lparr>bd_binlog_ts = 7, bd_rest = []\<rparr>" and b = "[]" and w = mem_world]
  by (simp add: mem_env_def new_log_storage_def in_i64_def OP_PREWRITE_BINLOG_def)

end
