(* ===== verification/MetaCommon.thy ===== *)
theory MetaCommon
  imports Rocks
begin

text \<open>
  What the managers of the meta server share: the error codes of the protocol, the
  messages they store, the tables they keep in memory (one record, \<open>meta_state\<close>, since the
  managers are singletons that call each other), the store of meta information
  (\<^verbatim>\<open>src/meta_server/meta_rocksdb.cpp\<close>), the keys in it and the accessors of
  \<^verbatim>\<open>include/meta_server/namespace_manager.h\<close> and
  \<^verbatim>\<open>include/meta_server/database_manager.h\<close>. Strings are byte strings. A protobuf message is a
  record: an optional field is an option, \<^verbatim>\<open>has_f\<close> is that it is not \<^term>\<open>None\<close>,
  nested messages that are only copied are byte strings. A handler returns the error
  code of the response it fills in and the new state.
\<close>

section \<open>Error codes and messages\<close>

datatype errcode = SUCCESS | NOT_LEADER | PARSE_FROM_PB_FAIL | PARSE_TO_PB_FAIL | UNSUPPORT_REQ_TYPE
  | INPUT_PARAM_ERROR | INTERNAL_ERROR | EXEC_FAIL | RETRY_LATER

definition get_or :: "'a \<Rightarrow> 'a option \<Rightarrow> 'a" where
  "get_or d x = (case x of None \<Rightarrow> d | Some v \<Rightarrow> v)"

lemma get_or_simps [simp]: "get_or d None = d" "get_or d (Some v) = v"
  by (simp_all add: get_or_def)

text \<open>Protobuf's \<^verbatim>\<open>if (a.has_f()) b.set_f(a.f())\<close>, and the same for a repeated field.\<close>

definition set_if :: "'a option \<Rightarrow> 'a option \<Rightarrow> 'a option" where
  "set_if a b = (case a of None \<Rightarrow> b | Some v \<Rightarrow> Some v)"

definition set_if_rep :: "'a list \<Rightarrow> 'a list \<Rightarrow> 'a list" where
  "set_if_rep a b = (if a = [] then b else a)"

record namespace_info =
  ni_namespace_name :: bytes
  ni_namespace_id :: "int option"
  ni_quota :: "int option"
  ni_version :: "int option"
  ni_deleted :: "bool option"
  ni_resource_tag :: "bytes option"
  ni_engine :: "int option"
  ni_charset :: "int option"
  ni_byte_size_per_record :: "int option"
  ni_replica_num :: "int option"
  ni_region_split_lines :: "int option"
  ni_if_exist :: "bool option"
  ni_dists :: "bytes list"
  ni_main_logical_room :: "bytes option"
  ni_learner_resource_tags :: "bytes list"
  ni_binlog_infos :: "bytes list"

record database_info =
  di_database :: bytes
  di_database_id :: "int option"
  di_namespace_name :: bytes
  di_namespace_id :: "int option"
  di_quota :: "int option"
  di_version :: "int option"
  di_deleted :: "bool option"
  di_resource_tag :: "bytes option"
  di_engine :: "int option"
  di_charset :: "int option"
  di_byte_size_per_record :: "int option"
  di_replica_num :: "int option"
  di_region_split_lines :: "int option"
  di_dists :: "bytes list"
  di_main_logical_room :: "bytes option"
  di_learner_resource_tags :: "bytes list"
  di_binlog_infos :: "bytes list"
  di_partition_info_str :: "bytes option"

text \<open>The enumeration \<^verbatim>\<open>RW\<close> is 1 for reading, 2 for writing; its default is reading.\<close>

record privilege_database =
  pd_database :: bytes
  pd_database_id :: "int option"
  pd_database_rw :: "nat option"
  pd_force :: "bool option"
  pd_acl :: "32 word option"

record privilege_table =
  pt_database :: bytes
  pt_database_id :: "int option"
  pt_table_name :: bytes
  pt_table_id :: "int option"
  pt_table_rw :: "nat option"
  pt_force :: "bool option"
  pt_acl :: "32 word option"

record user_privilege =
  up_username :: bytes
  up_password :: "bytes option"
  up_namespace_name :: bytes
  up_namespace_id :: "int option"
  up_privilege_database :: "privilege_database list"
  up_privilege_table :: "privilege_table list"
  up_bns :: "bytes list"
  up_ip :: "bytes list"
  up_version :: "int option"
  up_encrypt :: "bool option"
  up_need_auth_addr :: "bool option"
  up_resource_tag :: "bytes option"
  up_ddl_permission :: "bool option"
  up_txn_lock_timeout :: "int option"
  up_use_read_index :: "bool option"
  up_enable_plan_cache :: "bool option"
  up_request_range_partition_type :: "int option"
  up_is_super :: "bool option"
  up_switch_tables :: "int list"
  up_acl :: "32 word option"
  up_if_exist :: "bool option"
  up_is_request_additional :: "bool option"

section \<open>The meta information in RocksDB\<close>

definition put_meta_info :: "'db rocks \<Rightarrow> bytes \<Rightarrow> bytes \<Rightarrow> 'db \<Rightarrow> int \<times> 'db" where
  "put_meta_info R key value db =
     (case rk_put R db Meta_Info_Cf key value of (status, db') \<Rightarrow> (if status \<noteq> R_ok then -1 else 0, db'))"

definition put_meta_infos :: "'db rocks \<Rightarrow> bytes list \<Rightarrow> bytes list \<Rightarrow> 'db \<Rightarrow> int \<times> 'db" where
  "put_meta_infos R keys values db =
     (if length keys \<noteq> length values then (-1, db)
      else case rk_write R db (map (\<lambda>(k, v). W_put Meta_Info_Cf k v) (zip keys values)) of
        (status, db') \<Rightarrow> (if status \<noteq> R_ok then -1 else 0, db'))"

definition get_meta_info :: "'db rocks \<Rightarrow> bytes \<Rightarrow> 'db \<Rightarrow> int \<times> bytes" where
  "get_meta_info R key db =
     (case rk_get R db Meta_Info_Cf key of (status, value) \<Rightarrow> (if status \<noteq> R_ok then -1 else 0, value))"

definition delete_meta_info :: "'db rocks \<Rightarrow> bytes list \<Rightarrow> 'db \<Rightarrow> int \<times> 'db" where
  "delete_meta_info R keys db =
     (case rk_write R db (map (W_delete Meta_Info_Cf) keys) of
        (status, db') \<Rightarrow> (if status \<noteq> R_ok then -1 else 0, db'))"

definition write_meta_info ::
  "'db rocks \<Rightarrow> bytes list \<Rightarrow> bytes list \<Rightarrow> bytes list \<Rightarrow> 'db \<Rightarrow> int \<times> 'db" where
  "write_meta_info R put_keys put_values delete_keys db =
     (if length put_keys \<noteq> length put_values then (-1, db)
      else case rk_write R db (map (\<lambda>(k, v). W_put Meta_Info_Cf k v) (zip put_keys put_values) @
             map (W_delete Meta_Info_Cf) delete_keys) of
        (status, db') \<Rightarrow> (if status \<noteq> R_ok then -1 else 0, db'))"

definition SCHEMA_IDENTIFY :: bytes where "SCHEMA_IDENTIFY = [2]"
definition PRIVILEGE_IDENTIFY :: bytes where "PRIVILEGE_IDENTIFY = [3]"
definition MAX_ID_SCHEMA_IDENTIFY :: bytes where "MAX_ID_SCHEMA_IDENTIFY = [1]"
definition NAMESPACE_SCHEMA_IDENTIFY :: bytes where "NAMESPACE_SCHEMA_IDENTIFY = [2]"
definition DATABASE_SCHEMA_IDENTIFY :: bytes where "DATABASE_SCHEMA_IDENTIFY = [3]"

definition TABLE_SCHEMA_IDENTIFY :: bytes where "TABLE_SCHEMA_IDENTIFY = [4]"
definition REGION_SCHEMA_IDENTIFY :: bytes where "REGION_SCHEMA_IDENTIFY = [5]"
definition DDLWORK_IDENTIFY :: bytes where "DDLWORK_IDENTIFY = [6]"
definition STATISTICS_IDENTIFY :: bytes where "STATISTICS_IDENTIFY = [7]"
definition INDEX_DDLWORK_REGION_IDENTIFY :: bytes where "INDEX_DDLWORK_REGION_IDENTIFY = [8]"

text \<open>\<open>bytes_of\<close> reads a string literal of the source.\<close>

definition bytes_of :: "string \<Rightarrow> bytes" where
  "bytes_of s = map (\<lambda>c. of_nat (of_char c)) s"

definition MAX_NAMESPACE_ID_KEY :: bytes where "MAX_NAMESPACE_ID_KEY = bytes_of ''max_namespace_id''"
definition MAX_DATABASE_ID_KEY :: bytes where "MAX_DATABASE_ID_KEY = bytes_of ''max_database_id''"
definition MAX_TABLE_ID_KEY :: bytes where "MAX_TABLE_ID_KEY = bytes_of ''max_table_id''"
definition MAX_REGION_ID_KEY :: bytes where "MAX_REGION_ID_KEY = bytes_of ''max_region_id''"

definition construct_namespace_key :: "bool \<Rightarrow> int \<Rightarrow> bytes" where
  "construct_namespace_key big namespace_id =
     SCHEMA_IDENTIFY @ NAMESPACE_SCHEMA_IDENTIFY @ mem_bytes big 8 (word_of_int namespace_id :: 64 word)"

definition construct_max_namespace_id_key :: bytes where
  "construct_max_namespace_id_key = SCHEMA_IDENTIFY @ MAX_ID_SCHEMA_IDENTIFY @ MAX_NAMESPACE_ID_KEY"

definition construct_database_key :: "bool \<Rightarrow> int \<Rightarrow> bytes" where
  "construct_database_key big database_id =
     SCHEMA_IDENTIFY @ DATABASE_SCHEMA_IDENTIFY @ mem_bytes big 8 (word_of_int database_id :: 64 word)"

definition construct_max_database_id_key :: bytes where
  "construct_max_database_id_key = SCHEMA_IDENTIFY @ MAX_ID_SCHEMA_IDENTIFY @ MAX_DATABASE_ID_KEY"

definition construct_privilege_key :: "bytes \<Rightarrow> bytes" where
  "construct_privilege_key username = PRIVILEGE_IDENTIFY @ username"

section \<open>The state\<close>

text \<open>
  The serialisation of the messages, RocksDB, the byte order and the order in which
  a hash set of names is visited are parameters.
\<close>

record 'db meta_env =
  me_rocks :: "'db rocks"
  me_big :: bool
  me_ser_ns :: "namespace_info \<Rightarrow> bytes option"
  me_parse_ns :: "bytes \<Rightarrow> namespace_info option"
  me_ser_db :: "database_info \<Rightarrow> bytes option"
  me_parse_db :: "bytes \<Rightarrow> database_info option"
  me_ser_user :: "user_privilege \<Rightarrow> bytes option"
  me_parse_user :: "bytes \<Rightarrow> user_privilege option"
  me_visit :: "bytes set \<Rightarrow> bytes list"

text \<open>Of the table manager only the two maps the other managers look into.\<close>

record 'db meta_state =
  ms_db :: 'db
  ms_max_namespace_id :: int
  ms_namespace_id_map :: "bytes \<rightharpoonup> int"
  ms_namespace_info_map :: "int \<rightharpoonup> namespace_info"
  ms_database_ids :: "int \<rightharpoonup> int set"
  ms_max_database_id :: int
  ms_database_id_map :: "bytes \<rightharpoonup> int"
  ms_database_info_map :: "int \<rightharpoonup> database_info"
  ms_table_ids :: "int \<rightharpoonup> int set"
  ms_user_privilege :: "bytes \<rightharpoonup> user_privilege"
  ms_db_user_map :: "int \<rightharpoonup> bytes set"
  ms_tbl_user_map :: "int \<rightharpoonup> bytes set"
  ms_table_id_map :: "bytes \<rightharpoonup> int"
  ms_table_info_map :: "int \<rightharpoonup> unit"

record meta_request =
  mr_namespace_info :: namespace_info
  mr_database_info :: database_info
  mr_user_privilege :: "user_privilege option"
  mr_is_force_setting :: bool

text \<open>\<^verbatim>\<open>m[k]\<close> on a map of sets: the set, which is added to the map if it is not there.\<close>

definition set_at :: "('k \<rightharpoonup> 'v set) \<Rightarrow> 'k \<Rightarrow> 'v set" where
  "set_at m k = get_or {} (m k)"

definition touch :: "'k \<Rightarrow> ('k \<rightharpoonup> 'v set) \<Rightarrow> ('k \<rightharpoonup> 'v set)" where
  "touch k m = m(k \<mapsto> set_at m k)"

section \<open>Accessors\<close>

definition set_namespace_info :: "namespace_info \<Rightarrow> 'db meta_state \<Rightarrow> 'db meta_state" where
  "set_namespace_info info s =
     s\<lparr>ms_namespace_id_map := (ms_namespace_id_map s)(ni_namespace_name info \<mapsto> get_or 0 (ni_namespace_id info)),
       ms_namespace_info_map := (ms_namespace_info_map s)(get_or 0 (ni_namespace_id info) \<mapsto> info)\<rparr>"

definition erase_namespace_info :: "bytes \<Rightarrow> 'db meta_state \<Rightarrow> 'db meta_state" where
  "erase_namespace_info namespace_name s =
     (let namespace_id = get_or 0 (ms_namespace_id_map s namespace_name) in
      s\<lparr>ms_namespace_id_map := (ms_namespace_id_map s)(namespace_name := None),
        ms_namespace_info_map := (ms_namespace_info_map s)(namespace_id := None),
        ms_database_ids := (ms_database_ids s)(namespace_id := None)\<rparr>)"

definition add_database_id :: "int \<Rightarrow> int \<Rightarrow> 'db meta_state \<Rightarrow> 'db meta_state" where
  "add_database_id namespace_id database_id s =
     s\<lparr>ms_database_ids := (ms_database_ids s)
         (namespace_id \<mapsto> insert database_id (set_at (ms_database_ids s) namespace_id))\<rparr>"

definition delete_database_id :: "int \<Rightarrow> int \<Rightarrow> 'db meta_state \<Rightarrow> 'db meta_state" where
  "delete_database_id namespace_id database_id s =
     s\<lparr>ms_database_ids := (case ms_database_ids s namespace_id of
         None \<Rightarrow> ms_database_ids s
       | Some ids \<Rightarrow> (ms_database_ids s)(namespace_id \<mapsto> ids - {database_id}))\<rparr>"

definition get_namespace_id :: "bytes \<Rightarrow> 'db meta_state \<Rightarrow> int" where
  "get_namespace_id namespace_name s = get_or 0 (ms_namespace_id_map s namespace_name)"

definition get_namespace_info :: "int \<Rightarrow> 'db meta_state \<Rightarrow> namespace_info option" where
  "get_namespace_info namespace_id s = ms_namespace_info_map s namespace_id"

definition get_resource_tag :: "int \<Rightarrow> 'db meta_state \<Rightarrow> bytes" where
  "get_resource_tag namespace_id s =
     (case ms_namespace_info_map s namespace_id of None \<Rightarrow> [] | Some info \<Rightarrow> get_or [] (ni_resource_tag info))"

definition namespace_clear :: "'db meta_state \<Rightarrow> 'db meta_state" where
  "namespace_clear s =
     s\<lparr>ms_namespace_id_map := Map.empty, ms_namespace_info_map := Map.empty, ms_database_ids := Map.empty\<rparr>"

text \<open>The name of a database in the tables: the namespace, the byte 1, the database.\<close>

definition full_name :: "bytes \<Rightarrow> bytes \<Rightarrow> bytes" where
  "full_name namespace_name database = namespace_name @ [1] @ database"

definition set_database_info :: "database_info \<Rightarrow> 'db meta_state \<Rightarrow> 'db meta_state" where
  "set_database_info info s =
     s\<lparr>ms_database_id_map := (ms_database_id_map s)
         (full_name (di_namespace_name info) (di_database info) \<mapsto> get_or 0 (di_database_id info)),
       ms_database_info_map := (ms_database_info_map s)(get_or 0 (di_database_id info) \<mapsto> info)\<rparr>"

definition erase_database_info :: "bytes \<Rightarrow> 'db meta_state \<Rightarrow> 'db meta_state" where
  "erase_database_info database_name s =
     (let database_id = get_or 0 (ms_database_id_map s database_name) in
      s\<lparr>ms_database_id_map := (ms_database_id_map s)(database_name := None),
        ms_database_info_map := (ms_database_info_map s)(database_id := None),
        ms_table_ids := (ms_table_ids s)(database_id := None)\<rparr>)"

definition database_add_table_id :: "int \<Rightarrow> int \<Rightarrow> 'db meta_state \<Rightarrow> 'db meta_state" where
  "database_add_table_id database_id table_id s =
     s\<lparr>ms_table_ids := (ms_table_ids s)(database_id \<mapsto> insert table_id (set_at (ms_table_ids s) database_id))\<rparr>"

definition database_delete_table_id :: "int \<Rightarrow> int \<Rightarrow> 'db meta_state \<Rightarrow> 'db meta_state" where
  "database_delete_table_id database_id table_id s =
     s\<lparr>ms_table_ids := (case ms_table_ids s database_id of
         None \<Rightarrow> ms_table_ids s
       | Some ids \<Rightarrow> (ms_table_ids s)(database_id \<mapsto> ids - {table_id}))\<rparr>"

definition get_database_id :: "bytes \<Rightarrow> 'db meta_state \<Rightarrow> int" where
  "get_database_id database_name s = get_or 0 (ms_database_id_map s database_name)"

definition get_database_info :: "int \<Rightarrow> 'db meta_state \<Rightarrow> database_info option" where
  "get_database_info database_id s = ms_database_info_map s database_id"

definition get_table_ids :: "int \<Rightarrow> 'db meta_state \<Rightarrow> int set option" where
  "get_table_ids database_id s = ms_table_ids s database_id"

definition database_clear :: "'db meta_state \<Rightarrow> 'db meta_state" where
  "database_clear s =
     s\<lparr>ms_database_id_map := Map.empty, ms_database_info_map := Map.empty, ms_table_ids := Map.empty\<rparr>"

definition get_table_id :: "bytes \<Rightarrow> 'db meta_state \<Rightarrow> int" where
  "get_table_id table_name s = get_or 0 (ms_table_id_map s table_name)"

end
