(* ===== verification/TsoStateMachine.thy ===== *)
theory TsoStateMachine
  imports MetaCommon
begin

text \<open>
  The timestamp oracle of the meta server, \<^verbatim>\<open>TSOStateMachine\<close> in
  \<^verbatim>\<open>src/meta_server/tso_state_machine.cpp\<close> with the constants of
  \<^verbatim>\<open>include/common/common.h\<close>. A node is the record \<open>tso_node\<close>. The clock, raft
  (which orders the proposals of all nodes into one log) and the other threads that
  run while a request sleeps are parameters. Timestamps are 64-bit; the code adds
  milliseconds to them far below the bound, so they are integers.
\<close>

section \<open>State and messages\<close>

definition update_timestamp_guard_ms :: int where "update_timestamp_guard_ms = 1"
definition save_interval_ms :: int where "save_interval_ms = 3000"
definition max_logical :: int where "max_logical = 262144"

record tso_timestamp =
  ts_physical :: int
  ts_logical :: int

record tso_node =
  tn_current :: tso_timestamp
  tn_last_save_physical :: int
  tn_is_leader :: bool
  tn_is_healty :: bool

datatype tso_op = OP_GEN_TSO | OP_QUERY_TSO_INFO | OP_RESET_TSO | OP_UPDATE_TSO | OP_OTHER

record tso_request =
  tq_op_type :: tso_op
  tq_count :: int
  tq_current_timestamp :: "tso_timestamp option"
  tq_save_physical :: "int option"
  tq_force :: bool

record tso_response =
  tr_errcode :: "errcode option"
  tr_start_timestamp :: "tso_timestamp option"
  tr_count :: "int option"
  tr_save_physical :: "int option"

definition tso_error :: "errcode \<Rightarrow> tso_response" where
  "tso_error e = \<lparr>tr_errcode = Some e, tr_start_timestamp = None, tr_count = None, tr_save_physical = None\<rparr>"

definition no_timestamp :: tso_timestamp where
  "no_timestamp = \<lparr>ts_physical = 0, ts_logical = 0\<rparr>"

definition tso_init :: tso_node where
  "tso_init = \<lparr>tn_current = no_timestamp, tn_last_save_physical = 0, tn_is_leader = False, tn_is_healty = True\<rparr>"

section \<open>Handing out timestamps\<close>

text \<open>One turn of the loop of \<^verbatim>\<open>gen_tso\<close>, under the lock: the timestamp, or
  \<^term>\<open>None\<close> if it has to be tried again.\<close>

definition gen_attempt :: "int \<Rightarrow> tso_node \<Rightarrow> tso_timestamp option \<times> tso_node" where
  "gen_attempt count node =
     (let current = tn_current node in
      if ts_physical current \<noteq> 0 then
        let new_logical = ts_logical current + count in
        if new_logical < max_logical
        then (Some current, node\<lparr>tn_current := current\<lparr>ts_logical := new_logical\<rparr>\<rparr>)
        else (None, node)
      else (None, node))"

text \<open>\<open>others i\<close> is what the other threads do to the node during the sleep after
  the attempt with \<open>i\<close> attempts left.\<close>

fun gen_loop :: "nat \<Rightarrow> int \<Rightarrow> (nat \<Rightarrow> tso_node \<Rightarrow> tso_node) \<Rightarrow> tso_node \<Rightarrow> tso_timestamp option \<times> tso_node" where
  "gen_loop 0 count others node = (None, node)"
| "gen_loop (Suc i) count others node =
     (case gen_attempt count node of
        (Some current, node') \<Rightarrow> (Some current, node')
      | (None, node') \<Rightarrow> gen_loop i count others (others i node'))"

definition gen_tso ::
  "tso_request \<Rightarrow> (nat \<Rightarrow> tso_node \<Rightarrow> tso_node) \<Rightarrow> tso_node \<Rightarrow> tso_response \<times> tso_node" where
  "gen_tso request others node =
     (let count = tq_count request in
      if count = 0 then (tso_error INPUT_PARAM_ERROR, node)
      else if \<not> tn_is_healty node then (tso_error RETRY_LATER, node)
      else case gen_loop 50 count others node of
        (None, node') \<Rightarrow> (tso_error EXEC_FAIL, node')
      | (Some current, node') \<Rightarrow>
          (\<lparr>tr_errcode = Some SUCCESS, tr_start_timestamp = Some current, tr_count = Some count,
            tr_save_physical = None\<rparr>, node'))"

section \<open>Replicated commands\<close>

definition current_timestamp :: "tso_request \<Rightarrow> tso_timestamp" where
  "current_timestamp request =
     (case tq_current_timestamp request of None \<Rightarrow> no_timestamp | Some t \<Rightarrow> t)"

definition save_physical :: "tso_request \<Rightarrow> int" where
  "save_physical request = (case tq_save_physical request of None \<Rightarrow> 0 | Some p \<Rightarrow> p)"

definition falls_back :: "tso_request \<Rightarrow> tso_node \<Rightarrow> bool" where
  "falls_back request node \<longleftrightarrow> save_physical request < tn_last_save_physical node \<or>
     ts_physical (current_timestamp request) < ts_physical (tn_current node)"

definition reset_tso :: "tso_request \<Rightarrow> tso_node \<Rightarrow> tso_response \<times> tso_node" where
  "reset_tso request node =
     (if tq_current_timestamp request \<noteq> None \<and> tq_save_physical request \<noteq> None then
        (if falls_back request node \<and> \<not> tq_force request then
           (\<lparr>tr_errcode = Some INTERNAL_ERROR, tr_start_timestamp = Some (tn_current node), tr_count = None,
             tr_save_physical = Some (tn_last_save_physical node)\<rparr>, node)
         else
           (\<lparr>tr_errcode = Some SUCCESS, tr_start_timestamp = Some (current_timestamp request),
             tr_count = None, tr_save_physical = Some (save_physical request)\<rparr>,
            node\<lparr>tn_is_healty := True, tn_last_save_physical := save_physical request,
                 tn_current := current_timestamp request\<rparr>))
      else (\<lparr>tr_errcode = None, tr_start_timestamp = None, tr_count = None, tr_save_physical = None\<rparr>, node))"

definition update_tso :: "tso_request \<Rightarrow> tso_node \<Rightarrow> tso_response \<times> tso_node" where
  "update_tso request node =
     (if falls_back request node then (tso_error INTERNAL_ERROR, node)
      else (tso_error SUCCESS, node\<lparr>tn_last_save_physical := save_physical request,
              tn_current := current_timestamp request\<rparr>))"

text \<open>One entry of the raft log: \<^term>\<open>None\<close> is one that does not parse.\<close>

definition on_apply_one :: "tso_request option \<Rightarrow> tso_node \<Rightarrow> tso_response \<times> tso_node" where
  "on_apply_one entry node =
     (case entry of
        None \<Rightarrow> (tso_error PARSE_FROM_PB_FAIL, node)
      | Some request \<Rightarrow>
          (case tq_op_type request of
             OP_RESET_TSO \<Rightarrow> reset_tso request node
           | OP_UPDATE_TSO \<Rightarrow> update_tso request node
           | _ \<Rightarrow> (tso_error UNSUPPORT_REQ_TYPE, node)))"

fun on_apply :: "tso_request option list \<Rightarrow> tso_node \<Rightarrow> tso_response list \<times> tso_node" where
  "on_apply [] node = ([], node)"
| "on_apply (entry # entries) node =
     (case on_apply_one entry node of (r, node') \<Rightarrow>
        case on_apply entries node' of (rs, node'') \<Rightarrow> (r # rs, node''))"

section \<open>Requests and proposals\<close>

text \<open>
  What \<^verbatim>\<open>process\<close> does with a request: answer it, or propose it to raft. A query also
  reports the leader and the clock, which are left out.
\<close>

datatype process_result = Answer tso_response | Propose tso_request

definition process ::
  "tso_request \<Rightarrow> (nat \<Rightarrow> tso_node \<Rightarrow> tso_node) \<Rightarrow> tso_node \<Rightarrow> process_result \<times> tso_node" where
  "process request others node =
     (if tq_op_type request = OP_QUERY_TSO_INFO then
        (Answer \<lparr>tr_errcode = Some SUCCESS, tr_start_timestamp = Some (tn_current node), tr_count = None,
           tr_save_physical = Some (tn_last_save_physical node)\<rparr>, node)
      else if \<not> tn_is_leader node then (Answer (tso_error NOT_LEADER), node)
      else if tq_op_type request = OP_GEN_TSO then
        (case gen_tso request others node of (r, node') \<Rightarrow> (Answer r, node'))
      else (Propose request, node))"

definition sync_request :: "tso_timestamp \<Rightarrow> int \<Rightarrow> tso_request" where
  "sync_request current save =
     \<lparr>tq_op_type = OP_UPDATE_TSO, tq_count = 0, tq_current_timestamp = Some current,
      tq_save_physical = Some save, tq_force = False\<rparr>"

text \<open>
  \<^verbatim>\<open>sync_timestamp\<close> proposes an update and waits until it is applied. \<open>raft\<close> is the
  response the closure gets and the node once that has happened.
\<close>

definition sync_timestamp ::
  "(tso_request \<Rightarrow> tso_node \<Rightarrow> tso_response \<times> tso_node) \<Rightarrow> tso_timestamp \<Rightarrow> int \<Rightarrow> tso_node \<Rightarrow> int \<times> tso_node" where
  "sync_timestamp raft current save node =
     (case raft (sync_request current save) node of (response, node') \<Rightarrow>
        (if tr_errcode response \<noteq> Some SUCCESS then -1 else 0, node'))"

text \<open>The update the timer proposes on the leader at clock reading \<open>now\<close>, if any.\<close>

definition timer_update :: "int \<Rightarrow> tso_node \<Rightarrow> (tso_timestamp \<times> int) option" where
  "timer_update now node =
     (if \<not> tn_is_leader node then None
      else
        let prev_physical = ts_physical (tn_current node);
            prev_logical = ts_logical (tn_current node);
            last_save = tn_last_save_physical node;
            delta = now - prev_physical;
            save_for = (\<lambda>next. if last_save - next \<le> update_timestamp_guard_ms
              then next + save_interval_ms else last_save);
            timestamp = (\<lambda>next. \<lparr>ts_physical = next, ts_logical = 0\<rparr>)
        in
        if update_timestamp_guard_ms < delta then Some (timestamp now, save_for now)
        else if max_logical div 2 < prev_logical then
          (let next = prev_physical + update_timestamp_guard_ms in Some (timestamp next, save_for next))
        else None)"

definition update_timestamp ::
  "(tso_request \<Rightarrow> tso_node \<Rightarrow> tso_response \<times> tso_node) \<Rightarrow> int \<Rightarrow> tso_node \<Rightarrow> tso_node" where
  "update_timestamp raft now node =
     (case timer_update now node of
        None \<Rightarrow> node
      | Some (tp, save) \<Rightarrow> snd (sync_timestamp raft tp save node))"

definition leader_start_update :: "int \<Rightarrow> tso_node \<Rightarrow> tso_timestamp \<times> int" where
  "leader_start_update now node =
     (let last_save = tn_last_save_physical node;
          physical = (if now < last_save + update_timestamp_guard_ms
            then last_save + update_timestamp_guard_ms else now)
      in (\<lparr>ts_physical = physical, ts_logical = 0\<rparr>, physical + save_interval_ms))"

definition on_leader_start ::
  "(tso_request \<Rightarrow> tso_node \<Rightarrow> tso_response \<times> tso_node) \<Rightarrow> int \<Rightarrow> tso_node \<Rightarrow> tso_node" where
  "on_leader_start raft now node =
     (case leader_start_update now node of (current, last_save) \<Rightarrow>
        case sync_timestamp raft current last_save node of (ret, node') \<Rightarrow>
          (if ret < 0 then node'\<lparr>tn_is_healty := False\<rparr> else node')\<lparr>tn_is_leader := True\<rparr>)"

definition on_leader_stop :: "tso_node \<Rightarrow> tso_node" where
  "on_leader_stop node = node\<lparr>tn_is_leader := False\<rparr>"

section \<open>Snapshots\<close>

text \<open>\<^verbatim>\<open>std::to_string\<close> and \<^verbatim>\<open>std::stol\<close> on the decimal digits.\<close>

fun nat_to_string :: "nat \<Rightarrow> string" where
  "nat_to_string n =
     (if n < 10 then [char_of (48 + n)] else nat_to_string (n div 10) @ [char_of (48 + n mod 10)])"

declare nat_to_string.simps [simp del]

definition int_to_string :: "int \<Rightarrow> string" where
  "int_to_string i = (if i < 0 then CHR ''-'' # nat_to_string (nat (- i)) else nat_to_string (nat i))"

definition is_digit :: "char \<Rightarrow> bool" where
  "is_digit c \<longleftrightarrow> 48 \<le> (of_char c :: nat) \<and> (of_char c :: nat) \<le> 57"

definition digits_value :: "string \<Rightarrow> nat" where
  "digits_value s = foldl (\<lambda>v c. v * 10 + (of_char c - 48)) 0 s"

definition is_space :: "char \<Rightarrow> bool" where
  "is_space c \<longleftrightarrow> (of_char c :: nat) \<in> {9, 10, 11, 12, 13, 32}"

datatype stol_result = Stol int | Invalid_Argument | Out_Of_Range

definition stol :: "string \<Rightarrow> stol_result" where
  "stol s =
     (let s1 = dropWhile is_space s;
          neg = (s1 \<noteq> [] \<and> hd s1 = CHR ''-'');
          s2 = (if s1 \<noteq> [] \<and> (hd s1 = CHR ''-'' \<or> hd s1 = CHR ''+'') then tl s1 else s1);
          ds = takeWhile is_digit s2;
          v = (if neg then - int (digits_value ds) else int (digits_value ds))
      in if ds = [] then Invalid_Argument else if in_i64 v then Stol v else Out_Of_Range)"

definition snapshot_string :: "tso_node \<Rightarrow> string" where
  "snapshot_string node = int_to_string (tn_last_save_physical node)"

definition load_tso :: "string \<Rightarrow> tso_node \<Rightarrow> int \<times> tso_node" where
  "load_tso extra node =
     (case stol extra of
        Stol v \<Rightarrow> (0, node\<lparr>tn_last_save_physical := v\<rparr>)
      | Invalid_Argument \<Rightarrow> (-1, node)
      | Out_Of_Range \<Rightarrow> (-1, node))"

end
