(* ===== verification/TsoCluster.thy ===== *)
theory TsoCluster
  imports TsoStateMachine
begin

text \<open>
  A group of timestamp oracle nodes with one raft log. Raft is modelled by what the code
  relies on: committed proposals form one log that every node applies in order; a
  node that becomes leader has applied the whole log; only the newest leader's
  proposals commit; a node stops being leader before it applies an entry of another
  leader. Clock readings are arbitrary, nodes stop and restart from snapshots at any time,
  and a former leader may go on answering requests until it learns that it was deposed.
\<close>

section \<open>The group\<close>

record tso_group =
  tg_log :: "(nat \<times> tso_request) list"
  tg_node :: "nat \<Rightarrow> tso_node"
  tg_applied :: "nat \<Rightarrow> nat"
  tg_raft_leader :: "nat option"
  tg_issued :: "(nat \<times> int \<times> int \<times> int) list"

definition group_init :: tso_group where
  "group_init = \<lparr>tg_log = [], tg_node = (\<lambda>_. tso_init), tg_applied = (\<lambda>_. 0), tg_raft_leader = None,
     tg_issued = []\<rparr>"

definition apply_entry :: "tso_request \<Rightarrow> tso_node \<Rightarrow> tso_response \<times> tso_node" where
  "apply_entry request = on_apply_one (Some request)"

definition replay :: "(nat \<times> tso_request) list \<Rightarrow> tso_node" where
  "replay log = fold (\<lambda>e node. snd (apply_entry (snd e) node)) log tso_init"

inductive group_step :: "tso_group \<Rightarrow> tso_group \<Rightarrow> bool" where
  step_gen: "tn_is_leader (tg_node g n) \<Longrightarrow> tn_is_healty (tg_node g n) \<Longrightarrow> 0 < count \<Longrightarrow>
    gen_attempt count (tg_node g n) = (Some t, node') \<Longrightarrow>
    group_step g (g\<lparr>tg_node := (tg_node g)(n := node'),
      tg_issued := tg_issued g @ [(n, ts_physical t, ts_logical t, count)]\<rparr>)"
| step_timer: "tg_raft_leader g = Some n \<Longrightarrow> tg_applied g n = length (tg_log g) \<Longrightarrow>
    timer_update now (tg_node g n) = Some (t, save) \<Longrightarrow>
    group_step g (g\<lparr>tg_log := tg_log g @ [(n, sync_request t save)]\<rparr>)"
| step_apply: "tg_applied g n < length (tg_log g) \<Longrightarrow> e = tg_log g ! tg_applied g n \<Longrightarrow>
    (tn_is_leader (tg_node g n) \<longrightarrow> fst e = n) \<Longrightarrow>
    group_step g (g\<lparr>tg_node := (tg_node g)(n := snd (apply_entry (snd e) (tg_node g n))),
      tg_applied := (tg_applied g)(n := Suc (tg_applied g n))\<rparr>)"
| step_elect: "\<not> tn_is_leader (tg_node g n) \<Longrightarrow> tg_applied g n = length (tg_log g) \<Longrightarrow>
    leader_start_update now (tg_node g n) = (t, save) \<Longrightarrow>
    group_step g (g\<lparr>tg_log := tg_log g @ [(n, sync_request t save)],
      tg_node := (tg_node g)(n := on_leader_start apply_entry now (tg_node g n)),
      tg_applied := (tg_applied g)(n := Suc (length (tg_log g))), tg_raft_leader := Some n\<rparr>)"
| step_stop: "group_step g (g\<lparr>tg_node := (tg_node g)(n := on_leader_stop (tg_node g n))\<rparr>)"
| step_restart: "k \<le> length (tg_log g) \<Longrightarrow>
    load_tso (snapshot_string (replay (take k (tg_log g)))) tso_init = (0, node') \<Longrightarrow>
    group_step g (g\<lparr>tg_node := (tg_node g)(n := node'), tg_applied := (tg_applied g)(n := k)\<rparr>)"

inductive group_reachable :: "tso_group \<Rightarrow> bool" where
  reach_init: "group_reachable group_init"
| reach_step: "group_reachable g \<Longrightarrow> group_step g g' \<Longrightarrow> group_reachable g'"

section \<open>Snapshots restore the saved time\<close>

lemma digits_snoc: "digits_value (s @ [c]) = digits_value s * 10 + (of_char c - 48)"
  by (simp add: digits_value_def)

lemma nat_to_string_digits: "list_all is_digit (nat_to_string n) \<and> nat_to_string n \<noteq> [] \<and>
  digits_value (nat_to_string n) = n"
proof (induction n rule: nat_to_string.induct)
  case (1 n)
  have d: "is_digit (char_of (48 + k))" "(of_char (char_of (48 + k) :: char) :: nat) - 48 = k" if "k < 10" for k :: nat
    using that by (simp_all add: is_digit_def)
  show ?case
  proof (cases "n < 10")
    case True
    then show ?thesis
      using d [of n] digits_snoc [of "[]"] by (simp add: nat_to_string.simps [of n] digits_value_def)
  next
    case False
    then show ?thesis
      using 1 d [of "n mod 10"] by (simp add: nat_to_string.simps [of n] digits_snoc)
  qed
qed

lemma takeWhile_nat_to_string: "takeWhile is_digit (nat_to_string n) = nat_to_string n"
  using nat_to_string_digits [of n] by (simp add: takeWhile_eq_all_conv list_all_iff)

lemma stol_int_to_string: "stol (int_to_string i) = (if in_i64 i then Stol i else Out_Of_Range)"
proof -
  obtain c cs where c: "nat_to_string (nat \<bar>i\<bar>) = c # cs" "is_digit c"
    using nat_to_string_digits [of "nat \<bar>i\<bar>"] by (cases "nat_to_string (nat \<bar>i\<bar>)") auto
  have nc: "\<not> is_space c" "c \<noteq> CHR ''-''" "c \<noteq> CHR ''+''"
    using c(2) by (auto simp: is_digit_def is_space_def)
  have neg: "\<not> is_space (CHR ''-'')" by (simp add: is_space_def)
  show ?thesis
  proof (cases "i < 0")
    case True
    then show ?thesis
      using nat_to_string_digits [of "nat (- i)"] neg
      by (simp add: stol_def int_to_string_def Let_def takeWhile_nat_to_string)
  next
    case False
    then have hd: "nat_to_string (nat i) = c # cs" using c(1) by simp
    have tw: "takeWhile is_digit (c # cs) = c # cs" and v: "digits_value (c # cs) = nat i"
      using takeWhile_nat_to_string [of "nat i", unfolded hd] nat_to_string_digits [of "nat i", unfolded hd]
      by simp_all
    from False nc show ?thesis
      by (simp add: stol_def int_to_string_def Let_def hd tw v del: takeWhile.simps)
  qed
qed

lemma load_snapshot:
  assumes "load_tso (snapshot_string node) node0 = (0, node')"
  shows "node' = node0\<lparr>tn_last_save_physical := tn_last_save_physical node\<rparr>"
  using assms by (auto simp: load_tso_def snapshot_string_def stol_int_to_string split: if_splits)

section \<open>The invariant\<close>

abbreviation entry_physical :: "nat \<times> tso_request \<Rightarrow> int" where
  "entry_physical e \<equiv> ts_physical (current_timestamp (snd e))"

abbreviation entry_save :: "nat \<times> tso_request \<Rightarrow> int" where
  "entry_save e \<equiv> save_physical (snd e)"

definition tso_entry_ok :: "nat \<times> tso_request \<Rightarrow> bool" where
  "tso_entry_ok e \<longleftrightarrow> tq_op_type (snd e) = OP_UPDATE_TSO \<and> ts_logical (current_timestamp (snd e)) = 0 \<and>
     0 < entry_physical e \<and> entry_physical e < entry_save e"

text \<open>The committed updates only move forward, and save ahead of the time they set.\<close>

definition log_ok :: "(nat \<times> tso_request) list \<Rightarrow> bool" where
  "log_ok log \<longleftrightarrow> list_all tso_entry_ok log \<and>
     sorted_wrt (\<lambda>a b. entry_physical a < entry_physical b \<and> entry_save a \<le> entry_save b) log"

text \<open>A node that has applied \<open>k\<close> entries; \<open>n\<close> is its id.\<close>

definition node_ok :: "(nat \<times> tso_request) list \<Rightarrow> nat \<Rightarrow> nat \<Rightarrow> tso_node \<Rightarrow> bool" where
  "node_ok log n k node \<longleftrightarrow> k \<le> length log \<and>
     tn_last_save_physical node = (if k = 0 then 0 else entry_save (log ! (k - 1))) \<and>
     (ts_physical (tn_current node) = 0 \<or>
       0 < k \<and> ts_physical (tn_current node) = entry_physical (log ! (k - 1))) \<and>
     0 \<le> ts_logical (tn_current node) \<and>
     (tn_is_leader node \<longrightarrow> 0 < k \<and> ts_physical (tn_current node) = entry_physical (log ! (k - 1)) \<and>
        fst (log ! (k - 1)) = n)"

text \<open>
  An issued range belongs to the log entry that set its time. While the node that
  issued it leads, the node has applied that entry, and its counter is past the range if the
  entry is the last one it applied.
\<close>

definition issue_ok :: "tso_group \<Rightarrow> nat \<times> int \<times> int \<times> int \<Rightarrow> bool" where
  "issue_ok g = (\<lambda>(n, p, l, c). 0 < c \<and> (\<exists>j < length (tg_log g).
     p = entry_physical (tg_log g ! j) \<and> fst (tg_log g ! j) = n \<and>
     (tn_is_leader (tg_node g n) \<longrightarrow> j < tg_applied g n \<and>
       (Suc j = tg_applied g n \<longrightarrow> l + c \<le> ts_logical (tn_current (tg_node g n))))))"

definition issues_ordered :: "(nat \<times> int \<times> int \<times> int) list \<Rightarrow> bool" where
  "issues_ordered = sorted_wrt (\<lambda>(n, p, l, c) (n', p', l', c'). p \<noteq> p' \<or> n = n' \<and> l + c \<le> l')"

definition group_ok :: "tso_group \<Rightarrow> bool" where
  "group_ok g \<longleftrightarrow> log_ok (tg_log g) \<and> (\<forall>n. node_ok (tg_log g) n (tg_applied g n) (tg_node g n)) \<and>
     list_all (issue_ok g) (tg_issued g) \<and> issues_ordered (tg_issued g)"

lemma group_ok_node: "group_ok g \<Longrightarrow> node_ok (tg_log g) n (tg_applied g n) (tg_node g n)"
  by (simp add: group_ok_def)

lemma log_ok_nth:
  assumes "log_ok log" and "i < j" and "j < length log"
  shows "entry_physical (log ! i) < entry_physical (log ! j)" and "entry_save (log ! i) \<le> entry_save (log ! j)"
  using assms sorted_wrt_nth_less [of _ log i j] by (auto simp: log_ok_def)

lemma log_ok_inject:
  assumes "log_ok log" and "i < length log" and "j < length log"
    and "entry_physical (log ! i) = entry_physical (log ! j)"
  shows "i = j"
  using assms log_ok_nth(1) [of log i j] log_ok_nth(1) [of log j i] by (cases i j rule: linorder_cases) auto

lemma log_ok_entry: "log_ok log \<Longrightarrow> i < length log \<Longrightarrow> tso_entry_ok (log ! i)"
  by (simp add: log_ok_def list_all_length)

lemma node_ok_append:
  assumes "node_ok log n k node"
  shows "node_ok (log @ [e]) n k node"
  using assms by (auto simp: node_ok_def nth_append)

lemma log_ok_append:
  assumes "log_ok log" and "tso_entry_ok e"
    and "log \<noteq> [] \<Longrightarrow> entry_physical (last log) < entry_physical e \<and> entry_save (last log) \<le> entry_save e"
  shows "log_ok (log @ [e])"
proof -
  have "entry_physical a < entry_physical e \<and> entry_save a \<le> entry_save e" if a: "a \<in> set log" for a
  proof -
    obtain i where i: "i < length log" "a = log ! i" using a by (metis in_set_conv_nth)
    have ne: "log \<noteq> []" using a by auto
    have "entry_physical a \<le> entry_physical (last log) \<and> entry_save a \<le> entry_save (last log)"
    proof (cases "i = length log - 1")
      case True
      then show ?thesis using i(2) ne by (simp add: last_conv_nth)
    next
      case False
      then have "i < length log - 1" "length log - 1 < length log" using i(1) by simp_all
      from log_ok_nth [OF assms(1) this] show ?thesis using i(2) ne by (simp add: last_conv_nth)
    qed
    with assms(3) [OF ne] show ?thesis by linarith
  qed
  then show ?thesis using assms(1, 2) by (simp add: log_ok_def sorted_wrt_append)
qed

text \<open>Every entry is accepted by a node that has applied the entries before it.\<close>

lemma apply_accepts:
  assumes log: "log_ok log" and node: "node_ok log n k node" and k: "k < length log"
  shows "apply_entry (snd (log ! k)) node =
    (tso_error SUCCESS, node\<lparr>tn_last_save_physical := entry_save (log ! k),
       tn_current := current_timestamp (snd (log ! k))\<rparr>)"
proof -
  note e = log_ok_entry [OF log k]
  have "\<not> falls_back (snd (log ! k)) node"
  proof (cases k)
    case 0
    then show ?thesis using node e by (auto simp: node_ok_def tso_entry_ok_def falls_back_def)
  next
    case (Suc i)
    then show ?thesis
      using node e log_ok_nth [OF log, of i k] k by (auto simp: node_ok_def tso_entry_ok_def falls_back_def)
  qed
  with e show ?thesis by (simp add: apply_entry_def on_apply_one_def update_tso_def tso_entry_ok_def)
qed

lemma apply_node_ok:
  assumes "log_ok log" and "node_ok log n k node" and "k < length log"
    and "tn_is_leader node \<longrightarrow> fst (log ! k) = n"
  shows "node_ok log n (Suc k) (snd (apply_entry (snd (log ! k)) node))"
  unfolding apply_accepts [OF assms(1-3)]
  using assms(2-4) log_ok_entry [OF assms(1, 3)] by (simp add: node_ok_def tso_entry_ok_def)

section \<open>Every step keeps the invariant\<close>

lemma group_ok_init: "group_ok group_init"
  by (simp add: group_ok_def group_init_def log_ok_def node_ok_def tso_init_def no_timestamp_def
      issues_ordered_def)

lemma gen_attempt_Some:
  assumes "gen_attempt c node = (Some t, node')"
  shows "t = tn_current node" and "node' = node\<lparr>tn_current := t\<lparr>ts_logical := ts_logical t + c\<rparr>\<rparr>"
    and "ts_physical t \<noteq> 0" and "ts_logical t + c < max_logical"
  using assms by (auto simp: gen_attempt_def Let_def split: if_splits)

lemma group_ok_gen:
  assumes ok: "group_ok g" and lead: "tn_is_leader (tg_node g n)" and c: "0 < count"
    and gen: "gen_attempt count (tg_node g n) = (Some t, node')"
  shows "group_ok (g\<lparr>tg_node := (tg_node g)(n := node'),
      tg_issued := tg_issued g @ [(n, ts_physical t, ts_logical t, count)]\<rparr>)"
proof -
  let ?log = "tg_log g" and ?k = "tg_applied g n"
  let ?g' = "g\<lparr>tg_node := (tg_node g)(n := node'),
      tg_issued := tg_issued g @ [(n, ts_physical t, ts_logical t, count)]\<rparr>"
  note t = gen_attempt_Some [OF gen]
  have log: "log_ok ?log" and node: "node_ok ?log n ?k (tg_node g n)" using ok by (simp_all add: group_ok_def)
  have k: "0 < ?k" "?k \<le> length ?log" "ts_physical t = entry_physical (?log ! (?k - 1))"
    "fst (?log ! (?k - 1)) = n"
    using node lead t(1) by (simp_all add: node_ok_def)
  have "node_ok ?log m (tg_applied g m) (tg_node ?g' m)" for m
    using ok node t c by (auto simp: group_ok_def node_ok_def)
  moreover have "issue_ok ?g' i" if "i \<in> set (tg_issued g)" for i
    using ok that t c by (fastforce simp: group_ok_def list_all_iff issue_ok_def)
  moreover have "issue_ok ?g' (n, ts_physical t, ts_logical t, count)"
    using k c t by (auto simp: issue_ok_def intro!: exI [of _ "?k - 1"])
  moreover have "p \<noteq> ts_physical t \<or> m = n \<and> l + d \<le> ts_logical t" if i: "(m, p, l, d) \<in> set (tg_issued g)" for m p l d
  proof (cases "p = ts_physical t")
    case p: True
    obtain j where j: "j < length ?log" "p = entry_physical (?log ! j)" "fst (?log ! j) = m"
      "tn_is_leader (tg_node g m) \<Longrightarrow> Suc j = tg_applied g m \<Longrightarrow> l + d \<le> ts_logical (tn_current (tg_node g m))"
      using ok i by (fastforce simp: group_ok_def list_all_iff issue_ok_def)
    have "j = ?k - 1" using log_ok_inject [OF log j(1), of "?k - 1"] j(2) k p by simp
    with j k lead t(1) show ?thesis by auto
  qed simp
  ultimately show ?thesis
    using ok by (auto simp: group_ok_def issues_ordered_def sorted_wrt_append list_all_iff)
qed

lemma issue_ok_mono:
  assumes "issue_ok g i" and "tg_log g' = tg_log g @ es"
    and "tn_is_leader (tg_node g' (fst i)) \<Longrightarrow>
      tn_is_leader (tg_node g (fst i)) \<and> tg_applied g' (fst i) = tg_applied g (fst i) \<and>
      tg_node g' (fst i) = tg_node g (fst i)"
  shows "issue_ok g' i"
  using assms by (cases i) (fastforce simp: issue_ok_def nth_append)

lemma group_ok_timer:
  assumes ok: "group_ok g" and k: "tg_applied g n = length (tg_log g)"
    and upd: "timer_update now (tg_node g n) = Some (t, save)"
  shows "group_ok (g\<lparr>tg_log := tg_log g @ [(n, sync_request t save)]\<rparr>)"
proof -
  let ?log = "tg_log g" and ?e = "(n, sync_request t save)"
  have log: "log_ok ?log" and node: "node_ok ?log n (length ?log) (tg_node g n)"
    using group_ok_node [OF ok, of n] ok k by (simp_all add: group_ok_def)
  have lead: "tn_is_leader (tg_node g n)" using upd by (simp add: timer_update_def split: if_splits)
  have ne: "?log \<noteq> []" and p: "ts_physical (tn_current (tg_node g n)) = entry_physical (last ?log)"
    and s: "tn_last_save_physical (tg_node g n) = entry_save (last ?log)"
    using node lead by (auto simp: node_ok_def last_conv_nth)
  have "0 < entry_physical (last ?log)"
    using log ne by (simp add: log_ok_def list_all_iff tso_entry_ok_def)
  then have "log_ok (?log @ [?e])"
    using upd p s
    by (intro log_ok_append [OF log])
       (auto simp: timer_update_def Let_def tso_entry_ok_def sync_request_def current_timestamp_def
         save_physical_def update_timestamp_guard_ms_def save_interval_ms_def split: if_splits)
  moreover have "issue_ok (g\<lparr>tg_log := ?log @ [?e]\<rparr>) i" if "i \<in> set (tg_issued g)" for i
    by (rule issue_ok_mono [of g, where es = "[?e]"]) (use ok that in \<open>simp_all add: group_ok_def list_all_iff\<close>)
  ultimately show ?thesis
    using ok by (auto simp: group_ok_def node_ok_append list_all_iff)
qed

lemma group_ok_apply:
  assumes ok: "group_ok g" and k: "tg_applied g n < length (tg_log g)"
    and lead: "tn_is_leader (tg_node g n) \<longrightarrow> fst (tg_log g ! tg_applied g n) = n"
  shows "group_ok (g\<lparr>tg_node := (tg_node g)(n := snd (apply_entry (snd (tg_log g ! tg_applied g n)) (tg_node g n))),
      tg_applied := (tg_applied g)(n := Suc (tg_applied g n))\<rparr>)" (is "group_ok ?g'")
proof -
  let ?log = "tg_log g" and ?k = "tg_applied g n"
  have log: "log_ok ?log" and node: "node_ok ?log n ?k (tg_node g n)" using ok by (simp_all add: group_ok_def)
  note acc = apply_accepts [OF log node k]
  have "issue_ok ?g' i" if "i \<in> set (tg_issued g)" for i
  proof -
    obtain m p l c where i: "i = (m, p, l, c)" by (cases i)
    have "issue_ok g (m, p, l, c)" using ok that i by (simp add: group_ok_def list_all_iff)
    then obtain j where j: "0 < c" "j < length ?log" "p = entry_physical (?log ! j)" "fst (?log ! j) = m"
      "tn_is_leader (tg_node g m) \<Longrightarrow> j < tg_applied g m"
      "tn_is_leader (tg_node g m) \<Longrightarrow> Suc j = tg_applied g m \<Longrightarrow> l + c \<le> ts_logical (tn_current (tg_node g m))"
      by (fastforce simp: issue_ok_def)
    then show ?thesis by (auto simp: i issue_ok_def acc intro!: exI [of _ j])
  qed
  then show ?thesis
    using ok apply_node_ok [OF log node k lead] by (auto simp: group_ok_def list_all_iff)
qed

lemma group_ok_elect:
  assumes ok: "group_ok g" and k: "tg_applied g n = length (tg_log g)" and lead: "\<not> tn_is_leader (tg_node g n)"
    and upd: "leader_start_update now (tg_node g n) = (t, save)"
  shows "group_ok (g\<lparr>tg_log := tg_log g @ [(n, sync_request t save)],
      tg_node := (tg_node g)(n := on_leader_start apply_entry now (tg_node g n)),
      tg_applied := (tg_applied g)(n := Suc (length (tg_log g))), tg_raft_leader := Some n\<rparr>)" (is "group_ok ?g'")
proof -
  let ?log = "tg_log g" and ?e = "(n, sync_request t save)"
  have log: "log_ok ?log" and node: "node_ok ?log n (length ?log) (tg_node g n)"
    using group_ok_node [OF ok, of n] ok k by (simp_all add: group_ok_def)
  have save0: "0 \<le> tn_last_save_physical (tg_node g n)"
    using node log_ok_entry [OF log, of "length ?log - 1"] by (cases "?log = []") (auto simp: node_ok_def tso_entry_ok_def)
  have s: "?log \<noteq> [] \<Longrightarrow> tn_last_save_physical (tg_node g n) = entry_save (last ?log)"
    using node by (auto simp: node_ok_def last_conv_nth)
  have "?log \<noteq> [] \<Longrightarrow> tso_entry_ok (last ?log)" using log by (simp add: log_ok_def list_all_iff)
  then have log': "log_ok (?log @ [?e])"
    using upd s save0
    by (intro log_ok_append [OF log])
       (auto simp: leader_start_update_def Let_def tso_entry_ok_def sync_request_def current_timestamp_def
         save_physical_def update_timestamp_guard_ms_def save_interval_ms_def split: if_splits)
  have node': "node_ok (?log @ [?e]) n (length ?log) (tg_node g n)" by (rule node_ok_append [OF node])
  let ?node = "(tg_node g n)\<lparr>tn_last_save_physical := save, tn_current := t, tn_is_leader := True\<rparr>"
  have "apply_entry (sync_request t save) (tg_node g n) =
      (tso_error SUCCESS, (tg_node g n)\<lparr>tn_last_save_physical := save, tn_current := t\<rparr>)"
    using apply_accepts [OF log' node'] by (simp add: sync_request_def save_physical_def current_timestamp_def)
  then have start: "on_leader_start apply_entry now (tg_node g n) = ?node"
    using upd by (simp add: on_leader_start_def sync_timestamp_def tso_error_def)
  have "t = \<lparr>ts_physical = ts_physical t, ts_logical = 0\<rparr>"
    using upd by (auto simp: leader_start_update_def Let_def)
  then have "node_ok (?log @ [?e]) n (Suc (length ?log)) ?node"
    by (simp add: node_ok_def sync_request_def save_physical_def current_timestamp_def) (metis order_refl tso_timestamp.select_convs(2))
  then have "node_ok (?log @ [?e]) m (tg_applied ?g' m) (tg_node ?g' m)" for m
    using ok start by (auto simp: group_ok_def node_ok_append)
  moreover have "issue_ok ?g' i" if "i \<in> set (tg_issued g)" for i
  proof -
    obtain m p l c where i: "i = (m, p, l, c)" by (cases i)
    have "issue_ok g (m, p, l, c)" using ok that i by (simp add: group_ok_def list_all_iff)
    then obtain j where "0 < c" "j < length ?log" "p = entry_physical (?log ! j)" "fst (?log ! j) = m"
      "tn_is_leader (tg_node g m) \<Longrightarrow> j < tg_applied g m"
      "tn_is_leader (tg_node g m) \<Longrightarrow> Suc j = tg_applied g m \<Longrightarrow> l + c \<le> ts_logical (tn_current (tg_node g m))"
      by (fastforce simp: issue_ok_def)
    then show ?thesis by (auto simp: i issue_ok_def nth_append intro!: exI [of _ j])
  qed
  ultimately show ?thesis using ok log' by (simp add: group_ok_def list_all_iff)
qed

lemma replay_saved:
  assumes "log_ok log" and "k \<le> length log"
  shows "node_ok log n k (replay (take k log)) \<and> \<not> tn_is_leader (replay (take k log))"
  using assms(2)
proof (induction k)
  case 0
  then show ?case by (simp add: node_ok_def replay_def tso_init_def no_timestamp_def)
next
  case (Suc k)
  let ?node = "replay (take k log)"
  have step: "replay (take (Suc k) log) = snd (apply_entry (snd (log ! k)) ?node)"
    using Suc.prems by (simp add: replay_def take_Suc_conv_app_nth)
  have node: "node_ok log n k ?node" "\<not> tn_is_leader ?node" using Suc by simp_all
  show ?case
    using apply_node_ok [OF assms(1) node(1)] apply_accepts [OF assms(1) node(1)] node(2) Suc.prems
    by (simp add: step)
qed

lemma group_ok_restart:
  assumes ok: "group_ok g" and k: "k \<le> length (tg_log g)"
    and load: "load_tso (snapshot_string (replay (take k (tg_log g)))) tso_init = (0, node')"
  shows "group_ok (g\<lparr>tg_node := (tg_node g)(n := node'), tg_applied := (tg_applied g)(n := k)\<rparr>)" (is "group_ok ?g'")
proof -
  have log: "log_ok (tg_log g)" using ok by (simp add: group_ok_def)
  have n': "node' = tso_init\<lparr>tn_last_save_physical := tn_last_save_physical (replay (take k (tg_log g)))\<rparr>"
    by (rule load_snapshot [OF load])
  have "node_ok (tg_log g) n k node'"
    using replay_saved [OF log k, of n] by (simp add: n' node_ok_def tso_init_def no_timestamp_def)
  moreover have "issue_ok ?g' i" if "i \<in> set (tg_issued g)" for i
    by (rule issue_ok_mono [of g, where es = "[]"])
       (use ok that in \<open>auto simp: group_ok_def list_all_iff n' tso_init_def split: if_splits\<close>)
  ultimately show ?thesis using ok by (simp add: group_ok_def list_all_iff)
qed

lemma group_ok_stop:
  assumes ok: "group_ok g"
  shows "group_ok (g\<lparr>tg_node := (tg_node g)(n := on_leader_stop (tg_node g n))\<rparr>)" (is "group_ok ?g'")
proof -
  have "issue_ok ?g' i" if "i \<in> set (tg_issued g)" for i
    by (rule issue_ok_mono [of g, where es = "[]"])
       (use ok that in \<open>auto simp: group_ok_def list_all_iff on_leader_stop_def split: if_splits\<close>)
  then show ?thesis
    using ok by (auto simp: group_ok_def list_all_iff node_ok_def on_leader_stop_def)
qed

lemma group_step_ok: "group_step g g' \<Longrightarrow> group_ok g \<Longrightarrow> group_ok g'"
  by (induction rule: group_step.induct)
     (simp_all add: group_ok_gen group_ok_timer group_ok_apply group_ok_elect group_ok_stop group_ok_restart)

lemma group_reachable_ok: "group_reachable g \<Longrightarrow> group_ok g"
  by (induction rule: group_reachable.induct) (auto simp: group_ok_init group_step_ok)

end
