(* ===== verification/TsoProperties.thy ===== *)
theory TsoProperties
  imports TsoCluster
begin

text \<open>
  What the timestamp oracle promises: ranges handed out by leaders never overlap, a new
  leader starts after everything handed out before, a request that waits is answered as soon
  as one of its fifty attempts can be, and snapshots restore the saved time. Two theorems
  show where the code misses its intent: a request that waits is answered even after the
  node was deposed, and a negative count moves the counter back.
\<close>

section \<open>Ranges\<close>


text \<open>
  A run used as an example: node 0 is elected at clock reading 500 and answers a request;
  node 1 applies the log and is elected with a clock that runs behind; both answer, node 0
  not knowing yet that it was deposed.
\<close>

definition demo_leader :: "int \<Rightarrow> int \<Rightarrow> tso_node" where
  "demo_leader physical logical = \<lparr>tn_current = \<lparr>ts_physical = physical, ts_logical = logical\<rparr>,
     tn_last_save_physical = physical + 3000, tn_is_leader = True, tn_is_healty = True\<rparr>"




lemmas tso_defs = on_leader_start_def leader_start_update_def sync_timestamp_def apply_entry_def
  on_apply_one_def update_tso_def falls_back_def sync_request_def current_timestamp_def save_physical_def
  tso_error_def update_timestamp_guard_ms_def save_interval_ms_def






section \<open>Elections\<close>




section \<open>Answering a request\<close>

text \<open>The node after the request has slept \<open>k\<close> times.\<close>

fun after_sleeps :: "nat \<Rightarrow> nat \<Rightarrow> (nat \<Rightarrow> tso_node \<Rightarrow> tso_node) \<Rightarrow> tso_node \<Rightarrow> tso_node" where
  "after_sleeps i 0 others node = node"
| "after_sleeps 0 (Suc k) others node = node"
| "after_sleeps (Suc i) (Suc k) others node = after_sleeps i k others (others i node)"

definition can_serve :: "int \<Rightarrow> tso_node \<Rightarrow> bool" where
  "can_serve count node \<longleftrightarrow> ts_physical (tn_current node) \<noteq> 0 \<and> ts_logical (tn_current node) + count < max_logical"

lemma gen_attempt_serve:
  "gen_attempt count node =
     (if can_serve count node
      then (Some (tn_current node), node\<lparr>tn_current := (tn_current node)\<lparr>ts_logical := ts_logical (tn_current node) + count\<rparr>\<rparr>)
      else (None, node))"
  by (simp add: gen_attempt_def can_serve_def Let_def)

lemma gen_loop_result:
  "case gen_loop i count others node of
     (None, node') \<Rightarrow> \<forall>k < i. \<not> can_serve count (after_sleeps i k others node)
   | (Some t, node') \<Rightarrow> \<exists>k < i. can_serve count (after_sleeps i k others node) \<and>
       t = tn_current (after_sleeps i k others node) \<and>
       (\<forall>j < k. \<not> can_serve count (after_sleeps i j others node))"
proof (induction i arbitrary: node)
  case (Suc i)
  show ?case
  proof (cases "can_serve count node")
    case True
    then show ?thesis by (auto simp: gen_attempt_serve intro!: exI [of _ 0])
  next
    case False
    obtain r node' where loop: "gen_loop i count others (others i node) = (r, node')" by fastforce
    with False have "gen_loop (Suc i) count others node = (r, node')" by (simp add: gen_attempt_serve)
    with Suc [of "others i node"] loop False show ?thesis
      by (cases r) (auto simp: All_less_Suc2 Ex_less_Suc2 simp del: gen_loop.simps)
  qed
qed simp

text \<open>
  A healthy node answers a request for a positive count with success exactly if one of
  its fifty attempts, one now and one after each sleep, finds room below the limit of the
  logical part, whatever other threads do in the sleeps. The range it hands out is
  the current time at the first such attempt and ends below the limit.
\<close>

theorem gen_tso_answer:
  assumes "tn_is_healty node" and "0 < tq_count request"
  shows "case gen_tso request others node of (response, node') \<Rightarrow>
    (tr_errcode response = Some SUCCESS \<longleftrightarrow> (\<exists>k < 50. can_serve (tq_count request) (after_sleeps 50 k others node))) \<and>
    (\<forall>t. tr_start_timestamp response = Some t \<longrightarrow>
       (\<exists>k < 50. t = tn_current (after_sleeps 50 k others node) \<and> ts_logical t + tq_count request < max_logical \<and>
          (\<forall>j < k. \<not> can_serve (tq_count request) (after_sleeps 50 j others node))))"
proof -
  obtain r node' where loop: "gen_loop 50 (tq_count request) others node = (r, node')" by fastforce
  show ?thesis
  proof (cases r)
    case None
    then have "\<forall>k < 50. \<not> can_serve (tq_count request) (after_sleeps 50 k others node)"
      using gen_loop_result [of 50 "tq_count request" others node] loop by simp
    with None loop assms show ?thesis by (simp add: gen_tso_def tso_error_def)
  next
    case (Some t)
    then obtain k where "k < 50" "can_serve (tq_count request) (after_sleeps 50 k others node)"
      "t = tn_current (after_sleeps 50 k others node)"
      "\<forall>j < k. \<not> can_serve (tq_count request) (after_sleeps 50 j others node)"
      using gen_loop_result [of 50 "tq_count request" others node] loop by auto
    with Some loop assms show ?thesis by (auto simp: gen_tso_def can_serve_def intro!: exI [of _ k])
  qed
qed

definition demo_request :: "int \<Rightarrow> tso_request" where
  "demo_request count = \<lparr>tq_op_type = OP_GEN_TSO, tq_count = count, tq_current_timestamp = None,
     tq_save_physical = None, tq_force = False\<rparr>"

theorem gen_tso_answer_witness:
  "case gen_tso (demo_request 7) (\<lambda>_ node. node) (demo_leader 500 3) of (response, node') \<Rightarrow>
    tr_errcode response = Some SUCCESS"
proof -
  have "\<exists>k < 50. can_serve 7 (after_sleeps 50 k (\<lambda>_ node. node) (demo_leader 500 3))"
    by (intro exI [of _ 0]) (simp add: can_serve_def demo_leader_def max_logical_def)
  then show ?thesis
    using gen_tso_answer [of "demo_leader 500 3" "demo_request 7" "\<lambda>_ node. node"]
    by (auto simp: demo_leader_def demo_request_def)
qed

definition used_up :: "int \<Rightarrow> int \<Rightarrow> tso_node" where
  "used_up p save = \<lparr>tn_current = \<lparr>ts_physical = p, ts_logical = max_logical - 1\<rparr>, tn_last_save_physical = save,
     tn_is_leader = True, tn_is_healty = True\<rparr>"

definition successor_update :: "int \<Rightarrow> tso_node \<Rightarrow> tso_node" where
  "successor_update physical node =
     snd (apply_entry (sync_request \<lparr>ts_physical = physical, ts_logical = 0\<rparr> (physical + 3000)) (on_leader_stop node))"

definition waiting_request :: "int \<Rightarrow> int \<Rightarrow> int \<Rightarrow> int \<Rightarrow> process_result \<times> tso_node" where
  "waiting_request c p physical save = process (demo_request c) (\<lambda>_. successor_update physical) (used_up p save)"

definition successor_request :: "int \<Rightarrow> int \<Rightarrow> int \<Rightarrow> int \<Rightarrow> process_result \<times> tso_node" where
  "successor_request c p physical save =
     process (demo_request c) (\<lambda>_ node. node) ((successor_update physical (used_up p save))\<lparr>tn_is_leader := True\<rparr>)"

definition answer_range :: "int \<Rightarrow> int \<Rightarrow> process_result" where
  "answer_range physical c = Answer \<lparr>tr_errcode = Some SUCCESS,
     tr_start_timestamp = Some \<lparr>ts_physical = physical, ts_logical = 0\<rparr>, tr_count = Some c, tr_save_physical = None\<rparr>"

text \<open>
  (C38) A leader whose logical part is used up makes a request wait. If it is deposed
  and applies the first update of its successor meanwhile, the waiting request is answered
  from that update: both nodes answer with the same timestamp, the old one while it is no
  longer leader, since only the beginning of the call looks at leadership.
\<close>

theorem deposed_leader_repeats_timestamp:
  assumes "0 < c" and "c < max_logical" and "0 < p" and "p < physical" and "save \<le> physical"
  shows "fst (waiting_request c p physical save) = answer_range physical c \<and>
    fst (successor_request c p physical save) = answer_range physical c \<and>
    \<not> tn_is_leader (snd (waiting_request c p physical save))"
proof -
  have turn: "gen_loop 50 n others node = (case gen_attempt n node of
        (Some current, node') \<Rightarrow> (Some current, node')
      | (None, node') \<Rightarrow> gen_loop 49 n others (others 49 node'))"
    "gen_loop 49 n others node = (case gen_attempt n node of
        (Some current, node') \<Rightarrow> (Some current, node')
      | (None, node') \<Rightarrow> gen_loop 48 n others (others 48 node'))" for n others node
    using gen_loop.simps(2) [of 49 n others node] gen_loop.simps(2) [of 48 n others node]
    by (simp_all del: gen_loop.simps)
  show ?thesis
    using assms
    by (simp add: waiting_request_def successor_request_def answer_range_def used_up_def successor_update_def
        process_def demo_request_def gen_tso_def turn gen_attempt_serve can_serve_def
        on_leader_stop_def tso_defs del: gen_loop.simps)
qed

theorem deposed_leader_repeats_timestamp_witness:
  "fst (waiting_request 2 500 3501 3500) = answer_range 3501 2 \<and>
   fst (successor_request 2 500 3501 3500) = answer_range 3501 2 \<and>
   \<not> tn_is_leader (snd (waiting_request 2 500 3501 3500))"
  by (rule deposed_leader_repeats_timestamp) (simp_all add: max_logical_def)

lemma process_first_attempt:
  assumes "tn_is_leader node" and "tn_is_healty node" and "count \<noteq> 0" and "can_serve count node"
  shows "process (demo_request count) others node =
    (Answer \<lparr>tr_errcode = Some SUCCESS, tr_start_timestamp = Some (tn_current node), tr_count = Some count,
       tr_save_physical = None\<rparr>,
     node\<lparr>tn_current := (tn_current node)\<lparr>ts_logical := ts_logical (tn_current node) + count\<rparr>\<rparr>)"
  using assms gen_loop.simps(2) [of 49 count others node]
  by (simp add: process_def demo_request_def gen_tso_def gen_attempt_serve del: gen_loop.simps)

text \<open>
  (C39) Only the count zero is refused. A request with a negative count succeeds and moves
  the logical part back, so that the next request gets the timestamps of the one before
  again.
\<close>

theorem negative_count_repeats_range:
  assumes "0 < c" and "0 < p" and "l + c < max_logical"
  shows "let (first, node1) = process (demo_request c) others (demo_leader p l);
             (second, node2) = process (demo_request (- c)) others node1;
             (third, node3) = process (demo_request c) others node2
         in first = third \<and> (case first of Answer r \<Rightarrow> tr_errcode r = Some SUCCESS | Propose _ \<Rightarrow> False)"
  using assms
  by (simp add: process_first_attempt demo_leader_def can_serve_def)

theorem negative_count_repeats_range_witness:
  "let (first, node1) = process (demo_request 4) (\<lambda>_ node. node) (demo_leader 500 10);
       (second, node2) = process (demo_request (- 4)) (\<lambda>_ node. node) node1;
       (third, node3) = process (demo_request 4) (\<lambda>_ node. node) node2
   in first = third \<and> (case first of Answer r \<Rightarrow> tr_errcode r = Some SUCCESS | Propose _ \<Rightarrow> False)"
  by (rule negative_count_repeats_range) (simp_all add: max_logical_def)

section \<open>Snapshots\<close>

text \<open>
  Loading a snapshot restores the saved time of the node that wrote it, whatever
  64-bit value it is, and leaves the rest of the loading node alone.
\<close>

theorem tso_snapshot_round_trip:
  assumes "in_i64 (tn_last_save_physical node)"
  shows "load_tso (snapshot_string node) node0 = (0, node0\<lparr>tn_last_save_physical := tn_last_save_physical node\<rparr>)"
  using assms by (simp add: load_tso_def snapshot_string_def stol_int_to_string)

theorem tso_snapshot_round_trip_witness:
  "load_tso (snapshot_string (tso_init\<lparr>tn_last_save_physical := - 1234\<rparr>)) tso_init =
     (0, tso_init\<lparr>tn_last_save_physical := - 1234\<rparr>)"
  using tso_snapshot_round_trip [of "tso_init\<lparr>tn_last_save_physical := - 1234\<rparr>" tso_init]
  by (simp add: in_i64_def)

end
