(* ===== verification/NamespaceManager.thy ===== *)
theory NamespaceManager
  imports MetaCommon
begin

text \<open>
  The handlers of \<^verbatim>\<open>NamespaceManager\<close> (\<^verbatim>\<open>src/meta_server/namespace_manager.cpp\<close>): what the
  meta server does when it applies the creation, removal or change of a namespace, and
  the loading of one namespace from a snapshot.
\<close>

definition create_namespace ::
  "'db meta_env \<Rightarrow> meta_request \<Rightarrow> 'db meta_state \<Rightarrow> errcode \<times> 'db meta_state" where
  "create_namespace E request s =
     (let namespace_info = mr_namespace_info request;
          namespace_name = ni_namespace_name namespace_info
      in
      if ms_namespace_id_map s namespace_name \<noteq> None then
        (if get_or False (ni_if_exist namespace_info) then (INPUT_PARAM_ERROR, s) else (SUCCESS, s))
      else
        let tmp_namespace_id = ms_max_namespace_id s + 1;
            namespace_info = namespace_info\<lparr>ni_namespace_id := Some tmp_namespace_id, ni_version := Some 1\<rparr>
        in
        case me_ser_ns E namespace_info of
          None \<Rightarrow> (PARSE_TO_PB_FAIL, s)
        | Some namespace_value \<Rightarrow>
            (case put_meta_infos (me_rocks E)
                    [construct_namespace_key (me_big E) tmp_namespace_id, construct_max_namespace_id_key]
                    [namespace_value, mem_bytes (me_big E) 8 (word_of_int tmp_namespace_id :: 64 word)] (ms_db s) of
               (ret, db') \<Rightarrow>
                 let s1 = s\<lparr>ms_db := db'\<rparr> in
                 if ret < 0 then (INTERNAL_ERROR, s1)
                 else (SUCCESS, (set_namespace_info namespace_info s1)\<lparr>ms_max_namespace_id := tmp_namespace_id\<rparr>)))"

definition drop_namespace ::
  "'db meta_env \<Rightarrow> meta_request \<Rightarrow> 'db meta_state \<Rightarrow> errcode \<times> 'db meta_state" where
  "drop_namespace E request s =
     (let namespace_info = mr_namespace_info request;
          namespace_name = ni_namespace_name namespace_info
      in
      case ms_namespace_id_map s namespace_name of
        None \<Rightarrow> (if \<not> get_or False (ni_if_exist namespace_info) then (INPUT_PARAM_ERROR, s) else (SUCCESS, s))
      | Some namespace_id \<Rightarrow>
          let s1 = s\<lparr>ms_database_ids := touch namespace_id (ms_database_ids s)\<rparr> in
          if set_at (ms_database_ids s) namespace_id \<noteq> {} then (INPUT_PARAM_ERROR, s1)
          else
            case delete_meta_info (me_rocks E) [construct_namespace_key (me_big E) namespace_id] (ms_db s1) of
              (ret, db') \<Rightarrow>
                let s2 = s1\<lparr>ms_db := db'\<rparr> in
                if ret < 0 then (INTERNAL_ERROR, s2)
                else (SUCCESS, erase_namespace_info namespace_name s2))"

text \<open>The fields of the request that replace those of the stored namespace.\<close>

definition merge_namespace :: "namespace_info \<Rightarrow> namespace_info \<Rightarrow> namespace_info" where
  "merge_namespace namespace_info tmp_info =
     tmp_info\<lparr>ni_quota := set_if (ni_quota namespace_info) (ni_quota tmp_info),
       ni_resource_tag := set_if (ni_resource_tag namespace_info) (ni_resource_tag tmp_info),
       ni_engine := set_if (ni_engine namespace_info) (ni_engine tmp_info),
       ni_charset := set_if (ni_charset namespace_info) (ni_charset tmp_info),
       ni_byte_size_per_record := set_if (ni_byte_size_per_record namespace_info) (ni_byte_size_per_record tmp_info),
       ni_replica_num := set_if (ni_replica_num namespace_info) (ni_replica_num tmp_info),
       ni_region_split_lines := set_if (ni_region_split_lines namespace_info) (ni_region_split_lines tmp_info),
       ni_dists := set_if_rep (ni_dists namespace_info) (ni_dists tmp_info),
       ni_main_logical_room := set_if (ni_main_logical_room namespace_info) (ni_main_logical_room tmp_info),
       ni_learner_resource_tags := set_if_rep (ni_learner_resource_tags namespace_info) (ni_learner_resource_tags tmp_info),
       ni_binlog_infos := set_if_rep (ni_binlog_infos namespace_info) (ni_binlog_infos tmp_info)\<rparr>"

text \<open>What \<^verbatim>\<open>_namespace_info_map[namespace_id]\<close> gives for an id that is not there.\<close>

definition no_namespace_info :: namespace_info where
  "no_namespace_info =
     \<lparr>ni_namespace_name = [], ni_namespace_id = None, ni_quota = None, ni_version = None, ni_deleted = None,
      ni_resource_tag = None, ni_engine = None, ni_charset = None, ni_byte_size_per_record = None,
      ni_replica_num = None, ni_region_split_lines = None, ni_if_exist = None, ni_dists = [],
      ni_main_logical_room = None, ni_learner_resource_tags = [], ni_binlog_infos = []\<rparr>"

definition modify_namespace ::
  "'db meta_env \<Rightarrow> meta_request \<Rightarrow> 'db meta_state \<Rightarrow> errcode \<times> 'db meta_state" where
  "modify_namespace E request s =
     (let namespace_info = mr_namespace_info request;
          namespace_name = ni_namespace_name namespace_info
      in
      case ms_namespace_id_map s namespace_name of
        None \<Rightarrow> (if \<not> get_or False (ni_if_exist namespace_info) then (INPUT_PARAM_ERROR, s) else (SUCCESS, s))
      | Some namespace_id \<Rightarrow>
          let old_info = get_or no_namespace_info (ms_namespace_info_map s namespace_id);
              s1 = s\<lparr>ms_namespace_info_map := (ms_namespace_info_map s)(namespace_id \<mapsto> old_info)\<rparr>;
              tmp_info = (if mr_is_force_setting request
                then namespace_info\<lparr>ni_namespace_id := Some namespace_id\<rparr>
                else merge_namespace namespace_info old_info);
              tmp_info = tmp_info\<lparr>ni_version := Some (get_or 0 (ni_version old_info) + 1)\<rparr>
          in
          case me_ser_ns E tmp_info of
            None \<Rightarrow> (PARSE_TO_PB_FAIL, s1)
          | Some namespace_value \<Rightarrow>
              (case put_meta_info (me_rocks E) (construct_namespace_key (me_big E) namespace_id) namespace_value (ms_db s1) of
                 (ret, db') \<Rightarrow>
                   let s2 = s1\<lparr>ms_db := db'\<rparr> in
                   if ret < 0 then (INTERNAL_ERROR, s2)
                   else (SUCCESS, set_namespace_info tmp_info s2)))"

definition load_namespace_snapshot :: "'db meta_env \<Rightarrow> bytes \<Rightarrow> 'db meta_state \<Rightarrow> int \<times> 'db meta_state" where
  "load_namespace_snapshot E value s =
     (case me_parse_ns E value of
        None \<Rightarrow> (-1, s)
      | Some namespace_pb \<Rightarrow> (0, set_namespace_info namespace_pb s))"

text \<open>The answer to a heartbeat: every namespace, in the order \<open>ids\<close> in which the map is visited.\<close>

definition namespace_heartbeat :: "int list \<Rightarrow> 'db meta_state \<Rightarrow> namespace_info list" where
  "namespace_heartbeat ids s = map (\<lambda>i. the (ms_namespace_info_map s i)) ids"

end
