(* ===== verification/PrivilegeManager.thy ===== *)
theory PrivilegeManager
  imports MetaCommon
begin

text \<open>
  Users and their privileges: \<^verbatim>\<open>PrivilegeManager\<close> (\<^verbatim>\<open>src/meta_server/privilege_manager.cpp\<close>
  with the index functions of its header) and the check of a privilege request against the
  schema, \<^verbatim>\<open>SchemaManager::check_and_get_for_privilege\<close>. A user is stored in RocksDB and in
  \<^verbatim>\<open>_user_privilege\<close>; \<^verbatim>\<open>_db_user_map\<close> and \<^verbatim>\<open>_tbl_user_map\<close> are indexes from a database or
  table to the users that have a privilege on it.
\<close>

section \<open>Requests\<close>

datatype privilege_op = OP_CREATE_USER | OP_MODIFY_USER | OP_DROP_USER | OP_ADD_PRIVILEGE
  | OP_DROP_PRIVILEGE | OP_DROP_INVALID_PRIVILEGE | OP_NO_PRIVILEGE

definition no_user_privilege :: user_privilege where
  "no_user_privilege =
     \<lparr>up_username = [], up_password = None, up_namespace_name = [], up_namespace_id = None,
      up_privilege_database = [], up_privilege_table = [], up_bns = [], up_ip = [], up_version = None,
      up_encrypt = None, up_need_auth_addr = None, up_resource_tag = None, up_ddl_permission = None,
      up_txn_lock_timeout = None, up_use_read_index = None, up_enable_plan_cache = None,
      up_request_range_partition_type = None, up_is_super = None, up_switch_tables = [], up_acl = None,
      up_if_exist = None, up_is_request_additional = None\<rparr>"

definition req_user :: "meta_request \<Rightarrow> user_privilege" where
  "req_user request = get_or no_user_privilege (mr_user_privilege request)"

text \<open>The error a request is answered with at once, or \<^term>\<open>None\<close> if it is handed to raft.\<close>

definition process_user_privilege :: "privilege_op \<Rightarrow> meta_request \<Rightarrow> errcode option" where
  "process_user_privilege op_type request =
     (if mr_user_privilege request = None \<and> op_type \<noteq> OP_DROP_INVALID_PRIVILEGE then Some INPUT_PARAM_ERROR
      else case op_type of
        OP_CREATE_USER \<Rightarrow> (if up_password (req_user request) = None then Some INPUT_PARAM_ERROR else None)
      | OP_MODIFY_USER \<Rightarrow> (if up_password (req_user request) = None then Some INPUT_PARAM_ERROR else None)
      | OP_DROP_USER \<Rightarrow> None
      | OP_ADD_PRIVILEGE \<Rightarrow> None
      | OP_DROP_PRIVILEGE \<Rightarrow> None
      | OP_DROP_INVALID_PRIVILEGE \<Rightarrow> None
      | OP_NO_PRIVILEGE \<Rightarrow> Some INPUT_PARAM_ERROR)"

fun check_databases ::
  "'db meta_state \<Rightarrow> bytes \<Rightarrow> privilege_database list \<Rightarrow> privilege_database list option" where
  "check_databases s namespace_name [] = Some []"
| "check_databases s namespace_name (pri_base # rest) =
     (let database_id = get_database_id (full_name namespace_name (pd_database pri_base)) s in
      if database_id = 0 then None
      else map_option (\<lambda>ps. pri_base\<lparr>pd_database_id := Some database_id\<rparr> # ps)
             (check_databases s namespace_name rest))"

fun check_tables ::
  "'db meta_state \<Rightarrow> bytes \<Rightarrow> privilege_table list \<Rightarrow> privilege_table list option" where
  "check_tables s namespace_name [] = Some []"
| "check_tables s namespace_name (pri_table # rest) =
     (let base_name = full_name namespace_name (pt_database pri_table);
          database_id = get_database_id base_name s;
          table_id = get_table_id (full_name base_name (pt_table_name pri_table)) s
      in
      if database_id = 0 then None
      else if table_id = 0 then None
      else map_option (\<lambda>ps. pri_table\<lparr>pt_database_id := Some database_id, pt_table_id := Some table_id\<rparr> # ps)
             (check_tables s namespace_name rest))"

definition check_and_get_for_privilege :: "'db meta_state \<Rightarrow> user_privilege \<Rightarrow> user_privilege option" where
  "check_and_get_for_privilege s user_privilege =
     (let namespace_name = up_namespace_name user_privilege;
          namespace_id = get_namespace_id namespace_name s
      in
      if namespace_id = 0 then None
      else case check_databases s namespace_name (up_privilege_database user_privilege) of
        None \<Rightarrow> None
      | Some dbs \<Rightarrow>
          (case check_tables s namespace_name (up_privilege_table user_privilege) of
             None \<Rightarrow> None
           | Some tbls \<Rightarrow> Some (user_privilege\<lparr>up_namespace_id := Some namespace_id,
               up_privilege_database := dbs, up_privilege_table := tbls\<rparr>)))"

section \<open>The indexes\<close>

abbreviation pd_id :: "privilege_database \<Rightarrow> int" where
  "pd_id p \<equiv> get_or 0 (pd_database_id p)"

abbreviation pt_id :: "privilege_table \<Rightarrow> int" where
  "pt_id p \<equiv> get_or 0 (pt_table_id p)"

definition index_insert :: "'u \<Rightarrow> int \<Rightarrow> (int \<rightharpoonup> 'u set) \<Rightarrow> (int \<rightharpoonup> 'u set)" where
  "index_insert username i m = m(i \<mapsto> insert username (set_at m i))"

definition index_erase :: "'u \<Rightarrow> int \<Rightarrow> (int \<rightharpoonup> 'u set) \<Rightarrow> (int \<rightharpoonup> 'u set)" where
  "index_erase username i m =
     (let users = set_at m i - {username} in m(i := if users = {} then None else Some users))"

definition insert_db_tbl_user_map :: "user_privilege \<Rightarrow> 'db meta_state \<Rightarrow> 'db meta_state" where
  "insert_db_tbl_user_map privilege s =
     s\<lparr>ms_db_user_map := fold (\<lambda>p. index_insert (up_username privilege) (pd_id p))
         (up_privilege_database privilege) (ms_db_user_map s),
       ms_tbl_user_map := fold (\<lambda>p. index_insert (up_username privilege) (pt_id p))
         (up_privilege_table privilege) (ms_tbl_user_map s)\<rparr>"

definition delete_db_tbl_user_map :: "user_privilege \<Rightarrow> 'db meta_state \<Rightarrow> 'db meta_state" where
  "delete_db_tbl_user_map privilege s =
     s\<lparr>ms_db_user_map := fold (\<lambda>p. index_erase (up_username privilege) (pd_id p))
         (up_privilege_database privilege) (ms_db_user_map s),
       ms_tbl_user_map := fold (\<lambda>p. index_erase (up_username privilege) (pt_id p))
         (up_privilege_table privilege) (ms_tbl_user_map s)\<rparr>"

definition get_db_user_set :: "int \<Rightarrow> 'db meta_state \<Rightarrow> bytes set option" where
  "get_db_user_set db_id s = ms_db_user_map s db_id"

definition get_tbl_user_set :: "int \<Rightarrow> 'db meta_state \<Rightarrow> bytes set option" where
  "get_tbl_user_set tbl_id s = ms_tbl_user_map s tbl_id"

section \<open>Granting and revoking on a user\<close>

text \<open>Changes the first element that satisfies a condition.\<close>

fun update_first :: "('a \<Rightarrow> bool) \<Rightarrow> ('a \<Rightarrow> 'a) \<Rightarrow> 'a list \<Rightarrow> 'a list" where
  "update_first P f [] = []"
| "update_first P f (x # xs) = (if P x then f x # xs else x # update_first P f xs)"

definition grant_database :: "privilege_database \<Rightarrow> privilege_database \<Rightarrow> privilege_database" where
  "grant_database privilege_database mem_database =
     (let mem1 = (case pd_database_rw privilege_database of
            None \<Rightarrow> mem_database
          | Some rw \<Rightarrow>
              if get_or False (pd_force privilege_database) then mem_database\<lparr>pd_database_rw := Some rw\<rparr>
              else if get_or 1 (pd_database_rw mem_database) < rw then mem_database\<lparr>pd_database_rw := Some rw\<rparr>
              else mem_database)
      in case pd_acl privilege_database of
           None \<Rightarrow> mem1
         | Some acl \<Rightarrow> mem1\<lparr>pd_acl := Some (get_or 0 (pd_acl mem1) OR acl)\<rparr>)"

definition insert_database_privilege ::
  "privilege_database \<Rightarrow> user_privilege \<times> user_privilege \<Rightarrow> user_privilege \<times> user_privilege" where
  "insert_database_privilege privilege_database = (\<lambda>(mem_privilege, insert_privilege).
     let same = (\<lambda>m. pd_id m = pd_id privilege_database) in
     if \<exists>m \<in> set (up_privilege_database mem_privilege). same m then
       (mem_privilege\<lparr>up_privilege_database :=
          update_first same (grant_database privilege_database) (up_privilege_database mem_privilege)\<rparr>,
        insert_privilege)
     else
       (mem_privilege\<lparr>up_privilege_database := up_privilege_database mem_privilege @ [privilege_database]\<rparr>,
        insert_privilege\<lparr>up_privilege_database := up_privilege_database insert_privilege @ [privilege_database]\<rparr>))"

definition same_table :: "privilege_table \<Rightarrow> privilege_table \<Rightarrow> bool" where
  "same_table p m \<longleftrightarrow> get_or 0 (pt_database_id m) = get_or 0 (pt_database_id p) \<and> pt_id m = pt_id p"

definition grant_table :: "privilege_table \<Rightarrow> privilege_table \<Rightarrow> privilege_table" where
  "grant_table privilege_table mem_table =
     (let mem1 = (case pt_table_rw privilege_table of
            None \<Rightarrow> mem_table
          | Some rw \<Rightarrow>
              if get_or False (pt_force privilege_table) then mem_table\<lparr>pt_table_rw := Some rw\<rparr>
              else if get_or 1 (pt_table_rw mem_table) < rw then mem_table\<lparr>pt_table_rw := Some rw\<rparr>
              else mem_table)
      in case pt_acl privilege_table of
           None \<Rightarrow> mem1
         | Some acl \<Rightarrow> mem1\<lparr>pt_acl := Some (get_or 0 (pt_acl mem1) OR acl)\<rparr>)"

definition insert_table_privilege ::
  "privilege_table \<Rightarrow> user_privilege \<times> user_privilege \<Rightarrow> user_privilege \<times> user_privilege" where
  "insert_table_privilege privilege_table = (\<lambda>(mem_privilege, insert_privilege).
     if \<exists>m \<in> set (up_privilege_table mem_privilege). same_table privilege_table m then
       (mem_privilege\<lparr>up_privilege_table :=
          update_first (same_table privilege_table) (grant_table privilege_table) (up_privilege_table mem_privilege)\<rparr>,
        insert_privilege)
     else
       (mem_privilege\<lparr>up_privilege_table := up_privilege_table mem_privilege @ [privilege_table]\<rparr>,
        insert_privilege\<lparr>up_privilege_table := up_privilege_table insert_privilege @ [privilege_table]\<rparr>))"

definition insert_bns :: "bytes \<Rightarrow> user_privilege \<Rightarrow> user_privilege" where
  "insert_bns bns mem = (if bns \<in> set (up_bns mem) then mem else mem\<lparr>up_bns := up_bns mem @ [bns]\<rparr>)"

definition insert_ip :: "bytes \<Rightarrow> user_privilege \<Rightarrow> user_privilege" where
  "insert_ip ip mem = (if ip \<in> set (up_ip mem) then mem else mem\<lparr>up_ip := up_ip mem @ [ip]\<rparr>)"

definition insert_switch_table :: "int \<Rightarrow> user_privilege \<Rightarrow> user_privilege" where
  "insert_switch_table t mem =
     (if t \<in> set (up_switch_tables mem) then mem else mem\<lparr>up_switch_tables := up_switch_tables mem @ [t]\<rparr>)"

text \<open>What becomes of one stored database privilege when one on the same database is revoked,
  and whether the revoked one is noted for the index.\<close>

definition revoke_database :: "privilege_database \<Rightarrow> privilege_database \<Rightarrow> privilege_database list \<times> privilege_database list" where
  "revoke_database privilege_database copy_database =
     (let (kept, deleted) = (case pd_database_rw privilege_database of
            Some rw \<Rightarrow> if rw < get_or 1 (pd_database_rw copy_database) then ([privilege_database], [])
                       else ([], [privilege_database])
          | None \<Rightarrow> ([], [privilege_database]))
      in case pd_acl privilege_database of
           None \<Rightarrow> (kept, deleted)
         | Some acl \<Rightarrow>
             (kept @ [copy_database\<lparr>pd_acl := Some (get_or 0 (pd_acl copy_database) AND NOT acl)\<rparr>], deleted))"

definition delete_database_privilege ::
  "privilege_database \<Rightarrow> user_privilege \<times> user_privilege \<Rightarrow> user_privilege \<times> user_privilege" where
  "delete_database_privilege privilege_database = (\<lambda>(mem_privilege, delete_privilege).
     let turns = map (\<lambda>copy_database.
           if pd_id copy_database = pd_id privilege_database then revoke_database privilege_database copy_database
           else ([copy_database], [])) (up_privilege_database mem_privilege)
     in (mem_privilege\<lparr>up_privilege_database := concat (map fst turns)\<rparr>,
         delete_privilege\<lparr>up_privilege_database := up_privilege_database delete_privilege @ concat (map snd turns)\<rparr>))"

definition revoke_table :: "privilege_table \<Rightarrow> privilege_table \<Rightarrow> privilege_table list \<times> privilege_table list" where
  "revoke_table privilege_table copy_table =
     (let (kept, deleted) = (case pt_table_rw privilege_table of
            Some rw \<Rightarrow> if rw < get_or 1 (pt_table_rw copy_table) then ([privilege_table], [])
                       else ([], [privilege_table])
          | None \<Rightarrow> ([], [privilege_table]))
      in case pt_acl privilege_table of
           None \<Rightarrow> (kept, deleted)
         | Some acl \<Rightarrow>
             (kept @ [copy_table\<lparr>pt_acl := Some (get_or 0 (pt_acl copy_table) AND NOT acl)\<rparr>], deleted))"

definition delete_table_privilege ::
  "privilege_table \<Rightarrow> user_privilege \<times> user_privilege \<Rightarrow> user_privilege \<times> user_privilege" where
  "delete_table_privilege privilege_table = (\<lambda>(mem_privilege, delete_privilege).
     let turns = map (\<lambda>copy_table.
           if same_table privilege_table copy_table then revoke_table privilege_table copy_table
           else ([copy_table], [])) (up_privilege_table mem_privilege)
     in (mem_privilege\<lparr>up_privilege_table := concat (map fst turns)\<rparr>,
         delete_privilege\<lparr>up_privilege_table := up_privilege_table delete_privilege @ concat (map snd turns)\<rparr>))"

definition delete_bns :: "bytes \<Rightarrow> user_privilege \<Rightarrow> user_privilege" where
  "delete_bns bns mem = mem\<lparr>up_bns := filter (\<lambda>b. b \<noteq> bns) (up_bns mem)\<rparr>"

definition delete_ip :: "bytes \<Rightarrow> user_privilege \<Rightarrow> user_privilege" where
  "delete_ip ip mem = mem\<lparr>up_ip := filter (\<lambda>i. i \<noteq> ip) (up_ip mem)\<rparr>"

definition delete_switch_table :: "int \<Rightarrow> user_privilege \<Rightarrow> user_privilege" where
  "delete_switch_table t mem = mem\<lparr>up_switch_tables := filter (\<lambda>x. x \<noteq> t) (up_switch_tables mem)\<rparr>"

section \<open>Handlers\<close>

text \<open>Writes a user to the database, and what the handlers do then with the answer.\<close>

definition store_user ::
  "'db meta_env \<Rightarrow> bytes \<Rightarrow> user_privilege \<Rightarrow> ('db meta_state \<Rightarrow> 'db meta_state) \<Rightarrow> 'db meta_state \<Rightarrow>
   errcode \<times> 'db meta_state" where
  "store_user E username user_privilege in_memory s =
     (case me_ser_user E user_privilege of
        None \<Rightarrow> (PARSE_TO_PB_FAIL, s)
      | Some value \<Rightarrow>
          (case put_meta_info (me_rocks E) (construct_privilege_key username) value (ms_db s) of
             (ret, db') \<Rightarrow>
               let s1 = s\<lparr>ms_db := db'\<rparr> in
               if ret < 0 then (INTERNAL_ERROR, s1)
               else (SUCCESS, in_memory
                 (s1\<lparr>ms_user_privilege := (ms_user_privilege s1)(username \<mapsto> user_privilege)\<rparr>))))"

definition create_user ::
  "'db meta_env \<Rightarrow> meta_request \<Rightarrow> 'db meta_state \<Rightarrow> errcode \<times> 'db meta_state" where
  "create_user E request s =
     (let user_privilege = req_user request; username = up_username user_privilege in
      if ms_user_privilege s username \<noteq> None then
        (if get_or False (up_if_exist user_privilege) then (INPUT_PARAM_ERROR, s) else (SUCCESS, s))
      else case check_and_get_for_privilege s user_privilege of
        None \<Rightarrow> (INPUT_PARAM_ERROR, s)
      | Some checked \<Rightarrow>
          let user_privilege = checked\<lparr>up_version := Some 1\<rparr> in
          store_user E username user_privilege (insert_db_tbl_user_map user_privilege) s)"

definition drop_user ::
  "'db meta_env \<Rightarrow> meta_request \<Rightarrow> 'db meta_state \<Rightarrow> errcode \<times> 'db meta_state" where
  "drop_user E request s =
     (let user_privilege = req_user request; username = up_username user_privilege in
      case ms_user_privilege s username of
        None \<Rightarrow> (if \<not> get_or False (up_if_exist user_privilege) then (INPUT_PARAM_ERROR, s) else (SUCCESS, s))
      | Some delete_privilege \<Rightarrow>
          (case delete_meta_info (me_rocks E) [construct_privilege_key username] (ms_db s) of
             (ret, db') \<Rightarrow>
               let s1 = s\<lparr>ms_db := db'\<rparr> in
               if ret < 0 then (INTERNAL_ERROR, s1)
               else (SUCCESS, delete_db_tbl_user_map delete_privilege
                 (s1\<lparr>ms_user_privilege := (ms_user_privilege s1)(username := None)\<rparr>))))"

definition modify_user ::
  "'db meta_env \<Rightarrow> meta_request \<Rightarrow> 'db meta_state \<Rightarrow> errcode \<times> 'db meta_state" where
  "modify_user E request s =
     (let user_privilege = req_user request; username = up_username user_privilege in
      case ms_user_privilege s username of
        None \<Rightarrow> (if \<not> get_or False (up_if_exist user_privilege) then (INPUT_PARAM_ERROR, s) else (SUCCESS, s))
      | Some stored \<Rightarrow>
          (case check_and_get_for_privilege s user_privilege of
             None \<Rightarrow> (INPUT_PARAM_ERROR, s)
           | Some checked \<Rightarrow>
               let tmp_info = stored\<lparr>up_namespace_id := Some (get_or 0 (up_namespace_id checked)),
                     up_namespace_name := up_namespace_name checked,
                     up_password := Some (get_or [] (up_password checked)),
                     up_version := Some (get_or 0 (up_version stored) + 1)\<rparr>
               in store_user E username tmp_info (\<lambda>s. s) s))"

text \<open>The scalar fields that a grant overwrites.\<close>

definition grant_fields :: "user_privilege \<Rightarrow> user_privilege \<Rightarrow> user_privilege" where
  "grant_fields user_privilege mem =
     mem\<lparr>up_need_auth_addr := set_if (up_need_auth_addr user_privilege) (up_need_auth_addr mem),
       up_resource_tag := set_if (up_resource_tag user_privilege) (up_resource_tag mem),
       up_ddl_permission := set_if (up_ddl_permission user_privilege) (up_ddl_permission mem),
       up_txn_lock_timeout := set_if (up_txn_lock_timeout user_privilege) (up_txn_lock_timeout mem),
       up_use_read_index := set_if (up_use_read_index user_privilege) (up_use_read_index mem),
       up_enable_plan_cache := set_if (up_enable_plan_cache user_privilege) (up_enable_plan_cache mem),
       up_request_range_partition_type :=
         set_if (up_request_range_partition_type user_privilege) (up_request_range_partition_type mem),
       up_acl := (case up_acl user_privilege of None \<Rightarrow> up_acl mem
         | Some acl \<Rightarrow> Some (get_or 0 (up_acl mem) OR acl)),
       up_is_super := set_if (up_is_super user_privilege) (up_is_super mem),
       up_is_request_additional := set_if (up_is_request_additional user_privilege) (up_is_request_additional mem)\<rparr>"

text \<open>The stored user with a checked request granted, and what is new for the indexes.\<close>

definition granted :: "user_privilege \<Rightarrow> user_privilege \<Rightarrow> user_privilege \<times> user_privilege" where
  "granted user_privilege stored =
     (let start = (stored, no_user_privilege\<lparr>up_username := up_username user_privilege\<rparr>);
          (mem, ins) = fold insert_table_privilege (up_privilege_table user_privilege)
            (fold insert_database_privilege (up_privilege_database user_privilege) start);
          mem = fold insert_bns (up_bns user_privilege) mem;
          mem = fold insert_ip (up_ip user_privilege) mem;
          mem = fold insert_switch_table (up_switch_tables user_privilege) mem;
          mem = grant_fields user_privilege mem
      in (mem\<lparr>up_version := Some (get_or 0 (up_version mem) + 1)\<rparr>, ins))"

definition add_privilege ::
  "'db meta_env \<Rightarrow> meta_request \<Rightarrow> 'db meta_state \<Rightarrow> errcode \<times> 'db meta_state" where
  "add_privilege E request s =
     (let user_privilege = req_user request; username = up_username user_privilege in
      case ms_user_privilege s username of
        None \<Rightarrow> (INPUT_PARAM_ERROR, s)
      | Some stored \<Rightarrow>
          (case check_and_get_for_privilege s user_privilege of
             None \<Rightarrow> (INPUT_PARAM_ERROR, s)
           | Some checked \<Rightarrow>
               (case granted checked stored of (mem, insert_privilege) \<Rightarrow>
                  store_user E username mem (insert_db_tbl_user_map insert_privilege) s)))"

definition revoke_fields :: "user_privilege \<Rightarrow> user_privilege \<Rightarrow> user_privilege" where
  "revoke_fields user_privilege mem =
     mem\<lparr>up_need_auth_addr := set_if (up_need_auth_addr user_privilege) (up_need_auth_addr mem),
       up_resource_tag := (if up_resource_tag user_privilege \<noteq> None \<and> up_resource_tag mem \<noteq> None \<and>
           up_resource_tag user_privilege = up_resource_tag mem then None else up_resource_tag mem),
       up_acl := (case up_acl user_privilege of None \<Rightarrow> up_acl mem
         | Some acl \<Rightarrow> Some (get_or 0 (up_acl mem) AND NOT acl))\<rparr>"

definition revoked :: "user_privilege \<Rightarrow> user_privilege \<Rightarrow> user_privilege \<times> user_privilege" where
  "revoked user_privilege stored =
     (let start = (stored, no_user_privilege\<lparr>up_username := up_username user_privilege\<rparr>);
          (mem, del) = fold delete_table_privilege (up_privilege_table user_privilege)
            (fold delete_database_privilege (up_privilege_database user_privilege) start);
          mem = fold delete_bns (up_bns user_privilege) mem;
          mem = fold delete_ip (up_ip user_privilege) mem;
          mem = fold delete_switch_table (up_switch_tables user_privilege) mem;
          mem = revoke_fields user_privilege mem
      in (mem\<lparr>up_version := Some (get_or 0 (up_version mem) + 1)\<rparr>, del))"

definition drop_privilege ::
  "'db meta_env \<Rightarrow> meta_request \<Rightarrow> 'db meta_state \<Rightarrow> errcode \<times> 'db meta_state" where
  "drop_privilege E request s =
     (let user_privilege = req_user request; username = up_username user_privilege in
      case ms_user_privilege s username of
        None \<Rightarrow> (INPUT_PARAM_ERROR, s)
      | Some stored \<Rightarrow>
          (case check_and_get_for_privilege s user_privilege of
             None \<Rightarrow> (INPUT_PARAM_ERROR, s)
           | Some checked \<Rightarrow>
               (case revoked checked stored of (mem, delete_privilege) \<Rightarrow>
                  store_user E username mem (delete_db_tbl_user_map delete_privilege) s)))"

definition privilege_heartbeat :: "'db meta_env \<Rightarrow> 'db meta_state \<Rightarrow> user_privilege list" where
  "privilege_heartbeat E s = map (\<lambda>u. the (ms_user_privilege s u)) (me_visit E (dom (ms_user_privilege s)))"

section \<open>Snapshots\<close>

fun load_users :: "'db meta_env \<Rightarrow> (bytes \<times> bytes) list \<Rightarrow> 'db meta_state \<Rightarrow> int \<times> 'db meta_state" where
  "load_users E [] s = (0, s)"
| "load_users E ((key, value) # kvs) s =
     (case me_parse_user E value of
        None \<Rightarrow> (-1, s)
      | Some user_privilege \<Rightarrow>
          load_users E kvs (insert_db_tbl_user_map user_privilege
            (s\<lparr>ms_user_privilege := (ms_user_privilege s)
                 (drop (length PRIVILEGE_IDENTIFY) key \<mapsto> user_privilege)\<rparr>)))"

text \<open>The iterator's prefix is one byte in this column family, and its status is not looked at.\<close>

definition privilege_load_snapshot :: "'db meta_env \<Rightarrow> 'db meta_state \<Rightarrow> int \<times> 'db meta_state" where
  "privilege_load_snapshot E s =
     load_users E (fst (rk_iterate (me_rocks E) (ms_db s) Meta_Info_Cf 1 PRIVILEGE_IDENTIFY))
       (s\<lparr>ms_user_privilege := Map.empty, ms_db_user_map := Map.empty, ms_tbl_user_map := Map.empty\<rparr>)"

section \<open>Privileges on what no longer exists\<close>

definition swap_elements :: "nat \<Rightarrow> nat \<Rightarrow> 'a list \<Rightarrow> 'a list" where
  "swap_elements i j xs = xs[i := xs ! j, j := xs ! i]"

text \<open>The two-pointer loop: the valid elements come first, and the number of them.\<close>

function compact :: "('a \<Rightarrow> bool) \<Rightarrow> nat \<Rightarrow> nat \<Rightarrow> 'a list \<Rightarrow> nat \<times> 'a list" where
  "compact valid slow fast xs =
     (if fast < length xs then
        if valid (xs ! fast) then compact valid (slow + 1) (fast + 1) (swap_elements slow fast xs)
        else compact valid slow (fast + 1) xs
      else (slow, xs))"
  by pat_completeness auto
termination
  by (relation "measure (\<lambda>(valid, slow, fast, xs). length xs - fast)") (auto simp: swap_elements_def)

declare compact.simps [simp del]

fun remove_last :: "nat \<Rightarrow> 'a list \<Rightarrow> 'a list \<Rightarrow> 'a list \<times> 'a list" where
  "remove_last 0 xs removed = (xs, removed)"
| "remove_last (Suc n) xs removed = remove_last n (butlast xs) (removed @ [last xs])"

definition sweep :: "('a \<Rightarrow> bool) \<Rightarrow> 'a list \<Rightarrow> 'a list \<times> 'a list" where
  "sweep valid xs =
     (case compact valid 0 0 xs of (slow, ys) \<Rightarrow> remove_last (length ys - slow) ys [])"

definition invalid_of_user :: "'db meta_state \<Rightarrow> bytes \<Rightarrow> user_privilege \<Rightarrow> user_privilege \<times> user_privilege" where
  "invalid_of_user s username privilege =
     (let (dbs, bad_dbs) = sweep (\<lambda>p. ms_database_info_map s (pd_id p) \<noteq> None) (up_privilege_database privilege);
          (tbls, bad_tbls) = sweep (\<lambda>p. ms_table_info_map s (pt_id p) \<noteq> None) (up_privilege_table privilege)
      in (privilege\<lparr>up_privilege_database := dbs, up_privilege_table := tbls\<rparr>,
          no_user_privilege\<lparr>up_username := username, up_privilege_database := bad_dbs, up_privilege_table := bad_tbls\<rparr>))"

text \<open>The loop over the users in the order in which the copy of the map is visited.\<close>

fun drop_invalid_loop ::
  "'db meta_env \<Rightarrow> (bytes \<times> user_privilege) list \<Rightarrow> 'db meta_state \<Rightarrow> errcode \<times> 'db meta_state" where
  "drop_invalid_loop E [] s = (SUCCESS, s)"
| "drop_invalid_loop E ((username, privilege) # users) s =
     (case invalid_of_user s username privilege of (kept, delete_privilege) \<Rightarrow>
        if up_privilege_database delete_privilege \<noteq> [] \<or> up_privilege_table delete_privilege \<noteq> [] then
          (case store_user E username (kept\<lparr>up_version := Some (get_or 0 (up_version kept) + 1)\<rparr>)
                  (delete_db_tbl_user_map delete_privilege) s of
             (SUCCESS, s') \<Rightarrow> drop_invalid_loop E users s'
           | (e, s') \<Rightarrow> (e, s'))
        else drop_invalid_loop E users s)"

definition drop_invalid_privilege ::
  "'db meta_env \<Rightarrow> 'db meta_state \<Rightarrow> errcode \<times> 'db meta_state" where
  "drop_invalid_privilege E s =
     drop_invalid_loop E
       (map (\<lambda>u. (u, the (ms_user_privilege s u))) (me_visit E (dom (ms_user_privilege s)))) s"

end
