(* ===== verification/DatabaseManager.thy ===== *)
theory DatabaseManager
  imports NamespaceManager PrivilegeManager
begin

text \<open>
  The handlers of \<^verbatim>\<open>DatabaseManager\<close> (\<^verbatim>\<open>src/meta_server/database_manager.cpp\<close>). They call the
  namespace manager, which keeps the databases of each namespace, and the privilege
  manager, which grants the creator of a database its privileges and takes those of all
  users away when it is dropped.
\<close>

text \<open>What a new database takes over from its namespace.\<close>

definition inherit_database :: "namespace_info \<Rightarrow> database_info \<Rightarrow> database_info" where
  "inherit_database namespace_info database_info =
     database_info\<lparr>di_resource_tag := (if di_resource_tag database_info = None \<and>
           get_or [] (ni_resource_tag namespace_info) \<noteq> []
         then Some (get_or [] (ni_resource_tag namespace_info)) else di_resource_tag database_info),
       di_engine := set_if (di_engine database_info) (ni_engine namespace_info),
       di_charset := set_if (di_charset database_info) (ni_charset namespace_info),
       di_byte_size_per_record := set_if (di_byte_size_per_record database_info) (ni_byte_size_per_record namespace_info),
       di_replica_num := set_if (di_replica_num database_info) (ni_replica_num namespace_info),
       di_region_split_lines := set_if (di_region_split_lines database_info) (ni_region_split_lines namespace_info),
       di_dists := set_if_rep (di_dists database_info) (ni_dists namespace_info),
       di_main_logical_room := set_if (di_main_logical_room database_info) (ni_main_logical_room namespace_info),
       di_learner_resource_tags :=
         set_if_rep (di_learner_resource_tags database_info) (ni_learner_resource_tags namespace_info),
       di_binlog_infos := set_if_rep (di_binlog_infos database_info) (ni_binlog_infos namespace_info)\<rparr>"

definition add_privilege_for_database ::
  "'db meta_env \<Rightarrow> meta_request \<Rightarrow> 'db meta_state \<Rightarrow> 'db meta_state" where
  "add_privilege_for_database E request s =
     (if mr_user_privilege request = None then s else snd (add_privilege E request s))"

definition create_database ::
  "'db meta_env \<Rightarrow> meta_request \<Rightarrow> 'db meta_state \<Rightarrow> errcode \<times> 'db meta_state" where
  "create_database E request s =
     (let database_info = mr_database_info request;
          namespace_name = di_namespace_name database_info;
          database_name = full_name namespace_name (di_database database_info);
          namespace_id = get_namespace_id namespace_name s
      in
      if namespace_id = 0 then (INPUT_PARAM_ERROR, s)
      else if ms_database_id_map s database_name \<noteq> None then (INPUT_PARAM_ERROR, s)
      else
        let tmp_database_id = ms_max_database_id s + 1;
            info1 = database_info\<lparr>di_database_id := Some tmp_database_id, di_namespace_id := Some namespace_id\<rparr>;
            info2 = (case ms_namespace_info_map s namespace_id of
              None \<Rightarrow> info1 | Some namespace_info \<Rightarrow> inherit_database namespace_info info1);
            info3 = info2\<lparr>di_version := Some 1\<rparr>
        in
        case me_ser_db E info3 of
          None \<Rightarrow> (PARSE_TO_PB_FAIL, s)
        | Some database_value \<Rightarrow>
            (case put_meta_infos (me_rocks E)
                    [construct_database_key (me_big E) tmp_database_id, construct_max_database_id_key]
                    [database_value, mem_bytes (me_big E) 8 (word_of_int tmp_database_id :: 64 word)] (ms_db s) of
               (ret, db') \<Rightarrow>
                 let s1 = s\<lparr>ms_db := db'\<rparr> in
                 if ret < 0 then (INTERNAL_ERROR, s1)
                 else
                   (SUCCESS, add_privilege_for_database E request
                     (add_database_id namespace_id tmp_database_id
                       ((set_database_info info3 s1)\<lparr>ms_max_database_id := tmp_database_id\<rparr>)))))"

text \<open>The request that revokes what one user has on a database.\<close>

definition drop_privilege_request :: "meta_request \<Rightarrow> bytes \<Rightarrow> meta_request" where
  "drop_privilege_request request user =
     request\<lparr>mr_user_privilege := Some (no_user_privilege
       \<lparr>up_namespace_name := di_namespace_name (mr_database_info request), up_username := user,
        up_privilege_database := [\<lparr>pd_database = di_database (mr_database_info request), pd_database_id = None,
          pd_database_rw = None, pd_force = None, pd_acl = None\<rparr>]\<rparr>)\<rparr>"

definition drop_privilege_for_database ::
  "'db meta_env \<Rightarrow> meta_request \<Rightarrow> int \<Rightarrow> 'db meta_state \<Rightarrow> 'db meta_state" where
  "drop_privilege_for_database E request database_id s =
     (case get_db_user_set database_id s of
        None \<Rightarrow> s
      | Some user_set \<Rightarrow>
          fold (\<lambda>user s. snd (drop_privilege E (drop_privilege_request request user) s)) (me_visit E user_set) s)"

definition drop_database ::
  "'db meta_env \<Rightarrow> meta_request \<Rightarrow> 'db meta_state \<Rightarrow> errcode \<times> 'db meta_state" where
  "drop_database E request s =
     (let database_info = mr_database_info request;
          namespace_name = di_namespace_name database_info;
          database_name = full_name namespace_name (di_database database_info);
          namespace_id = get_namespace_id namespace_name s
      in
      if namespace_id = 0 then (INPUT_PARAM_ERROR, s)
      else case ms_database_id_map s database_name of
        None \<Rightarrow> (INPUT_PARAM_ERROR, s)
      | Some database_id \<Rightarrow>
          let s1 = s\<lparr>ms_table_ids := touch database_id (ms_table_ids s)\<rparr> in
          if set_at (ms_table_ids s) database_id \<noteq> {} then (INPUT_PARAM_ERROR, s1)
          else
            let s2 = drop_privilege_for_database E request database_id s1 in
            case delete_meta_info (me_rocks E) [construct_database_key (me_big E) database_id] (ms_db s2) of
              (ret, db') \<Rightarrow>
                let s3 = s2\<lparr>ms_db := db'\<rparr> in
                if ret < 0 then (INTERNAL_ERROR, s3)
                else (SUCCESS, delete_database_id namespace_id database_id (erase_database_info database_name s3)))"

definition merge_database :: "database_info \<Rightarrow> database_info \<Rightarrow> database_info" where
  "merge_database database_info tmp_info =
     tmp_info\<lparr>di_quota := set_if (di_quota database_info) (di_quota tmp_info),
       di_resource_tag := set_if (di_resource_tag database_info) (di_resource_tag tmp_info),
       di_engine := set_if (di_engine database_info) (di_engine tmp_info),
       di_charset := set_if (di_charset database_info) (di_charset tmp_info),
       di_byte_size_per_record := set_if (di_byte_size_per_record database_info) (di_byte_size_per_record tmp_info),
       di_replica_num := set_if (di_replica_num database_info) (di_replica_num tmp_info),
       di_region_split_lines := set_if (di_region_split_lines database_info) (di_region_split_lines tmp_info),
       di_dists := set_if_rep (di_dists database_info) (di_dists tmp_info),
       di_main_logical_room := set_if (di_main_logical_room database_info) (di_main_logical_room tmp_info),
       di_learner_resource_tags := set_if_rep (di_learner_resource_tags database_info) (di_learner_resource_tags tmp_info),
       di_binlog_infos := set_if_rep (di_binlog_infos database_info) (di_binlog_infos tmp_info),
       di_partition_info_str := set_if (di_partition_info_str database_info) (di_partition_info_str tmp_info)\<rparr>"

definition no_database_info :: database_info where
  "no_database_info =
     \<lparr>di_database = [], di_database_id = None, di_namespace_name = [], di_namespace_id = None, di_quota = None,
      di_version = None, di_deleted = None, di_resource_tag = None, di_engine = None, di_charset = None,
      di_byte_size_per_record = None, di_replica_num = None, di_region_split_lines = None, di_dists = [],
      di_main_logical_room = None, di_learner_resource_tags = [], di_binlog_infos = [],
      di_partition_info_str = None\<rparr>"

definition modify_database ::
  "'db meta_env \<Rightarrow> meta_request \<Rightarrow> 'db meta_state \<Rightarrow> errcode \<times> 'db meta_state" where
  "modify_database E request s =
     (let database_info = mr_database_info request;
          namespace_name = di_namespace_name database_info;
          database_name = full_name namespace_name (di_database database_info);
          namespace_id = get_namespace_id namespace_name s
      in
      if namespace_id = 0 then (INPUT_PARAM_ERROR, s)
      else case ms_database_id_map s database_name of
        None \<Rightarrow> (INPUT_PARAM_ERROR, s)
      | Some database_id \<Rightarrow>
          let old_info = get_or no_database_info (ms_database_info_map s database_id);
              s1 = s\<lparr>ms_database_info_map := (ms_database_info_map s)(database_id \<mapsto> old_info)\<rparr>;
              tmp_info = (if mr_is_force_setting request
                then database_info\<lparr>di_database_id := Some database_id, di_namespace_id := Some namespace_id\<rparr>
                else merge_database database_info old_info);
              tmp_info = tmp_info\<lparr>di_version := Some (get_or 0 (di_version old_info) + 1)\<rparr>
          in
          case me_ser_db E tmp_info of
            None \<Rightarrow> (PARSE_TO_PB_FAIL, s1)
          | Some database_value \<Rightarrow>
              (case put_meta_info (me_rocks E) (construct_database_key (me_big E) database_id) database_value (ms_db s1) of
                 (ret, db') \<Rightarrow>
                   let s2 = s1\<lparr>ms_db := db'\<rparr> in
                   if ret < 0 then (INTERNAL_ERROR, s2)
                   else (SUCCESS, set_database_info tmp_info s2)))"

definition load_database_snapshot :: "'db meta_env \<Rightarrow> bytes \<Rightarrow> 'db meta_state \<Rightarrow> int \<times> 'db meta_state" where
  "load_database_snapshot E value s =
     (case me_parse_db E value of
        None \<Rightarrow> (-1, s)
      | Some database_pb \<Rightarrow>
          (0, add_database_id (get_or 0 (di_namespace_id database_pb)) (get_or 0 (di_database_id database_pb))
                (set_database_info database_pb s)))"

definition database_heartbeat :: "int list \<Rightarrow> 'db meta_state \<Rightarrow> database_info list" where
  "database_heartbeat ids s = map (\<lambda>i. the (ms_database_info_map s i)) ids"

end
