(* ===== verification/MetaSnapshot.thy ===== *)
theory MetaSnapshot
  imports DatabaseManager
begin

text \<open>
  Loading the schema from RocksDB, \<^verbatim>\<open>SchemaManager::load_snapshot\<close> and
  \<^verbatim>\<open>load_max_id_snapshot\<close> (\<^verbatim>\<open>src/meta_server/schema_manager.cpp\<close>), and the part of
  \<^verbatim>\<open>MetaStateMachine::on_apply\<close> that dispatches to the managers modelled here. What the table,
  region and DDL managers do with their own keys is the parameter \<open>others\<close>.
\<close>

section \<open>Loading\<close>

definition starts_with :: "bytes \<Rightarrow> bytes \<Rightarrow> bool" where
  "starts_with key prefix \<longleftrightarrow> take (length prefix) key = prefix"

text \<open>\<^term>\<open>None\<close> is a value too short for the eight bytes that are read.\<close>

definition load_max_id_snapshot ::
  "'db meta_env \<Rightarrow> bytes \<Rightarrow> bytes \<Rightarrow> bytes \<Rightarrow> 'db meta_state \<Rightarrow> (int \<times> 'db meta_state) option" where
  "load_max_id_snapshot E max_id_prefix key value s =
     (let max_key = drop (length max_id_prefix) key;
          max_id = sint (mem_word (me_big E) (take 8 value) :: 64 word)
      in
      if max_key = MAX_NAMESPACE_ID_KEY then
        (if length value < 8 then None else Some (0, s\<lparr>ms_max_namespace_id := max_id\<rparr>))
      else if max_key = MAX_DATABASE_ID_KEY then
        (if length value < 8 then None else Some (0, s\<lparr>ms_max_database_id := max_id\<rparr>))
      else if max_key = MAX_TABLE_ID_KEY \<or> max_key = MAX_REGION_ID_KEY then
        (if length value < 8 then None else Some (0, s))
      else Some (0, s))"

definition load_schema_entry ::
  "'db meta_env \<Rightarrow> (bytes \<Rightarrow> bytes \<Rightarrow> 'db meta_state \<Rightarrow> int \<times> 'db meta_state) \<Rightarrow> bytes \<Rightarrow> bytes \<Rightarrow>
   'db meta_state \<Rightarrow> (int \<times> 'db meta_state) option" where
  "load_schema_entry E others key value s =
     (if starts_with key (SCHEMA_IDENTIFY @ REGION_SCHEMA_IDENTIFY) then Some (others key value s)
      else if starts_with key (SCHEMA_IDENTIFY @ TABLE_SCHEMA_IDENTIFY) then Some (others key value s)
      else if starts_with key (SCHEMA_IDENTIFY @ DATABASE_SCHEMA_IDENTIFY) then Some (load_database_snapshot E value s)
      else if starts_with key (SCHEMA_IDENTIFY @ NAMESPACE_SCHEMA_IDENTIFY) then Some (load_namespace_snapshot E value s)
      else if starts_with key (SCHEMA_IDENTIFY @ MAX_ID_SCHEMA_IDENTIFY) then
        load_max_id_snapshot E (SCHEMA_IDENTIFY @ MAX_ID_SCHEMA_IDENTIFY) key value s
      else if starts_with key (SCHEMA_IDENTIFY @ STATISTICS_IDENTIFY) then Some (others key value s)
      else if starts_with key (SCHEMA_IDENTIFY @ DDLWORK_IDENTIFY) then Some (others key value s)
      else if starts_with key (SCHEMA_IDENTIFY @ INDEX_DDLWORK_REGION_IDENTIFY) then Some (others key value s)
      else Some (0, s))"

fun load_schema_loop ::
  "'db meta_env \<Rightarrow> (bytes \<Rightarrow> bytes \<Rightarrow> 'db meta_state \<Rightarrow> int \<times> 'db meta_state) \<Rightarrow> (bytes \<times> bytes) list \<Rightarrow>
   'db meta_state \<Rightarrow> (int \<times> 'db meta_state) option" where
  "load_schema_loop E others [] s = Some (0, s)"
| "load_schema_loop E others ((key, value) # kvs) s =
     (case load_schema_entry E others key value s of
        None \<Rightarrow> None
      | Some (ret, s') \<Rightarrow> if ret \<noteq> 0 then Some (-1, s') else load_schema_loop E others kvs s')"

definition table_clear :: "'db meta_state \<Rightarrow> 'db meta_state" where
  "table_clear s = s\<lparr>ms_table_id_map := Map.empty, ms_table_info_map := Map.empty\<rparr>"

definition schema_load_snapshot ::
  "'db meta_env \<Rightarrow> (bytes \<Rightarrow> bytes \<Rightarrow> 'db meta_state \<Rightarrow> int \<times> 'db meta_state) \<Rightarrow> 'db meta_state \<Rightarrow>
   (int \<times> 'db meta_state) option" where
  "schema_load_snapshot E others s =
     load_schema_loop E others (fst (rk_iterate (me_rocks E) (ms_db s) Meta_Info_Cf 1 SCHEMA_IDENTIFY))
       (table_clear (database_clear (namespace_clear s)))"

section \<open>Applying requests\<close>

datatype meta_op = Create_User | Drop_User | Modify_User | Add_Privilege | Drop_Privilege
  | Drop_Invalid_Privilege | Create_Namespace | Drop_Namespace | Modify_Namespace
  | Create_Database | Drop_Database | Modify_Database

fun meta_apply ::
  "'db meta_env \<Rightarrow> meta_op \<Rightarrow> meta_request \<Rightarrow> 'db meta_state \<Rightarrow> errcode \<times> 'db meta_state" where
  "meta_apply E Create_User request s = create_user E request s"
| "meta_apply E Drop_User request s = drop_user E request s"
| "meta_apply E Modify_User request s = modify_user E request s"
| "meta_apply E Add_Privilege request s = add_privilege E request s"
| "meta_apply E Drop_Privilege request s = drop_privilege E request s"
| "meta_apply E Drop_Invalid_Privilege request s = drop_invalid_privilege E s"
| "meta_apply E Create_Namespace request s = create_namespace E request s"
| "meta_apply E Drop_Namespace request s = drop_namespace E request s"
| "meta_apply E Modify_Namespace request s = modify_namespace E request s"
| "meta_apply E Create_Database request s = create_database E request s"
| "meta_apply E Drop_Database request s = drop_database E request s"
| "meta_apply E Modify_Database request s = modify_database E request s"

end
