(* ===== verification/MetaInvariant.thy ===== *)
theory MetaInvariant
  imports MetaSnapshot
begin

text \<open>
  The invariants of the meta server's tables. In memory: names and ids determine each
  other, ids are positive and at most the greatest one given out, every database belongs to
  a namespace that exists, and the namespace lists exactly its databases. In the database:
  what is stored is what is in memory. Each handler keeps them, whether its writes
  succeed or fail.
\<close>

section \<open>The invariants\<close>

abbreviation meta_of :: "('db \<Rightarrow> contents) \<Rightarrow> 'db meta_state \<Rightarrow> bytes \<rightharpoonup> bytes" where
  "meta_of C s \<equiv> C (ms_db s) Meta_Info_Cf"

definition id_ok :: "int \<Rightarrow> int \<Rightarrow> bool" where
  "id_ok m i \<longleftrightarrow> 0 < i \<and> i \<le> m \<and> m < 2 ^ 63"

definition ns_ok :: "'db meta_state \<Rightarrow> bool" where
  "ns_ok s \<longleftrightarrow> 0 \<le> ms_max_namespace_id s \<and> ms_max_namespace_id s < 2 ^ 63 \<and>
     (\<forall>i info. ms_namespace_info_map s i = Some info \<longrightarrow> ni_namespace_id info = Some i \<and>
        id_ok (ms_max_namespace_id s) i \<and> 1 \<notin> set (ni_namespace_name info) \<and>
        ms_namespace_id_map s (ni_namespace_name info) = Some i) \<and>
     (\<forall>name i. ms_namespace_id_map s name = Some i \<longrightarrow>
        (\<exists>info. ms_namespace_info_map s i = Some info \<and> ni_namespace_name info = name))"

text \<open>A database and the namespace it belongs to.\<close>

definition db_of_ns :: "'db meta_state \<Rightarrow> database_info \<Rightarrow> bool" where
  "db_of_ns s info \<longleftrightarrow> (\<exists>n ns. di_namespace_id info = Some n \<and> ms_namespace_info_map s n = Some ns \<and>
     di_namespace_name info = ni_namespace_name ns)"

definition db_ok :: "'db meta_state \<Rightarrow> bool" where
  "db_ok s \<longleftrightarrow> 0 \<le> ms_max_database_id s \<and> ms_max_database_id s < 2 ^ 63 \<and>
     (\<forall>i info. ms_database_info_map s i = Some info \<longrightarrow> di_database_id info = Some i \<and>
        id_ok (ms_max_database_id s) i \<and> db_of_ns s info \<and>
        ms_database_id_map s (full_name (di_namespace_name info) (di_database info)) = Some i) \<and>
     (\<forall>name i. ms_database_id_map s name = Some i \<longrightarrow>
        (\<exists>info. ms_database_info_map s i = Some info \<and> full_name (di_namespace_name info) (di_database info) = name)) \<and>
     (\<forall>n. set_at (ms_database_ids s) n =
        {i. \<exists>info. ms_database_info_map s i = Some info \<and> di_namespace_id info = Some n})"

text \<open>The store mirrors a table: \<open>key\<close> gives the keys of its rows, all of which start with \<open>prefix\<close>.\<close>

definition mirrors :: "(bytes \<rightharpoonup> bytes) \<Rightarrow> bytes \<Rightarrow> (int \<Rightarrow> bytes) \<Rightarrow> ('i \<Rightarrow> bytes option) \<Rightarrow> (int \<rightharpoonup> 'i) \<Rightarrow> bool" where
  "mirrors meta prefix key ser table \<longleftrightarrow>
     (\<forall>i info. table i = Some info \<longrightarrow> ser info \<noteq> None \<and> meta (key i) = ser info) \<and>
     (\<forall>k v. meta (prefix @ k) = Some v \<longrightarrow> (\<exists>i info. table i = Some info \<and> prefix @ k = key i))"

definition stored_max :: "bool \<Rightarrow> (bytes \<rightharpoonup> bytes) \<Rightarrow> bytes \<Rightarrow> int \<Rightarrow> bool" where
  "stored_max big meta key m \<longleftrightarrow>
     meta key = (if m = 0 then None else Some (mem_bytes big 8 (word_of_int m :: 64 word)))"

definition schema_stored :: "'db meta_env \<Rightarrow> ('db \<Rightarrow> contents) \<Rightarrow> 'db meta_state \<Rightarrow> bool" where
  "schema_stored E C s \<longleftrightarrow>
     mirrors (meta_of C s) [2, 2] (construct_namespace_key (me_big E)) (me_ser_ns E) (ms_namespace_info_map s) \<and>
     mirrors (meta_of C s) [2, 3] (construct_database_key (me_big E)) (me_ser_db E) (ms_database_info_map s) \<and>
     stored_max (me_big E) (meta_of C s) construct_max_namespace_id_key (ms_max_namespace_id s) \<and>
     stored_max (me_big E) (meta_of C s) construct_max_database_id_key (ms_max_database_id s)"

definition schema_ok :: "'db meta_env \<Rightarrow> ('db \<Rightarrow> contents) \<Rightarrow> 'db meta_state \<Rightarrow> bool" where
  "schema_ok E C s \<longleftrightarrow> ns_ok s \<and> db_ok s \<and> schema_stored E C s"

text \<open>What of the state the invariant on the schema reads.\<close>

definition same_schema :: "('db \<Rightarrow> contents) \<Rightarrow> 'db meta_state \<Rightarrow> 'db meta_state \<Rightarrow> bool" where
  "same_schema C s s' \<longleftrightarrow>
     ms_max_namespace_id s' = ms_max_namespace_id s \<and> ms_namespace_id_map s' = ms_namespace_id_map s \<and>
     ms_namespace_info_map s' = ms_namespace_info_map s \<and> set_at (ms_database_ids s') = set_at (ms_database_ids s) \<and>
     ms_max_database_id s' = ms_max_database_id s \<and> ms_database_id_map s' = ms_database_id_map s \<and>
     ms_database_info_map s' = ms_database_info_map s \<and>
     (\<forall>k. meta_of C s' (2 # k) = meta_of C s (2 # k))"

definition same_users :: "('db \<Rightarrow> contents) \<Rightarrow> 'db meta_state \<Rightarrow> 'db meta_state \<Rightarrow> bool" where
  "same_users C s s' \<longleftrightarrow> ms_user_privilege s' = ms_user_privilege s \<and> ms_db_user_map s' = ms_db_user_map s \<and>
     ms_tbl_user_map s' = ms_tbl_user_map s \<and> (\<forall>k. meta_of C s' (3 # k) = meta_of C s (3 # k))"

section \<open>Keys and writes\<close>

lemmas key_defs = construct_namespace_key_def construct_database_key_def construct_max_namespace_id_key_def
  construct_max_database_id_key_def construct_privilege_key_def SCHEMA_IDENTIFY_def PRIVILEGE_IDENTIFY_def
  MAX_ID_SCHEMA_IDENTIFY_def NAMESPACE_SCHEMA_IDENTIFY_def DATABASE_SCHEMA_IDENTIFY_def

lemma mem_bytes_id_inject:
  assumes "id_ok m i" and "id_ok m j"
  shows "mem_bytes big 8 (word_of_int i :: 64 word) = mem_bytes big 8 (word_of_int j :: 64 word) \<longleftrightarrow> i = j"
proof
  assume "mem_bytes big 8 (word_of_int i :: 64 word) = mem_bytes big 8 (word_of_int j :: 64 word)"
  then have "mem_word big (mem_bytes big 8 (word_of_int i :: 64 word)) =
      (mem_word big (mem_bytes big 8 (word_of_int j :: 64 word)) :: 64 word)" by simp
  then have "(word_of_int i :: 64 word) = word_of_int j" by (simp add: mem_bytes_inverse)
  with assms show "i = j" by (intro in_i64_inject) (auto simp: in_i64_def id_ok_def)
qed simp

lemma id_ok_Suc: "0 \<le> m \<Longrightarrow> m + 1 < 2 ^ 63 \<Longrightarrow> id_ok (m + 1) (m + 1)"
  and id_ok_mono: "id_ok m i \<Longrightarrow> m + 1 < 2 ^ 63 \<Longrightarrow> id_ok (m + 1) i"
  by (simp_all add: id_ok_def)

lemma put_meta_info_cases:
  assumes "rocks_ok R C" and "put_meta_info R k v db = (r, db')"
  shows "r = 0 \<and> C db' Meta_Info_Cf = (C db Meta_Info_Cf)(k \<mapsto> v) \<or> r = -1 \<and> C db' Meta_Info_Cf = C db Meta_Info_Cf"
  using assms(2) by (auto simp: put_meta_info_def rocks_put [OF assms(1)] split: prod.splits if_splits)

lemma put_meta_infos_cases:
  assumes "rocks_ok R C" and "put_meta_infos R [k, l] [v, w] db = (r, db')"
  shows "r = 0 \<and> C db' Meta_Info_Cf = (C db Meta_Info_Cf)(k \<mapsto> v, l \<mapsto> w) \<or>
    r = -1 \<and> C db' Meta_Info_Cf = C db Meta_Info_Cf"
  using assms(2) by (auto simp: put_meta_infos_def rocks_write [OF assms(1)] split: prod.splits if_splits)

lemma delete_meta_info_cases:
  assumes "rocks_ok R C" and "delete_meta_info R [k] db = (r, db')"
  shows "r = 0 \<and> C db' Meta_Info_Cf = (C db Meta_Info_Cf)(k := None) \<or> r = -1 \<and> C db' Meta_Info_Cf = C db Meta_Info_Cf"
  using assms(2) by (auto simp: delete_meta_info_def rocks_write [OF assms(1)] split: prod.splits if_splits)

lemma schema_ok_same:
  assumes "schema_ok E C s" and "same_schema C s s'"
  shows "schema_ok E C s'"
proof -
  have "ns_ok s'" "db_ok s'"
    using assms by (simp_all add: schema_ok_def same_schema_def ns_ok_def db_ok_def db_of_ns_def)
  moreover have "schema_stored E C s'"
    using assms by (simp add: schema_ok_def same_schema_def schema_stored_def mirrors_def stored_max_def key_defs)
  ultimately show ?thesis by (simp add: schema_ok_def)
qed

lemma set_at_touch [simp]: "set_at (touch k m) = set_at m"
  by (simp add: touch_def set_at_def fun_eq_iff)

lemma same_schema_db [simp]:
  assumes "C db' Meta_Info_Cf = C (ms_db s) Meta_Info_Cf"
  shows "same_schema C s (s\<lparr>ms_db := db'\<rparr>)"
  using assms by (simp add: same_schema_def)

section \<open>Namespaces\<close>

lemma same_schema_refl [simp]: "same_schema C s s"
  by (simp add: same_schema_def)

lemma same_schema_trans: "same_schema C s t \<Longrightarrow> same_schema C t u \<Longrightarrow> same_schema C s u"
  by (simp add: same_schema_def)

lemma same_users_refl [simp]: "same_users C s s"
  by (simp add: same_users_def)

lemma same_users_trans: "same_users C s t \<Longrightarrow> same_users C t u \<Longrightarrow> same_users C s u"
  by (simp add: same_users_def)

text \<open>A row is added, replaced or removed in a mirrored table.\<close>

lemma mirrors_row: "mirrors meta prefix key ser table \<Longrightarrow> table i = Some info \<Longrightarrow> ser info \<noteq> None \<and> meta (key i) = ser info"
  by (simp add: mirrors_def)

lemma mirrors_key:
  assumes "mirrors meta prefix key ser table" and "meta (prefix @ k) = Some v"
  obtains i info where "table i = Some info" and "prefix @ k = key i"
  using assms by (auto simp: mirrors_def)

lemma mirrors_update:
  assumes m: "mirrors meta prefix key ser table" and v: "ser info = Some v"
    and inj: "\<And>j. j \<in> dom table \<Longrightarrow> key j = key i \<Longrightarrow> j = i"
  shows "mirrors (meta(key i \<mapsto> v)) prefix key ser (table(i \<mapsto> info))"
  unfolding mirrors_def
proof (intro conjI allI impI)
  fix j inf assume "(table(i \<mapsto> info)) j = Some inf"
  then show "ser inf \<noteq> None" "(meta(key i \<mapsto> v)) (key j) = ser inf"
    using v mirrors_row [OF m, of j inf] inj [of j] by (auto split: if_splits)
next
  fix k w assume w: "(meta(key i \<mapsto> v)) (prefix @ k) = Some w"
  show "\<exists>j inf. (table(i \<mapsto> info)) j = Some inf \<and> prefix @ k = key j"
  proof (cases "prefix @ k = key i")
    case True
    then show ?thesis by (intro exI [of _ i] exI [of _ info]) simp
  next
    case False
    then have "meta (prefix @ k) = Some w" using w by simp
    then obtain j inf where "table j = Some inf" "prefix @ k = key j" by (rule mirrors_key [OF m])
    with False show ?thesis by (intro exI [of _ j] exI [of _ inf]) auto
  qed
qed

lemma mirrors_delete:
  assumes m: "mirrors meta prefix key ser table" and inj: "\<And>j. j \<in> dom table \<Longrightarrow> key j = key i \<Longrightarrow> j = i"
  shows "mirrors (meta(key i := None)) prefix key ser (table(i := None))"
  unfolding mirrors_def
proof (intro conjI allI impI)
  fix j inf assume "(table(i := None)) j = Some inf"
  then show "ser inf \<noteq> None" "(meta(key i := None)) (key j) = ser inf"
    using mirrors_row [OF m, of j inf] inj [of j] by (auto split: if_splits)
next
  fix k w assume "(meta(key i := None)) (prefix @ k) = Some w"
  then have w: "prefix @ k \<noteq> key i" "meta (prefix @ k) = Some w" by (auto split: if_splits)
  from w(2) obtain j inf where "table j = Some inf" "prefix @ k = key j" by (rule mirrors_key [OF m])
  with w(1) show "\<exists>j inf. (table(i := None)) j = Some inf \<and> prefix @ k = key j"
    by (intro exI [of _ j] exI [of _ inf]) auto
qed

lemma mirrors_other:
  assumes m: "mirrors meta prefix key ser table" and key: "\<And>i. \<exists>k. key i = prefix @ k"
    and same: "\<And>k. meta' (prefix @ k) = meta (prefix @ k)"
  shows "mirrors meta' prefix key ser table"
proof -
  have "meta' (key i) = meta (key i)" for i using key [of i] same by auto
  with m same show ?thesis by (simp add: mirrors_def)
qed

lemma create_namespace_cases:
  assumes ok: "rocks_ok (me_rocks E) C" and r: "create_namespace E request s = (e, s')"
  obtains (unchanged) "same_schema C s s'" and "same_users C s s'"
  | (created) info v db' where "e = SUCCESS" and "ms_namespace_id_map s (ni_namespace_name info) = None"
      "info = (mr_namespace_info request)\<lparr>ni_namespace_id := Some (ms_max_namespace_id s + 1), ni_version := Some 1\<rparr>"
      "me_ser_ns E info = Some v"
      "C db' Meta_Info_Cf = (meta_of C s)(construct_namespace_key (me_big E) (ms_max_namespace_id s + 1) \<mapsto> v,
         construct_max_namespace_id_key \<mapsto> mem_bytes (me_big E) 8 (word_of_int (ms_max_namespace_id s + 1) :: 64 word))"
      "s' = (set_namespace_info info (s\<lparr>ms_db := db'\<rparr>))\<lparr>ms_max_namespace_id := ms_max_namespace_id s + 1\<rparr>"
proof -
  let ?info = "(mr_namespace_info request)\<lparr>ni_namespace_id := Some (ms_max_namespace_id s + 1), ni_version := Some 1\<rparr>"
  show thesis
  proof (cases "ms_namespace_id_map s (ni_namespace_name ?info) = None \<and> me_ser_ns E ?info \<noteq> None")
    case False
    then have "s' = s" using r by (auto simp: create_namespace_def Let_def split: if_splits option.splits)
    then show thesis using unchanged by simp
  next
    case True
    then obtain v where v: "me_ser_ns E ?info = Some v" by auto
    obtain ret db' where w: "put_meta_infos (me_rocks E)
        [construct_namespace_key (me_big E) (ms_max_namespace_id s + 1), construct_max_namespace_id_key]
        [v, mem_bytes (me_big E) 8 (word_of_int (ms_max_namespace_id s + 1) :: 64 word)] (ms_db s) = (ret, db')"
      by fastforce
    from put_meta_infos_cases [OF ok w] show thesis
    proof
      assume "ret = 0 \<and> C db' Meta_Info_Cf = (C (ms_db s) Meta_Info_Cf)
        (construct_namespace_key (me_big E) (ms_max_namespace_id s + 1) \<mapsto> v,
         construct_max_namespace_id_key \<mapsto> mem_bytes (me_big E) 8 (word_of_int (ms_max_namespace_id s + 1) :: 64 word))"
      then show thesis using created [of ?info v db'] True v w r by (auto simp: create_namespace_def Let_def)
    next
      assume "ret = -1 \<and> C db' Meta_Info_Cf = C (ms_db s) Meta_Info_Cf"
      then show thesis
        using unchanged True v w r by (auto simp: create_namespace_def Let_def same_schema_def same_users_def)
    qed
  qed
qed

lemma drop_namespace_cases:
  assumes ok: "rocks_ok (me_rocks E) C" and r: "drop_namespace E request s = (e, s')"
  obtains (unchanged) "same_schema C s s'" and "same_users C s s'"
  | (dropped) i db' where "e = SUCCESS" "ms_namespace_id_map s (ni_namespace_name (mr_namespace_info request)) = Some i"
      "set_at (ms_database_ids s) i = {}"
      "C db' Meta_Info_Cf = (meta_of C s)(construct_namespace_key (me_big E) i := None)"
      "s' = erase_namespace_info (ni_namespace_name (mr_namespace_info request))
         (s\<lparr>ms_database_ids := touch i (ms_database_ids s), ms_db := db'\<rparr>)"
proof (cases "ms_namespace_id_map s (ni_namespace_name (mr_namespace_info request))")
  case None
  then have "s' = s" using r by (auto simp: drop_namespace_def Let_def split: if_splits)
  then show thesis using unchanged by simp
next
  case (Some i)
  show thesis
  proof (cases "set_at (ms_database_ids s) i = {}")
    case False
    then show thesis using unchanged Some r by (auto simp: drop_namespace_def Let_def same_schema_def same_users_def)
  next
    case True
    obtain ret db' where w: "delete_meta_info (me_rocks E) [construct_namespace_key (me_big E) i] (ms_db s) = (ret, db')"
      by fastforce
    from delete_meta_info_cases [OF ok w] show thesis
    proof
      assume "ret = 0 \<and> C db' Meta_Info_Cf = (C (ms_db s) Meta_Info_Cf)(construct_namespace_key (me_big E) i := None)"
      then show thesis using dropped [of i db'] True Some w r by (auto simp: drop_namespace_def Let_def)
    next
      assume "ret = -1 \<and> C db' Meta_Info_Cf = C (ms_db s) Meta_Info_Cf"
      then show thesis
        using unchanged True Some w r by (auto simp: drop_namespace_def Let_def same_schema_def same_users_def)
    qed
  qed
qed

lemma modify_namespace_cases:
  assumes ok: "rocks_ok (me_rocks E) C" and ns: "ns_ok s" and r: "modify_namespace E request s = (e, s')"
  obtains (unchanged) "same_schema C s s'" and "same_users C s s'"
  | (modified) i old info v db' where "e = SUCCESS" "ms_namespace_info_map s i = Some old"
      "ni_namespace_name info = ni_namespace_name old" "ni_namespace_id info = Some i"
      "ni_version info = Some (get_or 0 (ni_version old) + 1)" "me_ser_ns E info = Some v"
      "C db' Meta_Info_Cf = (meta_of C s)(construct_namespace_key (me_big E) i \<mapsto> v)"
      "s' = set_namespace_info info (s\<lparr>ms_db := db'\<rparr>)"
proof (cases "ms_namespace_id_map s (ni_namespace_name (mr_namespace_info request))")
  case None
  then have "s' = s" using r by (auto simp: modify_namespace_def Let_def split: if_splits)
  then show thesis using unchanged by simp
next
  case (Some i)
  then obtain old where old: "ms_namespace_info_map s i = Some old"
      "ni_namespace_name old = ni_namespace_name (mr_namespace_info request)" "ni_namespace_id old = Some i"
    using ns by (fastforce simp: ns_ok_def)
  let ?new = "(if mr_is_force_setting request then (mr_namespace_info request)\<lparr>ni_namespace_id := Some i\<rparr>
    else merge_namespace (mr_namespace_info request) old)\<lparr>ni_version := Some (get_or 0 (ni_version old) + 1)\<rparr>"
  have new: "ni_namespace_name ?new = ni_namespace_name old" "ni_namespace_id ?new = Some i"
    using old by (simp_all add: merge_namespace_def)
  have same: "s\<lparr>ms_namespace_info_map := (ms_namespace_info_map s)(i \<mapsto> old)\<rparr> = s" using old(1) by (simp add: fun_upd_idem)
  show thesis
  proof (cases "me_ser_ns E ?new")
    case None
    then show thesis using unchanged Some old r by (auto simp: modify_namespace_def Let_def same)
  next
    case v: (Some v)
    obtain ret db' where w: "put_meta_info (me_rocks E) (construct_namespace_key (me_big E) i) v (ms_db s) = (ret, db')"
      by fastforce
    have step: "modify_namespace E request s =
        (if ret < 0 then (INTERNAL_ERROR, s\<lparr>ms_db := db'\<rparr>) else (SUCCESS, set_namespace_info ?new (s\<lparr>ms_db := db'\<rparr>)))"
      using Some old v w by (simp add: modify_namespace_def Let_def same)
    from put_meta_info_cases [OF ok w] show thesis
    proof
      assume "ret = 0 \<and> C db' Meta_Info_Cf = (C (ms_db s) Meta_Info_Cf)(construct_namespace_key (me_big E) i \<mapsto> v)"
      then show thesis using modified [of i old ?new v db'] old(1) new v r by (simp add: step)
    next
      assume "ret = -1 \<and> C db' Meta_Info_Cf = C (ms_db s) Meta_Info_Cf"
      then show thesis using unchanged r by (auto simp: step same_schema_def same_users_def)
    qed
  qed
qed

lemma ns_okD:
  assumes "ns_ok s" and "ms_namespace_info_map s i = Some info"
  shows "ni_namespace_id info = Some i" "id_ok (ms_max_namespace_id s) i" "1 \<notin> set (ni_namespace_name info)"
    "ms_namespace_id_map s (ni_namespace_name info) = Some i"
  using assms by (simp_all add: ns_ok_def)

lemma ns_ok_name:
  assumes "ns_ok s" and "ms_namespace_id_map s name = Some i"
  obtains info where "ms_namespace_info_map s i = Some info" "ni_namespace_name info = name"
  using assms unfolding ns_ok_def by blast

lemma db_okD:
  assumes "db_ok s" and "ms_database_info_map s i = Some info"
  shows "di_database_id info = Some i" "id_ok (ms_max_database_id s) i" "db_of_ns s info"
    "ms_database_id_map s (full_name (di_namespace_name info) (di_database info)) = Some i"
  using assms by (simp_all add: db_ok_def)

lemma db_ok_name:
  assumes "db_ok s" and "ms_database_id_map s name = Some i"
  obtains info where "ms_database_info_map s i = Some info" "full_name (di_namespace_name info) (di_database info) = name"
  using assms unfolding db_ok_def by blast

lemma db_ok_ids:
  assumes "db_ok s"
  shows "set_at (ms_database_ids s) n = {i. \<exists>info. ms_database_info_map s i = Some info \<and> di_namespace_id info = Some n}"
  using assms by (simp add: db_ok_def)

lemma ns_key_inject:
  assumes "ns_ok s" and "j \<in> dom (ms_namespace_info_map s)" and "id_ok m i" and "ms_max_namespace_id s \<le> m"
    and "construct_namespace_key big j = construct_namespace_key big i"
  shows "j = i"
proof -
  obtain info where "ms_namespace_info_map s j = Some info" using assms(2) by blast
  from ns_okD(2) [OF assms(1) this] have "id_ok m j" using assms(3, 4) by (simp add: id_ok_def)
  with assms(3, 5) show ?thesis using mem_bytes_id_inject [of m j i big] by (simp add: key_defs)
qed

lemma db_key_inject:
  assumes "db_ok s" and "j \<in> dom (ms_database_info_map s)" and "id_ok m i" and "ms_max_database_id s \<le> m"
    and "construct_database_key big j = construct_database_key big i"
  shows "j = i"
proof -
  obtain info where "ms_database_info_map s j = Some info" using assms(2) by blast
  from db_okD(2) [OF assms(1) this] have "id_ok m j" using assms(3, 4) by (simp add: id_ok_def)
  with assms(3, 5) show ?thesis using mem_bytes_id_inject [of m j i big] by (simp add: key_defs)
qed

text \<open>A namespace is added or replaced by one of the same name.\<close>

lemma schema_ok_set_ns:
  assumes ok: "schema_ok E C s" and v: "me_ser_ns E info = Some v"
    and meta: "\<And>k. C db' Meta_Info_Cf (2 # 2 # k) = ((meta_of C s)(construct_namespace_key (me_big E) i \<mapsto> v)) (2 # 2 # k)"
      "\<And>k. C db' Meta_Info_Cf (2 # 3 # k) = meta_of C s (2 # 3 # k)"
      "C db' Meta_Info_Cf construct_max_database_id_key = meta_of C s construct_max_database_id_key"
    and mx: "stored_max (me_big E) (C db' Meta_Info_Cf) construct_max_namespace_id_key m"
    and i: "ni_namespace_id info = Some i" "id_ok m i" "ms_max_namespace_id s \<le> m" "1 \<notin> set (ni_namespace_name info)"
    and name: "\<And>old. ms_namespace_info_map s i = Some old \<Longrightarrow> ni_namespace_name old = ni_namespace_name info"
      "\<And>j. ms_namespace_id_map s (ni_namespace_name info) = Some j \<Longrightarrow> j = i"
  shows "schema_ok E C ((set_namespace_info info (s\<lparr>ms_db := db'\<rparr>))\<lparr>ms_max_namespace_id := m\<rparr>)" (is "schema_ok E C ?s'")
proof -
  have ns: "ns_ok s" and db: "db_ok s" and st: "schema_stored E C s" using ok by (simp_all add: schema_ok_def)
  have im: "ms_namespace_info_map ?s' = (ms_namespace_info_map s)(i \<mapsto> info)"
    and nm: "ms_namespace_id_map ?s' = (ms_namespace_id_map s)(ni_namespace_name info \<mapsto> i)"
    using i by (simp_all add: set_namespace_info_def)
  have "ns_ok ?s'"
    unfolding ns_ok_def im nm
  proof (intro conjI allI impI)
    show "0 \<le> ms_max_namespace_id ?s'" "ms_max_namespace_id ?s' < 2 ^ 63" using i by (simp_all add: id_ok_def)
  next
    fix j inf assume j: "((ms_namespace_info_map s)(i \<mapsto> info)) j = Some inf"
    have "ni_namespace_id inf = Some j \<and> id_ok m j \<and> 1 \<notin> set (ni_namespace_name inf) \<and>
        ((ms_namespace_id_map s)(ni_namespace_name info \<mapsto> i)) (ni_namespace_name inf) = Some j"
    proof (cases "j = i")
      case True
      then show ?thesis using i j by simp
    next
      case False
      then have t: "ms_namespace_info_map s j = Some inf" using j by simp
      note d = ns_okD [OF ns t]
      have "ni_namespace_name inf \<noteq> ni_namespace_name info" using d(4) name(2) False by auto
      with d i show ?thesis by (auto simp: id_ok_def)
    qed
    then show "ni_namespace_id inf = Some j" "id_ok (ms_max_namespace_id ?s') j" "1 \<notin> set (ni_namespace_name inf)"
      "((ms_namespace_id_map s)(ni_namespace_name info \<mapsto> i)) (ni_namespace_name inf) = Some j" by simp_all
  next
    fix nam j assume "((ms_namespace_id_map s)(ni_namespace_name info \<mapsto> i)) nam = Some j"
    then consider "nam = ni_namespace_name info" "j = i" | "nam \<noteq> ni_namespace_name info" "ms_namespace_id_map s nam = Some j"
      by (auto split: if_splits)
    then show "\<exists>inf. ((ms_namespace_info_map s)(i \<mapsto> info)) j = Some inf \<and> ni_namespace_name inf = nam"
    proof cases
      case 1
      then show ?thesis by (intro exI [of _ info]) simp
    next
      case 2
      obtain inf where inf: "ms_namespace_info_map s j = Some inf" "ni_namespace_name inf = nam"
        by (rule ns_ok_name [OF ns 2(2)])
      then have "j \<noteq> i" using name(1) 2(1) by auto
      with inf show ?thesis by (intro exI [of _ inf]) simp
    qed
  qed
  moreover have "db_of_ns ?s' inf" if "db_of_ns s inf" for inf
    using that name(1) unfolding db_of_ns_def im by (metis fun_upd_apply option.inject)
  then have "db_ok ?s'" using db by (simp add: db_ok_def set_namespace_info_def)
  moreover have "mirrors ((meta_of C s)(construct_namespace_key (me_big E) i \<mapsto> v)) [2, 2]
      (construct_namespace_key (me_big E)) (me_ser_ns E) ((ms_namespace_info_map s)(i \<mapsto> info))"
    by (rule mirrors_update) (use st v ns_key_inject [OF ns _ i(2, 3)] in \<open>auto simp: schema_stored_def\<close>)
  then have "mirrors (meta_of C ?s') [2, 2] (construct_namespace_key (me_big E)) (me_ser_ns E) (ms_namespace_info_map ?s')"
    unfolding im by (rule mirrors_other) (use meta in \<open>auto simp: key_defs set_namespace_info_def\<close>)
  moreover have "mirrors (meta_of C ?s') [2, 3] (construct_database_key (me_big E)) (me_ser_db E) (ms_database_info_map s)"
    by (rule mirrors_other [of "meta_of C s"]) (use st meta in \<open>auto simp: schema_stored_def key_defs set_namespace_info_def\<close>)
  ultimately show ?thesis
    using st mx meta(3) by (simp add: schema_ok_def schema_stored_def stored_max_def set_namespace_info_def)
qed

lemma max_keys_differ [simp]:
  "construct_max_namespace_id_key \<noteq> construct_max_database_id_key"
  "construct_max_database_id_key \<noteq> construct_max_namespace_id_key"
  by (simp_all add: key_defs MAX_NAMESPACE_ID_KEY_def MAX_DATABASE_ID_KEY_def bytes_of_def)

lemma max_key_prefix [simp]:
  "construct_max_namespace_id_key \<noteq> 2 # 2 # k" "construct_max_namespace_id_key \<noteq> 2 # 3 # k"
  "construct_max_database_id_key \<noteq> 2 # 2 # k" "construct_max_database_id_key \<noteq> 2 # 3 # k"
  "construct_max_namespace_id_key \<noteq> 3 # k" "construct_max_database_id_key \<noteq> 3 # k"
  "construct_max_namespace_id_key \<noteq> construct_namespace_key big i" "construct_max_database_id_key \<noteq> construct_namespace_key big i"
  "construct_max_namespace_id_key \<noteq> construct_database_key big i" "construct_max_database_id_key \<noteq> construct_database_key big i"
  by (simp_all add: key_defs)

lemma row_key_prefix [simp]:
  "construct_namespace_key big i \<noteq> 2 # 3 # k" "construct_namespace_key big i \<noteq> 3 # k"
  "construct_database_key big i \<noteq> 2 # 2 # k" "construct_database_key big i \<noteq> 3 # k"
  "construct_privilege_key u \<noteq> 2 # k"
  by (simp_all add: key_defs)

lemmas prefix_sym [simp] = max_key_prefix [symmetric] row_key_prefix [symmetric]

lemma create_namespace_ok:
  assumes C: "rocks_ok (me_rocks E) C" and ok: "schema_ok E C s"
    and sep: "1 \<notin> set (ni_namespace_name (mr_namespace_info request))" and room: "ms_max_namespace_id s + 1 < 2 ^ 63"
    and r: "create_namespace E request s = (e, s')"
  shows "schema_ok E C s'" and "same_users C s s'"
proof -
  have "schema_ok E C s' \<and> same_users C s s'"
    using C r
  proof (cases rule: create_namespace_cases)
    case unchanged
    then show ?thesis using schema_ok_same [OF ok] by blast
  next
    case (created info v db')
    let ?m = "ms_max_namespace_id s"
    have ns: "ns_ok s" using ok by (simp add: schema_ok_def)
    have i: "id_ok (?m + 1) (?m + 1)" using ns room by (intro id_ok_Suc) (simp_all add: ns_ok_def)
    have fresh: "ms_namespace_info_map s (?m + 1) = None"
    proof (cases "ms_namespace_info_map s (?m + 1)")
      case (Some inf)
      then show ?thesis using ns_okD(2) [OF ns Some] by (simp add: id_ok_def)
    qed
    have "schema_ok E C s'"
      unfolding created(6)
      by (rule schema_ok_set_ns [OF ok created(4), where i = "?m + 1"])
         (use created(2, 3, 5) i fresh sep in \<open>auto simp: stored_max_def id_ok_def\<close>)
    moreover have "same_users C s s'"
      using created(5) by (simp add: created(6) same_users_def set_namespace_info_def)
    ultimately show ?thesis ..
  qed
  then show "schema_ok E C s'" and "same_users C s s'" by simp_all
qed

lemma modify_namespace_ok:
  assumes C: "rocks_ok (me_rocks E) C" and ok: "schema_ok E C s" and r: "modify_namespace E request s = (e, s')"
  shows "schema_ok E C s'" and "same_users C s s'"
proof -
  have ns: "ns_ok s" using ok by (simp add: schema_ok_def)
  have "schema_ok E C s' \<and> same_users C s s'"
    using C ns r
  proof (cases rule: modify_namespace_cases)
    case unchanged
    then show ?thesis using schema_ok_same [OF ok] by blast
  next
    case (modified i old info v db')
    note d = ns_okD [OF ns modified(2)]
    have m: "(set_namespace_info info (s\<lparr>ms_db := db'\<rparr>))\<lparr>ms_max_namespace_id := ms_max_namespace_id s\<rparr> = s'"
      by (simp add: modified(8) set_namespace_info_def)
    have mx: "stored_max (me_big E) (C db' Meta_Info_Cf) construct_max_namespace_id_key (ms_max_namespace_id s)"
      using ok modified(7) by (simp add: schema_ok_def schema_stored_def stored_max_def)
    have "schema_ok E C s'"
      unfolding m [symmetric]
      by (rule schema_ok_set_ns [OF ok modified(6), where i = i])
         (use modified(2-4, 7) d mx in \<open>auto simp: key_defs\<close>)
    moreover have "same_users C s s'"
      using modified(7) by (simp add: modified(8) same_users_def set_namespace_info_def)
    ultimately show ?thesis ..
  qed
  then show "schema_ok E C s'" and "same_users C s s'" by simp_all
qed

lemma drop_namespace_ok:
  assumes C: "rocks_ok (me_rocks E) C" and ok: "schema_ok E C s" and r: "drop_namespace E request s = (e, s')"
  shows "schema_ok E C s'" and "same_users C s s'"
proof -
  have ns: "ns_ok s" and db: "db_ok s" and st: "schema_stored E C s" using ok by (simp_all add: schema_ok_def)
  have "schema_ok E C s' \<and> same_users C s s'"
    using C r
  proof (cases rule: drop_namespace_cases)
    case unchanged
    then show ?thesis using schema_ok_same [OF ok] by blast
  next
    case (dropped i db')
    let ?name = "ni_namespace_name (mr_namespace_info request)"
    obtain info where info: "ms_namespace_info_map s i = Some info" "ni_namespace_name info = ?name"
      by (rule ns_ok_name [OF ns dropped(2)])
    note d = ns_okD [OF ns info(1)]
    have im: "ms_namespace_info_map s' = (ms_namespace_info_map s)(i := None)"
      and nm: "ms_namespace_id_map s' = (ms_namespace_id_map s)(?name := None)"
      and ids: "set_at (ms_database_ids s') = set_at (ms_database_ids s)"
      using dropped(2, 3) by (simp_all add: dropped(5) erase_namespace_info_def fun_eq_iff touch_def set_at_def)
    have "ns_ok s'"
      unfolding ns_ok_def im nm
    proof (intro conjI allI impI)
      show "0 \<le> ms_max_namespace_id s'" "ms_max_namespace_id s' < 2 ^ 63"
        using ns by (simp_all add: dropped(5) erase_namespace_info_def Let_def ns_ok_def)
    next
      fix j inf assume j: "((ms_namespace_info_map s)(i := None)) j = Some inf"
      then have t: "j \<noteq> i" "ms_namespace_info_map s j = Some inf" by (auto split: if_splits)
      note e = ns_okD [OF ns t(2)]
      show "ni_namespace_id inf = Some j" "id_ok (ms_max_namespace_id s') j" "1 \<notin> set (ni_namespace_name inf)"
        "((ms_namespace_id_map s)(?name := None)) (ni_namespace_name inf) = Some j"
        using e d t(1) info(2) by (auto simp: dropped(5) erase_namespace_info_def Let_def)
    next
      fix nam j assume "((ms_namespace_id_map s)(?name := None)) nam = Some j"
      then have t: "nam \<noteq> ?name" "ms_namespace_id_map s nam = Some j" by (auto split: if_splits)
      obtain inf where "ms_namespace_info_map s j = Some inf" "ni_namespace_name inf = nam" by (rule ns_ok_name [OF ns t(2)])
      with t info show "\<exists>inf. ((ms_namespace_info_map s)(i := None)) j = Some inf \<and> ni_namespace_name inf = nam"
        by (intro exI [of _ inf]) auto
    qed
    moreover have "db_of_ns s' inf" if j: "ms_database_info_map s j = Some inf" for j inf
    proof -
      obtain n nsi where n: "di_namespace_id inf = Some n" "ms_namespace_info_map s n = Some nsi"
          "di_namespace_name inf = ni_namespace_name nsi"
        using db_okD(3) [OF db j] by (auto simp: db_of_ns_def)
      have "n \<noteq> i" using dropped(3) db_ok_ids [OF db, of i] j n(1) by auto
      with n show ?thesis by (simp add: db_of_ns_def im)
    qed
    then have "db_ok s'" using db ids by (simp add: db_ok_def dropped(5) erase_namespace_info_def Let_def)
    moreover have "mirrors ((meta_of C s)(construct_namespace_key (me_big E) i := None)) [2, 2]
        (construct_namespace_key (me_big E)) (me_ser_ns E) ((ms_namespace_info_map s)(i := None))"
      by (rule mirrors_delete) (use st ns_key_inject [OF ns _ d(2)] in \<open>auto simp: schema_stored_def\<close>)
    moreover have "mirrors ((meta_of C s)(construct_namespace_key (me_big E) i := None)) [2, 3]
        (construct_database_key (me_big E)) (me_ser_db E) (ms_database_info_map s)"
      by (rule mirrors_other [of "meta_of C s"]) (use st in \<open>auto simp: schema_stored_def key_defs\<close>)
    moreover have "same_users C s s'"
      using dropped(4) by (simp add: dropped(5) same_users_def erase_namespace_info_def Let_def)
    ultimately show ?thesis
      using st dropped(4) im
      by (simp add: schema_ok_def schema_stored_def stored_max_def dropped(5) erase_namespace_info_def Let_def)
  qed
  then show "schema_ok E C s'" and "same_users C s s'" by simp_all
qed

section \<open>Databases\<close>

lemma inherit_database_simps [simp]:
  "di_database (inherit_database ns info) = di_database info"
  "di_database_id (inherit_database ns info) = di_database_id info"
  "di_namespace_name (inherit_database ns info) = di_namespace_name info"
  "di_namespace_id (inherit_database ns info) = di_namespace_id info"
  by (simp_all add: inherit_database_def)

lemma create_database_cases:
  assumes ok: "rocks_ok (me_rocks E) C" and r: "create_database E request s = (e, s')"
  obtains (unchanged) "same_schema C s s'" and "same_users C s s'"
  | (created) n info v db' where "e = SUCCESS" "get_namespace_id (di_namespace_name info) s = n" "n \<noteq> 0"
      "ms_database_id_map s (full_name (di_namespace_name info) (di_database info)) = None"
      "di_database info = di_database (mr_database_info request)"
      "di_namespace_name info = di_namespace_name (mr_database_info request)"
      "di_database_id info = Some (ms_max_database_id s + 1)" "di_namespace_id info = Some n"
      "me_ser_db E info = Some v"
      "C db' Meta_Info_Cf = (meta_of C s)(construct_database_key (me_big E) (ms_max_database_id s + 1) \<mapsto> v,
         construct_max_database_id_key \<mapsto> mem_bytes (me_big E) 8 (word_of_int (ms_max_database_id s + 1) :: 64 word))"
      "s' = add_privilege_for_database E request (add_database_id n (ms_max_database_id s + 1)
         ((set_database_info info (s\<lparr>ms_db := db'\<rparr>))\<lparr>ms_max_database_id := ms_max_database_id s + 1\<rparr>))"
proof -
  let ?req = "mr_database_info request" and ?m = "ms_max_database_id s"
  let ?n = "get_namespace_id (di_namespace_name ?req) s"
  let ?i1 = "?req\<lparr>di_database_id := Some (?m + 1), di_namespace_id := Some ?n\<rparr>"
  let ?i2 = "(case ms_namespace_info_map s ?n of None \<Rightarrow> ?i1 | Some ns \<Rightarrow> inherit_database ns ?i1)\<lparr>di_version := Some 1\<rparr>"
  have i2: "di_database ?i2 = di_database ?req" "di_namespace_name ?i2 = di_namespace_name ?req"
    "di_database_id ?i2 = Some (?m + 1)" "di_namespace_id ?i2 = Some ?n"
    by (simp_all split: option.split)
  show thesis
  proof (cases "?n \<noteq> 0 \<and> ms_database_id_map s (full_name (di_namespace_name ?req) (di_database ?req)) = None \<and>
      me_ser_db E ?i2 \<noteq> None")
    case False
    then have "s' = s" using r by (simp add: create_database_def Let_def split: if_splits)
    then show thesis using unchanged by simp
  next
    case True
    then obtain v where v: "me_ser_db E ?i2 = Some v" by blast
    obtain ret db' where w: "put_meta_infos (me_rocks E)
        [construct_database_key (me_big E) (?m + 1), construct_max_database_id_key]
        [v, mem_bytes (me_big E) 8 (word_of_int (?m + 1) :: 64 word)] (ms_db s) = (ret, db')"
      by fastforce
    have step: "create_database E request s = (if ret < 0 then (INTERNAL_ERROR, s\<lparr>ms_db := db'\<rparr>)
        else (SUCCESS, add_privilege_for_database E request (add_database_id ?n (?m + 1)
         ((set_database_info ?i2 (s\<lparr>ms_db := db'\<rparr>))\<lparr>ms_max_database_id := ?m + 1\<rparr>))))"
      using True v w by (simp add: create_database_def Let_def)
    from put_meta_infos_cases [OF ok w] show thesis
    proof
      assume a: "ret = 0 \<and> C db' Meta_Info_Cf = (C (ms_db s) Meta_Info_Cf)
        (construct_database_key (me_big E) (?m + 1) \<mapsto> v,
         construct_max_database_id_key \<mapsto> mem_bytes (me_big E) 8 (word_of_int (?m + 1) :: 64 word))"
      show thesis by (rule created [of ?i2 ?n v db']) (use True a v r i2 in \<open>simp_all add: step\<close>)
    next
      assume "ret = -1 \<and> C db' Meta_Info_Cf = C (ms_db s) Meta_Info_Cf"
      then show thesis using unchanged r by (auto simp: step same_schema_def same_users_def)
    qed
  qed
qed

text \<open>A database is added or replaced by one of the same name in the same namespace.\<close>

lemma schema_ok_set_db:
  assumes ok: "schema_ok E C s" and v: "me_ser_db E info = Some v"
    and meta: "\<And>k. C db' Meta_Info_Cf (2 # 3 # k) = ((meta_of C s)(construct_database_key (me_big E) i \<mapsto> v)) (2 # 3 # k)"
      "\<And>k. C db' Meta_Info_Cf (2 # 2 # k) = meta_of C s (2 # 2 # k)"
      "C db' Meta_Info_Cf construct_max_namespace_id_key = meta_of C s construct_max_namespace_id_key"
    and mx: "stored_max (me_big E) (C db' Meta_Info_Cf) construct_max_database_id_key m"
    and i: "di_database_id info = Some i" "id_ok m i" "ms_max_database_id s \<le> m" "db_of_ns s info" "di_namespace_id info = Some n"
    and name: "\<And>old. ms_database_info_map s i = Some old \<Longrightarrow> di_namespace_id old = di_namespace_id info \<and>
        full_name (di_namespace_name old) (di_database old) = full_name (di_namespace_name info) (di_database info)"
      "\<And>j. ms_database_id_map s (full_name (di_namespace_name info) (di_database info)) = Some j \<Longrightarrow> j = i"
  shows "schema_ok E C (add_database_id n i ((set_database_info info (s\<lparr>ms_db := db'\<rparr>))\<lparr>ms_max_database_id := m\<rparr>))"
    (is "schema_ok E C ?s'")
proof -
  let ?full = "\<lambda>info. full_name (di_namespace_name info) (di_database info)"
  have ns: "ns_ok s" and db: "db_ok s" and st: "schema_stored E C s" using ok by (simp_all add: schema_ok_def)
  have im: "ms_database_info_map ?s' = (ms_database_info_map s)(i \<mapsto> info)"
    and nm: "ms_database_id_map ?s' = (ms_database_id_map s)(?full info \<mapsto> i)"
    and ids: "set_at (ms_database_ids ?s') = (set_at (ms_database_ids s))(n := insert i (set_at (ms_database_ids s) n))"
    using i by (simp_all add: set_database_info_def add_database_id_def fun_eq_iff set_at_def)
  have of_ns: "db_of_ns ?s' = db_of_ns s" by (simp add: fun_eq_iff db_of_ns_def set_database_info_def add_database_id_def)
  have "db_ok ?s'"
    unfolding db_ok_def im nm of_ns
  proof (intro conjI allI impI)
    show "0 \<le> ms_max_database_id ?s'" "ms_max_database_id ?s' < 2 ^ 63"
      using i by (simp_all add: id_ok_def add_database_id_def)
  next
    fix j inf assume j: "((ms_database_info_map s)(i \<mapsto> info)) j = Some inf"
    have "di_database_id inf = Some j \<and> id_ok m j \<and> db_of_ns s inf \<and>
        ((ms_database_id_map s)(?full info \<mapsto> i)) (?full inf) = Some j"
    proof (cases "j = i")
      case True
      then show ?thesis using i j by simp
    next
      case False
      then have t: "ms_database_info_map s j = Some inf" using j by simp
      note d = db_okD [OF db t]
      have "?full inf \<noteq> ?full info" using d(4) name(2) False by auto
      with d i show ?thesis by (auto simp: id_ok_def)
    qed
    then show "di_database_id inf = Some j" "id_ok (ms_max_database_id ?s') j" "db_of_ns s inf"
      "((ms_database_id_map s)(?full info \<mapsto> i)) (?full inf) = Some j" by (simp_all add: add_database_id_def)
  next
    fix nam j assume "((ms_database_id_map s)(?full info \<mapsto> i)) nam = Some j"
    then consider "nam = ?full info" "j = i" | "nam \<noteq> ?full info" "ms_database_id_map s nam = Some j"
      by (auto split: if_splits)
    then show "\<exists>inf. ((ms_database_info_map s)(i \<mapsto> info)) j = Some inf \<and> ?full inf = nam"
    proof cases
      case 1
      then show ?thesis by (intro exI [of _ info]) simp
    next
      case 2
      obtain inf where inf: "ms_database_info_map s j = Some inf" "?full inf = nam" by (rule db_ok_name [OF db 2(2)])
      then have "j \<noteq> i" using name(1) 2(1) by auto
      with inf show ?thesis by (intro exI [of _ inf]) simp
    qed
  next
    fix k
    have "di_namespace_id info = Some k \<longleftrightarrow> k = n" using i(5) by auto
    moreover have "di_namespace_id old = Some n" if "ms_database_info_map s i = Some old" for old
      using name(1) [OF that] i(5) by simp
    ultimately show "set_at (ms_database_ids ?s') k =
        {j. \<exists>inf. ((ms_database_info_map s)(i \<mapsto> info)) j = Some inf \<and> di_namespace_id inf = Some k}"
      unfolding ids by (auto simp: db_ok_ids [OF db] split: if_splits)
  qed
  moreover have "ns_ok ?s'" using ns by (simp add: ns_ok_def set_database_info_def add_database_id_def)
  moreover have "mirrors ((meta_of C s)(construct_database_key (me_big E) i \<mapsto> v)) [2, 3]
      (construct_database_key (me_big E)) (me_ser_db E) ((ms_database_info_map s)(i \<mapsto> info))"
    by (rule mirrors_update) (use st v db_key_inject [OF db _ i(2, 3)] in \<open>auto simp: schema_stored_def\<close>)
  then have "mirrors (meta_of C ?s') [2, 3] (construct_database_key (me_big E)) (me_ser_db E) (ms_database_info_map ?s')"
    unfolding im by (rule mirrors_other) (use meta in \<open>auto simp: key_defs set_database_info_def add_database_id_def\<close>)
  moreover have "mirrors (meta_of C ?s') [2, 2] (construct_namespace_key (me_big E)) (me_ser_ns E) (ms_namespace_info_map s)"
    by (rule mirrors_other [of "meta_of C s"])
       (use st meta in \<open>auto simp: schema_stored_def key_defs set_database_info_def add_database_id_def\<close>)
  ultimately show ?thesis
    using st mx meta(3)
    by (simp add: schema_ok_def schema_stored_def stored_max_def set_database_info_def add_database_id_def)
qed

lemma full_name_inject:
  assumes "1 \<notin> set a" and "1 \<notin> set b" and "full_name a x = full_name b y"
  shows "a = b \<and> x = y"
  using assms
proof (induction a arbitrary: b)
  case Nil
  then show ?case by (cases b) (auto simp: full_name_def)
next
  case (Cons c a)
  then show ?case by (cases b) (auto simp: full_name_def)
qed

text \<open>A database found under a namespace that exists belongs to that namespace.\<close>

lemma db_ok_lookup:
  assumes ok: "schema_ok E C s" and n: "get_namespace_id name s = n" "n \<noteq> 0"
    and i: "ms_database_id_map s (full_name name x) = Some i"
  obtains info where "ms_database_info_map s i = Some info" "di_namespace_name info = name" "di_database info = x"
    "di_namespace_id info = Some n"
proof -
  have ns: "ns_ok s" and db: "db_ok s" using ok by (simp_all add: schema_ok_def)
  have id: "ms_namespace_id_map s name = Some n" using n by (auto simp: get_namespace_id_def get_or_def split: option.splits)
  obtain nsi where nsi: "ms_namespace_info_map s n = Some nsi" "ni_namespace_name nsi = name" by (rule ns_ok_name [OF ns id])
  obtain info where info: "ms_database_info_map s i = Some info" "full_name (di_namespace_name info) (di_database info) = full_name name x"
    by (rule db_ok_name [OF db i])
  obtain k ks where k: "di_namespace_id info = Some k" "ms_namespace_info_map s k = Some ks" "di_namespace_name info = ni_namespace_name ks"
    using db_okD(3) [OF db info(1)] by (auto simp: db_of_ns_def)
  have eq: "di_namespace_name info = name \<and> di_database info = x"
    by (rule full_name_inject) (use ns_okD(3) [OF ns nsi(1)] ns_okD(3) [OF ns k(2)] nsi(2) k(3) info(2) in simp_all)
  then have "k = n" using ns_okD(4) [OF ns k(2)] k(3) id by simp
  with info(1) eq k(1) show thesis by (intro that) simp_all
qed

lemma modify_database_cases:
  assumes C: "rocks_ok (me_rocks E) C" and ok: "schema_ok E C s" and r: "modify_database E request s = (e, s')"
  obtains (unchanged) "same_schema C s s'" and "same_users C s s'"
  | (modified) i n old info v db' where "e = SUCCESS" "ms_database_info_map s i = Some old"
      "di_namespace_id old = Some n" "di_namespace_name info = di_namespace_name old" "di_database info = di_database old"
      "di_database_id info = Some i" "di_namespace_id info = Some n"
      "di_version info = Some (get_or 0 (di_version old) + 1)" "me_ser_db E info = Some v"
      "C db' Meta_Info_Cf = (meta_of C s)(construct_database_key (me_big E) i \<mapsto> v)"
      "s' = set_database_info info (s\<lparr>ms_db := db'\<rparr>)"
proof -
  let ?req = "mr_database_info request"
  let ?n = "get_namespace_id (di_namespace_name ?req) s"
  let ?full = "full_name (di_namespace_name ?req) (di_database ?req)"
  show thesis
  proof (cases "?n \<noteq> 0 \<and> ms_database_id_map s ?full \<noteq> None")
    case False
    then have "s' = s" using r by (auto simp: modify_database_def Let_def split: if_splits)
    then show thesis using unchanged by simp
  next
    case True
    then obtain i where i: "ms_database_id_map s ?full = Some i" by auto
    obtain old where old: "ms_database_info_map s i = Some old" "di_namespace_name old = di_namespace_name ?req"
        "di_database old = di_database ?req" "di_namespace_id old = Some ?n"
      using True i by (auto intro: db_ok_lookup [OF ok])
    have oid: "di_database_id old = Some i" using db_okD(1) old(1) ok by (auto simp: schema_ok_def)
    let ?new = "(if mr_is_force_setting request then ?req\<lparr>di_database_id := Some i, di_namespace_id := Some ?n\<rparr>
      else merge_database ?req old)\<lparr>di_version := Some (get_or 0 (di_version old) + 1)\<rparr>"
    have new: "di_namespace_name ?new = di_namespace_name old" "di_database ?new = di_database old"
      "di_database_id ?new = Some i" "di_namespace_id ?new = Some ?n"
      using old oid by (simp_all add: merge_database_def)
    have same: "s\<lparr>ms_database_info_map := (ms_database_info_map s)(i \<mapsto> old)\<rparr> = s" using old(1) by (simp add: fun_upd_idem)
    show thesis
    proof (cases "me_ser_db E ?new")
      case None
      then show thesis using unchanged True i old r by (auto simp: modify_database_def Let_def same)
    next
      case v: (Some v)
      obtain ret db' where w: "put_meta_info (me_rocks E) (construct_database_key (me_big E) i) v (ms_db s) = (ret, db')"
        by fastforce
      have step: "modify_database E request s =
          (if ret < 0 then (INTERNAL_ERROR, s\<lparr>ms_db := db'\<rparr>) else (SUCCESS, set_database_info ?new (s\<lparr>ms_db := db'\<rparr>)))"
        using True i old v w by (simp add: modify_database_def Let_def same)
      from put_meta_info_cases [OF C w] show thesis
      proof
        assume "ret = 0 \<and> C db' Meta_Info_Cf = (C (ms_db s) Meta_Info_Cf)(construct_database_key (me_big E) i \<mapsto> v)"
        then show thesis using modified [of i old ?n ?new v db'] old(1, 4) new v r by (simp add: step)
      next
        assume "ret = -1 \<and> C db' Meta_Info_Cf = C (ms_db s) Meta_Info_Cf"
        then show thesis using unchanged r by (auto simp: step same_schema_def same_users_def)
      qed
    qed
  qed
qed

lemma modify_database_ok:
  assumes C: "rocks_ok (me_rocks E) C" and ok: "schema_ok E C s" and r: "modify_database E request s = (e, s')"
  shows "schema_ok E C s'" and "same_users C s s'"
proof -
  have db: "db_ok s" using ok by (simp add: schema_ok_def)
  have "schema_ok E C s' \<and> same_users C s s'"
    using C ok r
  proof (cases rule: modify_database_cases)
    case unchanged
    then show ?thesis using schema_ok_same [OF ok] by blast
  next
    case (modified i n old info v db')
    note d = db_okD [OF db modified(2)]
    have "i \<in> set_at (ms_database_ids s) n" using db_ok_ids [OF db, of n] modified(2, 3) by auto
    then have ids: "insert i (set_at (ms_database_ids s) n) = set_at (ms_database_ids s) n" by auto
    have m: "same_schema C (add_database_id n i ((set_database_info info (s\<lparr>ms_db := db'\<rparr>))\<lparr>ms_max_database_id := ms_max_database_id s\<rparr>)) s'"
      using ids by (simp add: same_schema_def modified(11) set_database_info_def add_database_id_def fun_eq_iff set_at_def)
    have mx: "stored_max (me_big E) (C db' Meta_Info_Cf) construct_max_database_id_key (ms_max_database_id s)"
      using ok modified(10) by (simp add: schema_ok_def schema_stored_def stored_max_def)
    have "db_of_ns s info" using d(3) modified(3, 4, 7) by (simp add: db_of_ns_def)
    then have "schema_ok E C (add_database_id n i ((set_database_info info (s\<lparr>ms_db := db'\<rparr>))\<lparr>ms_max_database_id := ms_max_database_id s\<rparr>))"
      by (intro schema_ok_set_db [OF ok modified(9), where i = i])
         (use modified(2-7, 10) d mx in \<open>auto simp: key_defs\<close>)
    then have "schema_ok E C s'" by (rule schema_ok_same [OF _ m])
    moreover have "same_users C s s'"
      using modified(10) by (simp add: modified(11) same_users_def set_database_info_def)
    ultimately show ?thesis ..
  qed
  then show "schema_ok E C s'" and "same_users C s s'" by simp_all
qed

end
