(* ===== verification/UserInvariant.thy ===== *)
theory UserInvariant
  imports MetaInvariant "HOL-Library.Multiset"
begin

text \<open>
  The invariants of users and privileges: the store holds exactly the users in memory, a
  user has at most one privilege per database, and the index from databases to users is
  exact. The handlers keep the first unconditionally, and the others for requests that do
  not revoke single bits of an access control list.
\<close>

section \<open>The invariants\<close>

definition users_stored :: "'db meta_env \<Rightarrow> ('db \<Rightarrow> contents) \<Rightarrow> 'db meta_state \<Rightarrow> bool" where
  "users_stored E C s \<longleftrightarrow> finite (dom (ms_user_privilege s)) \<and>
     (\<forall>u. meta_of C s (construct_privilege_key u) = Option.bind (ms_user_privilege s u) (me_ser_user E)) \<and>
     (\<forall>u p. ms_user_privilege s u = Some p \<longrightarrow> up_username p = u \<and> me_ser_user E p \<noteq> None)"

abbreviation db_ids :: "user_privilege \<Rightarrow> int set" where
  "db_ids p \<equiv> pd_id ` set (up_privilege_database p)"

definition index_exact :: "(bytes \<rightharpoonup> user_privilege) \<Rightarrow> (int \<rightharpoonup> bytes set) \<Rightarrow> bool" where
  "index_exact users index \<longleftrightarrow>
     (\<forall>d. index d \<noteq> Some {} \<and> set_at index d = {u. \<exists>p. users u = Some p \<and> d \<in> db_ids p})"

definition db_index_ok :: "'db meta_state \<Rightarrow> bool" where
  "db_index_ok s \<longleftrightarrow> index_exact (ms_user_privilege s) (ms_db_user_map s) \<and>
     (\<forall>u p. ms_user_privilege s u = Some p \<longrightarrow> distinct (map pd_id (up_privilege_database p)))"

lemma users_stored_same: "users_stored E C s \<Longrightarrow> same_users C s s' \<Longrightarrow> users_stored E C s'"
  by (simp add: users_stored_def same_users_def key_defs)

lemma db_index_same: "db_index_ok s \<Longrightarrow> same_users C s s' \<Longrightarrow> db_index_ok s'"
  by (simp add: db_index_ok_def same_users_def)

lemma users_storedD:
  assumes "users_stored E C s" and "ms_user_privilege s u = Some p"
  shows "up_username p = u" "me_ser_user E p \<noteq> None"
  using assms by (simp_all add: users_stored_def)

section \<open>The index\<close>

lemma set_at_insert: "set_at (index_insert u i m) d = (if d = i then insert u (set_at m d) else set_at m d)"
  by (simp add: index_insert_def set_at_def)

lemma set_at_erase: "set_at (index_erase u i m) d = (if d = i then set_at m d - {u} else set_at m d)"
  by (simp add: index_erase_def set_at_def Let_def)

lemma index_insert_nonempty: "(\<forall>d. m d \<noteq> Some {}) \<Longrightarrow> (\<forall>d. index_insert u i m d \<noteq> Some {})"
  by (simp add: index_insert_def)

lemma index_erase_nonempty: "(\<forall>d. m d \<noteq> Some {}) \<Longrightarrow> (\<forall>d. index_erase u i m d \<noteq> Some {})"
  by (simp add: index_erase_def Let_def)

lemma fold_insert_index:
  "set_at (fold (\<lambda>p. index_insert u (f p)) ps m) d = set_at m d \<union> (if d \<in> f ` set ps then {u} else {})"
  "(\<forall>d. m d \<noteq> Some {}) \<Longrightarrow> \<forall>d. fold (\<lambda>p. index_insert u (f p)) ps m d \<noteq> Some {}"
  by (induction ps arbitrary: m) (auto simp: set_at_insert index_insert_nonempty)

lemma fold_erase_index:
  "set_at (fold (\<lambda>p. index_erase u (f p)) ps m) d = set_at m d - (if d \<in> f ` set ps then {u} else {})"
  "(\<forall>d. m d \<noteq> Some {}) \<Longrightarrow> \<forall>d. fold (\<lambda>p. index_erase u (f p)) ps m d \<noteq> Some {}"
  by (induction ps arbitrary: m) (auto simp: set_at_erase index_erase_nonempty)

lemma index_exact_insert:
  assumes "index_exact users index" and "db_ids p = (case users u of None \<Rightarrow> {} | Some old \<Rightarrow> db_ids old) \<union> pd_id ` set ps"
  shows "index_exact (users(u \<mapsto> p)) (fold (\<lambda>q. index_insert u (pd_id q)) ps index)"
proof -
  define ids where "ids = (\<lambda>q. db_ids q)"
  define new where "new = pd_id ` set ps"
  have at: "set_at index d = {v. \<exists>q. users v = Some q \<and> d \<in> ids q}" and ne: "\<forall>d. index d \<noteq> Some {}" for d
    using assms(1) by (simp_all add: index_exact_def ids_def)
  have p: "ids p = (case users u of None \<Rightarrow> {} | Some old \<Rightarrow> ids old) \<union> new"
    using assms(2) by (cases "users u") (simp_all add: ids_def new_def)
  have "set_at index d \<union> (if d \<in> new then {u} else {}) = {v. \<exists>q. (users(u \<mapsto> p)) v = Some q \<and> d \<in> ids q}" for d
  proof (rule set_eqI)
    fix v
    show "v \<in> set_at index d \<union> (if d \<in> new then {u} else {}) \<longleftrightarrow>
        v \<in> {v. \<exists>q. (users(u \<mapsto> p)) v = Some q \<and> d \<in> ids q}"
      by (cases "v = u"; cases "users u") (simp_all add: at p)
  qed
  then show ?thesis
    using fold_insert_index(2) [OF ne] by (simp add: index_exact_def fold_insert_index(1) ids_def new_def)
qed

lemma index_exact_erase:
  assumes "index_exact users index" and "users u = Some old"
    and "(case new of None \<Rightarrow> {} | Some p \<Rightarrow> db_ids p) = db_ids old - pd_id ` set ps"
  shows "index_exact (users(u := new)) (fold (\<lambda>q. index_erase u (pd_id q)) ps index)"
proof -
  define ids where "ids = (\<lambda>q. db_ids q)"
  define gone where "gone = pd_id ` set ps"
  have at: "set_at index d = {v. \<exists>q. users v = Some q \<and> d \<in> ids q}" and ne: "\<forall>d. index d \<noteq> Some {}" for d
    using assms(1) by (simp_all add: index_exact_def ids_def)
  have p: "(case new of None \<Rightarrow> {} | Some p \<Rightarrow> ids p) = ids old - gone"
    using assms(3) by (cases new) (simp_all add: ids_def gone_def)
  have "set_at index d - (if d \<in> gone then {u} else {}) = {v. \<exists>q. (users(u := new)) v = Some q \<and> d \<in> ids q}" for d
  proof (rule set_eqI)
    fix v
    have "d \<in> (case new of None \<Rightarrow> {} | Some p \<Rightarrow> ids p) \<longleftrightarrow> d \<in> ids old \<and> d \<notin> gone" using p by simp
    then show "v \<in> set_at index d - (if d \<in> gone then {u} else {}) \<longleftrightarrow>
        v \<in> {v. \<exists>q. (users(u := new)) v = Some q \<and> d \<in> ids q}"
      using assms(2) by (cases "v = u"; cases new) (simp_all add: at)
  qed
  then show ?thesis
    using fold_erase_index(2) [OF ne] by (simp add: index_exact_def fold_erase_index(1) ids_def gone_def)
qed

section \<open>Granting and revoking\<close>

lemma update_first_ids:
  "(\<And>x. f (g x) = f x) \<Longrightarrow> map f (update_first P g xs) = map f xs"
  by (induction xs) auto

lemma grant_database_id [simp]: "pd_database_id (grant_database p m) = pd_database_id m"
  by (simp add: grant_database_def Let_def split: option.split)

lemma insert_database_ids:
  assumes r: "insert_database_privilege p (mem, ins) = (mem', ins')" and d: "distinct (map pd_id (up_privilege_database mem))"
    and D: "db_ids mem = D \<union> db_ids ins"
  shows "db_ids mem' = D \<union> db_ids ins' \<and> distinct (map pd_id (up_privilege_database mem')) \<and>
    up_username mem' = up_username mem \<and> up_username ins' = up_username ins"
proof (cases "\<exists>m \<in> set (up_privilege_database mem). pd_id m = pd_id p")
  case True
  have g: "map pd_id (update_first P (grant_database p) xs) = map pd_id xs" for P xs
    by (rule update_first_ids) simp
  have "map pd_id (up_privilege_database mem') = map pd_id (up_privilege_database mem)" "ins' = ins"
    "up_username mem' = up_username mem"
    using r True g by (auto simp: insert_database_privilege_def Let_def)
  with d D show ?thesis by (metis list.set_map)
next
  case False
  then have n: "pd_id p \<notin> db_ids mem" by auto
  have "up_privilege_database mem' = up_privilege_database mem @ [p]"
    "up_privilege_database ins' = up_privilege_database ins @ [p]"
    "up_username mem' = up_username mem" "up_username ins' = up_username ins"
    using r False by (auto simp: insert_database_privilege_def Let_def)
  with d D n show ?thesis by simp
qed

lemma fold_insert_database_ids:
  assumes "fold insert_database_privilege ps (mem, ins) = (mem', ins')" and "distinct (map pd_id (up_privilege_database mem))"
    and "db_ids mem = D \<union> db_ids ins"
  shows "db_ids mem' = D \<union> db_ids ins' \<and> distinct (map pd_id (up_privilege_database mem')) \<and>
    up_username mem' = up_username mem \<and> up_username ins' = up_username ins"
  using assms
proof (induction ps arbitrary: mem ins)
  case (Cons p ps)
  obtain mem1 ins1 where one: "insert_database_privilege p (mem, ins) = (mem1, ins1)" by fastforce
  note i = insert_database_ids [OF one Cons.prems(2, 3)]
  have "fold insert_database_privilege ps (mem1, ins1) = (mem', ins')" using Cons.prems(1) one by simp
  from Cons.IH [OF this] i show ?case by simp
qed simp

lemma insert_table_keeps:
  assumes "insert_table_privilege p (mem, ins) = (mem', ins')"
  shows "up_privilege_database mem' = up_privilege_database mem" "up_privilege_database ins' = up_privilege_database ins"
    "up_username mem' = up_username mem" "up_username ins' = up_username ins"
  using assms by (auto simp: insert_table_privilege_def split: if_splits)

lemma fold_insert_table_keeps:
  assumes "fold insert_table_privilege ps (mem, ins) = (mem', ins')"
  shows "up_privilege_database mem' = up_privilege_database mem \<and> up_privilege_database ins' = up_privilege_database ins \<and>
    up_username mem' = up_username mem \<and> up_username ins' = up_username ins"
  using assms
proof (induction ps arbitrary: mem ins)
  case (Cons p ps)
  obtain mem1 ins1 where one: "insert_table_privilege p (mem, ins) = (mem1, ins1)" by fastforce
  then have "fold insert_table_privilege ps (mem1, ins1) = (mem', ins')" using Cons.prems by simp
  from Cons.IH [OF this] insert_table_keeps [OF one] show ?case by simp
qed simp

lemma fold_keeps:
  assumes "\<And>x m. f (g x m) = f m"
  shows "f (fold g xs m) = f m"
  using assms by (induction xs arbitrary: m) simp_all

lemma granted_db_ids:
  assumes "granted req stored = (mem, ins)" and "distinct (map pd_id (up_privilege_database stored))"
  shows "db_ids mem = db_ids stored \<union> db_ids ins" and "distinct (map pd_id (up_privilege_database mem))"
    and "up_username mem = up_username stored" and "up_username ins = up_username req"
proof -
  let ?none = "no_user_privilege\<lparr>up_username := up_username req\<rparr>"
  obtain m1 i1 where one: "fold insert_database_privilege (up_privilege_database req) (stored, ?none) = (m1, i1)" by fastforce
  obtain m2 i2 where two: "fold insert_table_privilege (up_privilege_table req) (m1, i1) = (m2, i2)" by fastforce
  let ?m3 = "fold insert_switch_table (up_switch_tables req) (fold insert_ip (up_ip req) (fold insert_bns (up_bns req) m2))"
  have m3: "up_privilege_database ?m3 = up_privilege_database m2" "up_username ?m3 = up_username m2"
    by (simp_all add: fold_keeps [of up_privilege_database] fold_keeps [of up_username]
        insert_switch_table_def insert_ip_def insert_bns_def)
  have mem: "up_privilege_database mem = up_privilege_database m2" "up_username mem = up_username m2" "ins = i2"
    using assms(1) m3 by (auto simp: granted_def Let_def one two grant_fields_def)
  note d = fold_insert_database_ids [OF one assms(2), of "db_ids stored"] fold_insert_table_keeps [OF two]
  show "db_ids mem = db_ids stored \<union> db_ids ins" "distinct (map pd_id (up_privilege_database mem))"
    "up_username mem = up_username stored" "up_username ins = up_username req"
    using d mem by (simp_all add: no_user_privilege_def)
qed

text \<open>A revocation without access control bits moves ids from the user to the list of deletions.\<close>

definition plain_revoke :: "user_privilege \<Rightarrow> bool" where
  "plain_revoke req \<longleftrightarrow> list_all (\<lambda>p. pd_acl p = None) (up_privilege_database req)"

lemma revoke_plain:
  assumes "pd_acl p = None" and "pd_id m = pd_id p"
  obtains "revoke_database p m = ([p], [])" | "revoke_database p m = ([], [p])"
proof (cases "\<exists>rw. pd_database_rw p = Some rw \<and> rw < get_or 1 (pd_database_rw m)")
  case True
  then have "revoke_database p m = ([p], [])" using assms by (auto simp: revoke_database_def)
  then show thesis by (rule that(1))
next
  case False
  then have "revoke_database p m = ([], [p])" using assms by (cases "pd_database_rw p") (auto simp: revoke_database_def)
  then show thesis by (rule that(2))
qed

lemma delete_database_ids:
  assumes r: "delete_database_privilege p (mem, del) = (mem', del')" and acl: "pd_acl p = None"
    and d: "distinct (map pd_id (up_privilege_database mem))" and D: "db_ids mem = D - db_ids del"
  shows "db_ids mem' = D - db_ids del' \<and> distinct (map pd_id (up_privilege_database mem')) \<and>
    up_username mem' = up_username mem \<and> up_username del' = up_username del"
proof -
  let ?ms = "up_privilege_database mem"
  let ?turn = "\<lambda>m. if pd_id m = pd_id p then revoke_database p m else ([m], [])"
  have mem': "up_privilege_database mem' = concat (map (fst \<circ> ?turn) ?ms)" "up_username mem' = up_username mem"
    and del': "up_privilege_database del' = up_privilege_database del @ concat (map (snd \<circ> ?turn) ?ms)"
      "up_username del' = up_username del"
    using r by (auto simp: delete_database_privilege_def Let_def)
  have zs: "concat (map (fst \<circ> ?turn) zs) = zs" "concat (map (snd \<circ> ?turn) zs) = []"
    if "\<forall>z \<in> set zs. pd_id z \<noteq> pd_id p" for zs using that by (induction zs) simp_all
  show ?thesis
  proof (cases "pd_id p \<in> db_ids mem")
    case False
    then have "\<forall>z \<in> set ?ms. pd_id z \<noteq> pd_id p" by (auto simp: image_iff)
    from zs [OF this] have "up_privilege_database mem' = ?ms" "up_privilege_database del' = up_privilege_database del"
      unfolding mem' del' by (simp_all only: append_Nil2)
    with d D mem'(2) del'(2) show ?thesis by simp
  next
    case True
    then obtain m where m: "m \<in> set ?ms" "pd_id m = pd_id p" by auto
    obtain xs ys where ms: "?ms = xs @ m # ys" using split_list [OF m(1)] by blast
    have other: "pd_id x \<noteq> pd_id p" if "x \<in> set xs \<union> set ys" for x
      using d that m(2) by (auto simp: ms image_iff)
    have px: "\<forall>z \<in> set xs. pd_id z \<noteq> pd_id p" and py: "\<forall>z \<in> set ys. pd_id z \<noteq> pd_id p" using other by blast+
    have split: "up_privilege_database mem' = xs @ fst (revoke_database p m) @ ys"
      "up_privilege_database del' = up_privilege_database del @ snd (revoke_database p m)"
      using m(2) unfolding mem' del' ms map_append concat_append list.map concat.simps zs [OF px] zs [OF py]
      by simp_all
    have ids: "db_ids mem = pd_id ` (set xs \<union> set ys) \<union> {pd_id p}" "pd_id p \<notin> pd_id ` (set xs \<union> set ys)"
      using m(2) px py by (simp add: ms image_Un Un_ac) (use px py in \<open>auto simp: image_iff\<close>)
    from acl m(2) show ?thesis
    proof (cases rule: revoke_plain)
      case 1
      then show ?thesis using split ids D d mem'(2) del'(2) m(2) by (simp add: ms Un_ac image_Un)
    next
      case 2
      have "db_ids mem' = db_ids mem - {pd_id p}" using split(1) 2 ids by (simp add: image_Un)
      also have "\<dots> = D - db_ids del'" using D split(2) 2 by auto
      finally show ?thesis using split(1) 2 d mem'(2) del'(2) by (simp add: ms)
    qed
  qed
qed

lemma fold_delete_database_ids:
  assumes "fold delete_database_privilege ps (mem, del) = (mem', del')" and "list_all (\<lambda>p. pd_acl p = None) ps"
    and "distinct (map pd_id (up_privilege_database mem))" and "db_ids mem = D - db_ids del"
  shows "db_ids mem' = D - db_ids del' \<and> distinct (map pd_id (up_privilege_database mem')) \<and>
    up_username mem' = up_username mem \<and> up_username del' = up_username del"
  using assms
proof (induction ps arbitrary: mem del)
  case (Cons p ps)
  obtain mem1 del1 where one: "delete_database_privilege p (mem, del) = (mem1, del1)" by fastforce
  have acl: "pd_acl p = None" "list_all (\<lambda>p. pd_acl p = None) ps" using Cons.prems(2) by simp_all
  note i = delete_database_ids [OF one acl(1) Cons.prems(3, 4)]
  have "fold delete_database_privilege ps (mem1, del1) = (mem', del')" using Cons.prems(1) one by simp
  from Cons.IH [OF this acl(2)] i show ?case by simp
qed simp

lemma delete_table_keeps:
  assumes "delete_table_privilege p (mem, del) = (mem', del')"
  shows "up_privilege_database mem' = up_privilege_database mem" "up_privilege_database del' = up_privilege_database del"
    "up_username mem' = up_username mem" "up_username del' = up_username del"
  using assms by (auto simp: delete_table_privilege_def Let_def)

lemma fold_delete_table_keeps:
  assumes "fold delete_table_privilege ps (mem, del) = (mem', del')"
  shows "up_privilege_database mem' = up_privilege_database mem \<and> up_privilege_database del' = up_privilege_database del \<and>
    up_username mem' = up_username mem \<and> up_username del' = up_username del"
  using assms
proof (induction ps arbitrary: mem del)
  case (Cons p ps)
  obtain mem1 del1 where one: "delete_table_privilege p (mem, del) = (mem1, del1)" by fastforce
  then have "fold delete_table_privilege ps (mem1, del1) = (mem', del')" using Cons.prems by simp
  from Cons.IH [OF this] delete_table_keeps [OF one] show ?case by simp
qed simp

lemma fold_delete_database_names:
  assumes "fold delete_database_privilege ps (mem, del) = (mem', del')"
  shows "up_username mem' = up_username mem \<and> up_username del' = up_username del"
  using assms
proof (induction ps arbitrary: mem del)
  case (Cons p ps)
  obtain mem1 del1 where one: "delete_database_privilege p (mem, del) = (mem1, del1)" by fastforce
  then have "fold delete_database_privilege ps (mem1, del1) = (mem', del')" using Cons.prems by simp
  from Cons.IH [OF this] one show ?case by (auto simp: delete_database_privilege_def Let_def)
qed simp

lemma revoked_parts:
  assumes "revoked req stored = (mem, del)"
  obtains m1 d1 where "fold delete_database_privilege (up_privilege_database req)
      (stored, no_user_privilege\<lparr>up_username := up_username req\<rparr>) = (m1, d1)"
    "up_privilege_database mem = up_privilege_database m1" "up_username mem = up_username m1"
    "up_privilege_database del = up_privilege_database d1" "up_username del = up_username d1"
proof -
  let ?none = "no_user_privilege\<lparr>up_username := up_username req\<rparr>"
  obtain m1 i1 where one: "fold delete_database_privilege (up_privilege_database req) (stored, ?none) = (m1, i1)" by fastforce
  obtain m2 i2 where two: "fold delete_table_privilege (up_privilege_table req) (m1, i1) = (m2, i2)" by fastforce
  let ?m3 = "fold delete_switch_table (up_switch_tables req) (fold delete_ip (up_ip req) (fold delete_bns (up_bns req) m2))"
  have m3: "up_privilege_database ?m3 = up_privilege_database m2" "up_username ?m3 = up_username m2"
    by (simp_all add: fold_keeps [of up_privilege_database] fold_keeps [of up_username]
        delete_switch_table_def delete_ip_def delete_bns_def)
  have mem: "up_privilege_database mem = up_privilege_database m2" "up_username mem = up_username m2" "del = i2"
    using assms m3 by (auto simp: revoked_def Let_def one two revoke_fields_def)
  with one fold_delete_table_keeps [OF two] show thesis by (intro that) simp_all
qed

lemma revoked_names:
  assumes "revoked req stored = (mem, del)"
  shows "up_username mem = up_username stored" "up_username del = up_username req"
proof -
  obtain m1 d1 where "fold delete_database_privilege (up_privilege_database req)
      (stored, no_user_privilege\<lparr>up_username := up_username req\<rparr>) = (m1, d1)"
    "up_username mem = up_username m1" "up_username del = up_username d1" by (rule revoked_parts [OF assms])
  then show "up_username mem = up_username stored" "up_username del = up_username req"
    using fold_delete_database_names by fastforce+
qed

lemma revoked_db_ids:
  assumes "revoked req stored = (mem, del)" and "plain_revoke req" and "distinct (map pd_id (up_privilege_database stored))"
  shows "db_ids mem = db_ids stored - db_ids del" and "distinct (map pd_id (up_privilege_database mem))"
proof -
  obtain m1 d1 where one: "fold delete_database_privilege (up_privilege_database req)
      (stored, no_user_privilege\<lparr>up_username := up_username req\<rparr>) = (m1, d1)"
    and eq: "up_privilege_database mem = up_privilege_database m1" "up_privilege_database del = up_privilege_database d1"
    by (rule revoked_parts [OF assms(1)])
  show "db_ids mem = db_ids stored - db_ids del" "distinct (map pd_id (up_privilege_database mem))"
    using fold_delete_database_ids [OF one, of "db_ids stored"] assms(2, 3) eq
    by (simp_all add: plain_revoke_def no_user_privilege_def)
qed

section \<open>Storing a user\<close>

lemma store_user_cases:
  assumes ok: "rocks_ok (me_rocks E) C" and r: "store_user E u p f s = (e, s')"
  obtains (unchanged) db' where "e \<noteq> SUCCESS" "s' = s\<lparr>ms_db := db'\<rparr>" "C db' Meta_Info_Cf = meta_of C s"
  | (stored) v db' where "e = SUCCESS" "me_ser_user E p = Some v"
      "C db' Meta_Info_Cf = (meta_of C s)(construct_privilege_key u \<mapsto> v)"
      "s' = f (s\<lparr>ms_db := db', ms_user_privilege := (ms_user_privilege s)(u \<mapsto> p)\<rparr>)"
proof (cases "me_ser_user E p")
  case None
  then have "e \<noteq> SUCCESS" "s' = s\<lparr>ms_db := ms_db s\<rparr>" using r by (auto simp: store_user_def)
  then show thesis using unchanged by blast
next
  case (Some v)
  obtain ret db' where w: "put_meta_info (me_rocks E) (construct_privilege_key u) v (ms_db s) = (ret, db')" by fastforce
  have step: "store_user E u p f s = (if ret < 0 then (INTERNAL_ERROR, s\<lparr>ms_db := db'\<rparr>)
      else (SUCCESS, f (s\<lparr>ms_db := db', ms_user_privilege := (ms_user_privilege s)(u \<mapsto> p)\<rparr>)))"
    using Some w by (simp add: store_user_def Let_def)
  from put_meta_info_cases [OF ok w] show thesis
  proof
    assume "ret = 0 \<and> C db' Meta_Info_Cf = (C (ms_db s) Meta_Info_Cf)(construct_privilege_key u \<mapsto> v)"
    then show thesis using stored [of v db'] Some r by (simp add: step)
  next
    assume "ret = -1 \<and> C db' Meta_Info_Cf = C (ms_db s) Meta_Info_Cf"
    then show thesis using unchanged [of db'] r by (simp add: step)
  qed
qed

text \<open>Functions that only touch the indexes.\<close>

definition index_only :: "('db meta_state \<Rightarrow> 'db meta_state) \<Rightarrow> bool" where
  "index_only f \<longleftrightarrow> (\<forall>s. \<exists>m t. f s = s\<lparr>ms_db_user_map := m, ms_tbl_user_map := t\<rparr>)"

lemma index_only_id: "index_only (\<lambda>s. s)"
proof -
  have "s = s\<lparr>ms_db_user_map := ms_db_user_map s, ms_tbl_user_map := ms_tbl_user_map s\<rparr>" for s :: "'db meta_state" by simp
  then show ?thesis unfolding index_only_def by blast
qed

lemma index_only_maps [simp]: "index_only (insert_db_tbl_user_map p)" "index_only (delete_db_tbl_user_map p)"
  by (auto simp: index_only_def insert_db_tbl_user_map_def delete_db_tbl_user_map_def)

lemma store_user_ok:
  assumes C: "rocks_ok (me_rocks E) C" and f: "index_only f" and r: "store_user E u p f s = (e, s')" and u: "up_username p = u"
    and ok: "users_stored E C s"
  shows "users_stored E C s'" and "same_schema C s s'"
proof -
  have "users_stored E C s' \<and> same_schema C s s'"
    using C r
  proof (cases rule: store_user_cases)
    case (unchanged db')
    then have "same_users C s s'" "same_schema C s s'" by (simp_all add: same_users_def)
    then show ?thesis using users_stored_same [OF ok] by blast
  next
    case (stored v db')
    obtain m t where s': "s' = s\<lparr>ms_db := db', ms_user_privilege := (ms_user_privilege s)(u \<mapsto> p),
        ms_db_user_map := m, ms_tbl_user_map := t\<rparr>"
      using f stored(4) by (metis index_only_def)
    have "users_stored E C s'"
      using ok stored(2, 3) u by (auto simp: users_stored_def s' key_defs)
    moreover have "same_schema C s s'" using stored(3) by (simp add: s' same_schema_def)
    ultimately show ?thesis ..
  qed
  then show "users_stored E C s'" and "same_schema C s s'" by simp_all
qed

lemma check_names:
  assumes "check_and_get_for_privilege s q = Some c"
  shows "up_username c = up_username q" "map pd_database (up_privilege_database c) = map pd_database (up_privilege_database q)"
    "map pd_acl (up_privilege_database c) = map pd_acl (up_privilege_database q)"
    "map pd_id (up_privilege_database c) =
       map (\<lambda>p. get_database_id (full_name (up_namespace_name q) (pd_database p)) s) (up_privilege_database q)"
proof -
  have *: "map pd_database ds = map pd_database ps \<and> map pd_acl ds = map pd_acl ps \<and>
      map pd_id ds = map (\<lambda>p. get_database_id (full_name n (pd_database p)) s) ps"
    if "check_databases s n ps = Some ds" for n ps ds
    using that by (induction ps arbitrary: ds) (auto simp: Let_def split: if_splits)
  obtain ds ts n where c: "check_databases s (up_namespace_name q) (up_privilege_database q) = Some ds"
      "c = q\<lparr>up_namespace_id := n, up_privilege_database := ds, up_privilege_table := ts\<rparr>"
    using assms by (auto simp: check_and_get_for_privilege_def Let_def split: if_splits option.splits)
  with * [OF c(1)] show "up_username c = up_username q"
    "map pd_database (up_privilege_database c) = map pd_database (up_privilege_database q)"
    "map pd_acl (up_privilege_database c) = map pd_acl (up_privilege_database q)"
    "map pd_id (up_privilege_database c) =
       map (\<lambda>p. get_database_id (full_name (up_namespace_name q) (pd_database p)) s) (up_privilege_database q)" by simp_all
qed

section \<open>The handlers\<close>

lemma create_user_ok:
  assumes C: "rocks_ok (me_rocks E) C" and ok: "users_stored E C s" and r: "create_user E request s = (e, s')"
  shows "users_stored E C s' \<and> same_schema C s s'"
proof (cases "ms_user_privilege s (up_username (req_user request)) = None \<and>
    check_and_get_for_privilege s (req_user request) \<noteq> None")
  case True
  then obtain c where c: "check_and_get_for_privilege s (req_user request) = Some c" by auto
  have st: "store_user E (up_username (req_user request)) (c\<lparr>up_version := Some 1\<rparr>)
      (insert_db_tbl_user_map (c\<lparr>up_version := Some 1\<rparr>)) s = (e, s')"
    using r True c by (simp add: create_user_def Let_def)
  show ?thesis using store_user_ok [OF C _ st _ ok] check_names(1) [OF c] by simp
next
  case False
  then have "s' = s" using r by (auto simp: create_user_def Let_def split: if_splits)
  then show ?thesis using ok by simp
qed

lemma modify_user_ok:
  assumes C: "rocks_ok (me_rocks E) C" and ok: "users_stored E C s" and r: "modify_user E request s = (e, s')"
  shows "users_stored E C s' \<and> same_schema C s s'"
proof (cases "ms_user_privilege s (up_username (req_user request)) \<noteq> None \<and>
    check_and_get_for_privilege s (req_user request) \<noteq> None")
  case True
  then obtain c p where c: "check_and_get_for_privilege s (req_user request) = Some c"
    and p: "ms_user_privilege s (up_username (req_user request)) = Some p" by auto
  have st: "store_user E (up_username (req_user request))
      (p\<lparr>up_namespace_id := Some (get_or 0 (up_namespace_id c)), up_namespace_name := up_namespace_name c,
         up_password := Some (get_or [] (up_password c)), up_version := Some (get_or 0 (up_version p) + 1)\<rparr>) (\<lambda>s. s) s = (e, s')"
    using r c p by (simp add: modify_user_def Let_def)
  show ?thesis using store_user_ok [OF C index_only_id st _ ok] users_storedD(1) [OF ok p] by simp
next
  case False
  then have "s' = s" using r by (auto simp: modify_user_def Let_def split: if_splits option.splits)
  then show ?thesis using ok by simp
qed

text \<open>The two handlers that change privileges.\<close>

lemma add_privilege_cases:
  assumes r: "add_privilege E request s = (e, s')"
  obtains (unchanged) "s' = s"
  | (granted) p c mem ins where "ms_user_privilege s (up_username (req_user request)) = Some p"
      "check_and_get_for_privilege s (req_user request) = Some c" "granted c p = (mem, ins)"
      "store_user E (up_username (req_user request)) mem (insert_db_tbl_user_map ins) s = (e, s')"
proof (cases "ms_user_privilege s (up_username (req_user request))")
  case None
  then show thesis using unchanged r by (simp add: add_privilege_def Let_def)
next
  case p: (Some p)
  show thesis
  proof (cases "check_and_get_for_privilege s (req_user request)")
    case None
    then show thesis using unchanged r p by (simp add: add_privilege_def Let_def)
  next
    case c: (Some c)
    obtain mem ins where g: "granted c p = (mem, ins)" by fastforce
    show thesis by (rule granted [OF p c g]) (use r p c g in \<open>simp add: add_privilege_def Let_def\<close>)
  qed
qed

lemma drop_privilege_cases:
  assumes r: "drop_privilege E request s = (e, s')"
  obtains (unchanged) "s' = s" "e \<noteq> SUCCESS"
  | (revoked) p c mem del where "ms_user_privilege s (up_username (req_user request)) = Some p"
      "check_and_get_for_privilege s (req_user request) = Some c" "revoked c p = (mem, del)"
      "store_user E (up_username (req_user request)) mem (delete_db_tbl_user_map del) s = (e, s')"
proof (cases "ms_user_privilege s (up_username (req_user request))")
  case None
  then show thesis using unchanged r by (auto simp: drop_privilege_def Let_def)
next
  case p: (Some p)
  show thesis
  proof (cases "check_and_get_for_privilege s (req_user request)")
    case None
    then show thesis using unchanged r p by (auto simp: drop_privilege_def Let_def)
  next
    case c: (Some c)
    obtain mem del where g: "revoked c p = (mem, del)" by fastforce
    show thesis by (rule revoked [OF p c g]) (use r p c g in \<open>simp add: drop_privilege_def Let_def\<close>)
  qed
qed

lemma granted_username: "granted c p = (mem, ins) \<Longrightarrow> up_username mem = up_username p"
proof -
  assume r: "granted c p = (mem, ins)"
  let ?none = "no_user_privilege\<lparr>up_username := up_username c\<rparr>"
  obtain m1 i1 where one: "fold insert_database_privilege (up_privilege_database c) (p, ?none) = (m1, i1)" by fastforce
  obtain m2 i2 where two: "fold insert_table_privilege (up_privilege_table c) (m1, i1) = (m2, i2)" by fastforce
  have "up_username (fst (fold insert_database_privilege ps x)) = up_username (fst x)" for ps and x :: "user_privilege \<times> user_privilege"
    by (rule fold_keeps [of "\<lambda>x. up_username (fst x)"]) (auto simp: insert_database_privilege_def Let_def split: prod.splits)
  from this [of "up_privilege_database c" "(p, ?none)"] have "up_username m1 = up_username p" by (simp add: one)
  moreover have "up_username m2 = up_username m1" using fold_insert_table_keeps [OF two] by simp
  moreover have "up_username mem = up_username m2"
    using r by (auto simp: granted_def Let_def one two grant_fields_def fold_keeps [of up_username]
        insert_switch_table_def insert_ip_def insert_bns_def)
  ultimately show ?thesis by simp
qed

lemma add_privilege_ok:
  assumes C: "rocks_ok (me_rocks E) C" and ok: "users_stored E C s" and r: "add_privilege E request s = (e, s')"
  shows "users_stored E C s' \<and> same_schema C s s'"
  using r
proof (cases rule: add_privilege_cases)
  case unchanged
  then show ?thesis using ok by simp
next
  case (granted p c mem ins)
  then show ?thesis
    using store_user_ok [OF C _ granted(4) _ ok] granted_username [OF granted(3)] users_storedD(1) [OF ok granted(1)] by simp
qed

lemma drop_privilege_ok:
  assumes C: "rocks_ok (me_rocks E) C" and ok: "users_stored E C s" and r: "drop_privilege E request s = (e, s')"
  shows "users_stored E C s' \<and> same_schema C s s'"
  using r
proof (cases rule: drop_privilege_cases)
  case unchanged
  then show ?thesis using ok by simp
next
  case (revoked p c mem del)
  then show ?thesis
    using store_user_ok [OF C _ revoked(4) _ ok] revoked_names(1) [OF revoked(3)] users_storedD(1) [OF ok revoked(1)] by simp
qed

lemma drop_user_ok:
  assumes C: "rocks_ok (me_rocks E) C" and ok: "users_stored E C s" and r: "drop_user E request s = (e, s')"
  shows "users_stored E C s' \<and> same_schema C s s' \<and> (db_index_ok s \<longrightarrow> db_index_ok s')"
proof (cases "ms_user_privilege s (up_username (req_user request))")
  case None
  then have "s' = s" using r by (auto simp: drop_user_def Let_def split: if_splits)
  then show ?thesis using ok by simp
next
  case (Some p)
  let ?u = "up_username (req_user request)"
  obtain ret db' where w: "delete_meta_info (me_rocks E) [construct_privilege_key ?u] (ms_db s) = (ret, db')" by fastforce
  have step: "s' = (if ret < 0 then s\<lparr>ms_db := db'\<rparr>
      else delete_db_tbl_user_map p (s\<lparr>ms_db := db', ms_user_privilege := (ms_user_privilege s)(?u := None)\<rparr>))"
    using r Some w by (auto simp: drop_user_def Let_def split: if_splits)
  from delete_meta_info_cases [OF C w] show ?thesis
  proof
    assume a: "ret = 0 \<and> C db' Meta_Info_Cf = (C (ms_db s) Meta_Info_Cf)(construct_privilege_key ?u := None)"
    have s': "s' = delete_db_tbl_user_map p (s\<lparr>ms_db := db', ms_user_privilege := (ms_user_privilege s)(?u := None)\<rparr>)"
      using step a by simp
    have "users_stored E C s'" using ok a by (auto simp: s' users_stored_def delete_db_tbl_user_map_def key_defs)
    moreover have "same_schema C s s'" using a by (simp add: s' same_schema_def delete_db_tbl_user_map_def)
    moreover have "db_index_ok s'" if "db_index_ok s"
    proof -
      have "index_exact ((ms_user_privilege s)(?u := None))
          (fold (\<lambda>q. index_erase ?u (pd_id q)) (up_privilege_database p) (ms_db_user_map s))"
        by (rule index_exact_erase [where users = "ms_user_privilege s" and old = p])
           (use that Some in \<open>simp_all add: db_index_ok_def\<close>)
      with that users_storedD(1) [OF ok Some] show ?thesis by (simp add: db_index_ok_def s' delete_db_tbl_user_map_def)
    qed
    ultimately show ?thesis by simp
  next
    assume a: "ret = -1 \<and> C db' Meta_Info_Cf = C (ms_db s) Meta_Info_Cf"
    then have "same_users C s s'" "same_schema C s s'" using step by (simp_all add: same_users_def)
    then show ?thesis using users_stored_same [OF ok] db_index_same by blast
  qed
qed

section \<open>The index stays exact\<close>

lemma store_user_index_insert:
  assumes C: "rocks_ok (me_rocks E) C" and ok: "db_index_ok s"
    and r: "store_user E u p (insert_db_tbl_user_map ins) s = (e, s')" and ins: "up_username ins = u"
    and ids: "db_ids p = (case ms_user_privilege s u of None \<Rightarrow> {} | Some old \<Rightarrow> db_ids old) \<union> db_ids ins"
    and d: "distinct (map pd_id (up_privilege_database p))"
  shows "db_index_ok s'"
  using C r
proof (cases rule: store_user_cases)
  case (unchanged db')
  then show ?thesis using ok by (simp add: db_index_ok_def)
next
  case (stored v db')
  have "index_exact ((ms_user_privilege s)(u \<mapsto> p))
      (fold (\<lambda>q. index_insert u (pd_id q)) (up_privilege_database ins) (ms_db_user_map s))"
    by (rule index_exact_insert) (use ok ids in \<open>simp_all add: db_index_ok_def\<close>)
  then show ?thesis using ok d by (simp add: db_index_ok_def stored(4) insert_db_tbl_user_map_def ins)
qed

lemma store_user_index_erase:
  assumes C: "rocks_ok (me_rocks E) C" and ok: "db_index_ok s"
    and r: "store_user E u p (delete_db_tbl_user_map del) s = (e, s')" and del: "up_username del = u"
    and old: "ms_user_privilege s u = Some old" and ids: "db_ids p = db_ids old - db_ids del"
    and d: "distinct (map pd_id (up_privilege_database p))"
  shows "db_index_ok s'"
  using C r
proof (cases rule: store_user_cases)
  case (unchanged db')
  then show ?thesis using ok by (simp add: db_index_ok_def)
next
  case (stored v db')
  have "index_exact ((ms_user_privilege s)(u := Some p))
      (fold (\<lambda>q. index_erase u (pd_id q)) (up_privilege_database del) (ms_db_user_map s))"
    by (rule index_exact_erase [where users = "ms_user_privilege s" and old = old])
       (use ok ids old in \<open>simp_all add: db_index_ok_def\<close>)
  then show ?thesis using ok d by (simp add: db_index_ok_def stored(4) delete_db_tbl_user_map_def del)
qed

lemma check_databases_nonzero:
  assumes "check_databases s n ps = Some ds"
  shows "\<forall>p \<in> set ps. get_database_id (full_name n (pd_database p)) s \<noteq> 0"
  using assms by (induction ps arbitrary: ds) (auto simp: Let_def split: if_splits)

lemma get_database_id_inject:
  assumes "db_ok s" and "get_database_id a s = get_database_id b s" and "get_database_id a s \<noteq> 0"
  shows "a = b"
proof -
  obtain i where i: "ms_database_id_map s a = Some i" "ms_database_id_map s b = Some i"
    using assms(2, 3) by (auto simp: get_database_id_def get_or_def split: option.splits)
  obtain x where x: "ms_database_info_map s i = Some x" "full_name (di_namespace_name x) (di_database x) = a"
    by (rule db_ok_name [OF assms(1) i(1)])
  obtain y where y: "ms_database_info_map s i = Some y" "full_name (di_namespace_name y) (di_database y) = b"
    by (rule db_ok_name [OF assms(1) i(2)])
  from x y show ?thesis by simp
qed

lemma check_distinct:
  assumes db: "db_ok s" and c: "check_and_get_for_privilege s q = Some c"
    and d: "distinct (map pd_database (up_privilege_database q))"
  shows "distinct (map pd_id (up_privilege_database c))"
proof -
  let ?f = "\<lambda>x. get_database_id (full_name (up_namespace_name q) x) s"
  obtain ds where "check_databases s (up_namespace_name q) (up_privilege_database q) = Some ds"
    using c by (auto simp: check_and_get_for_privilege_def Let_def split: if_splits option.splits)
  then have nz: "?f x \<noteq> 0" if "x \<in> set (map pd_database (up_privilege_database q))" for x
    using check_databases_nonzero that by fastforce
  have "inj_on ?f (set (map pd_database (up_privilege_database q)))"
  proof (rule inj_onI)
    fix x y assume x: "x \<in> set (map pd_database (up_privilege_database q))" and "?f x = ?f y"
    then have "full_name (up_namespace_name q) x = full_name (up_namespace_name q) y"
      by (intro get_database_id_inject [OF db]) (use nz [OF x] in simp_all)
    then show "x = y" by (simp add: full_name_def)
  qed
  with d have "distinct (map ?f (map pd_database (up_privilege_database q)))" by (simp only: distinct_map)
  then show ?thesis unfolding check_names(4) [OF c] by (simp add: comp_def)
qed

lemma create_user_index:
  assumes C: "rocks_ok (me_rocks E) C" and ok: "db_index_ok s" and db: "db_ok s"
    and d: "distinct (map pd_database (up_privilege_database (req_user request)))"
    and r: "create_user E request s = (e, s')"
  shows "db_index_ok s'"
proof (cases "ms_user_privilege s (up_username (req_user request)) = None \<and>
    check_and_get_for_privilege s (req_user request) \<noteq> None")
  case True
  then obtain c where c: "check_and_get_for_privilege s (req_user request) = Some c" by auto
  have st: "store_user E (up_username (req_user request)) (c\<lparr>up_version := Some 1\<rparr>)
      (insert_db_tbl_user_map (c\<lparr>up_version := Some 1\<rparr>)) s = (e, s')"
    using r True c by (simp add: create_user_def Let_def)
  show ?thesis
    by (rule store_user_index_insert [OF C ok st]) (use True check_names(1) [OF c] check_distinct [OF db c d] in simp_all)
next
  case False
  then have "s' = s" using r by (auto simp: create_user_def Let_def split: if_splits)
  then show ?thesis using ok by simp
qed

lemma modify_user_index:
  assumes C: "rocks_ok (me_rocks E) C" and ok: "db_index_ok s" and r: "modify_user E request s = (e, s')"
  shows "db_index_ok s'"
proof (cases "ms_user_privilege s (up_username (req_user request)) \<noteq> None \<and>
    check_and_get_for_privilege s (req_user request) \<noteq> None")
  case True
  then obtain c p where c: "check_and_get_for_privilege s (req_user request) = Some c"
    and p: "ms_user_privilege s (up_username (req_user request)) = Some p" by auto
  let ?p = "p\<lparr>up_namespace_id := Some (get_or 0 (up_namespace_id c)), up_namespace_name := up_namespace_name c,
         up_password := Some (get_or [] (up_password c)), up_version := Some (get_or 0 (up_version p) + 1)\<rparr>"
  have id: "insert_db_tbl_user_map (no_user_privilege\<lparr>up_username := up_username (req_user request)\<rparr>) = (\<lambda>s. s)"
    by (simp add: fun_eq_iff insert_db_tbl_user_map_def no_user_privilege_def)
  have st: "store_user E (up_username (req_user request)) ?p
      (insert_db_tbl_user_map (no_user_privilege\<lparr>up_username := up_username (req_user request)\<rparr>)) s = (e, s')"
    using r c p unfolding id by (simp add: modify_user_def Let_def)
  show ?thesis
    by (rule store_user_index_insert [OF C ok st]) (use p ok in \<open>simp_all add: db_index_ok_def no_user_privilege_def\<close>)
next
  case False
  then have "s' = s" using r by (auto simp: modify_user_def Let_def split: if_splits option.splits)
  then show ?thesis using ok by simp
qed

lemma db_index_distinct: "db_index_ok s \<Longrightarrow> ms_user_privilege s u = Some p \<Longrightarrow> distinct (map pd_id (up_privilege_database p))"
  by (simp add: db_index_ok_def)

lemma add_privilege_index:
  assumes C: "rocks_ok (me_rocks E) C" and ok: "db_index_ok s" and r: "add_privilege E request s = (e, s')"
  shows "db_index_ok s'"
  using r
proof (cases rule: add_privilege_cases)
  case unchanged
  then show ?thesis using ok by simp
next
  case (granted p c mem ins)
  note g = granted_db_ids [OF granted(3) db_index_distinct [OF ok granted(1)]]
  show ?thesis
    by (rule store_user_index_insert [OF C ok granted(4)]) (use g granted(1) check_names(1) [OF granted(2)] in simp_all)
qed

lemma plain_revoke_checked:
  assumes "check_and_get_for_privilege s q = Some c" and "plain_revoke q"
  shows "plain_revoke c"
proof -
  have "set (map pd_acl (up_privilege_database c)) \<subseteq> {None}"
    unfolding check_names(3) [OF assms(1)] using assms(2) by (auto simp: plain_revoke_def list_all_iff)
  then show ?thesis by (auto simp: plain_revoke_def list_all_iff)
qed

lemma drop_privilege_index:
  assumes C: "rocks_ok (me_rocks E) C" and ok: "db_index_ok s" and plain: "plain_revoke (req_user request)"
    and r: "drop_privilege E request s = (e, s')"
  shows "db_index_ok s'"
  using r
proof (cases rule: drop_privilege_cases)
  case unchanged
  then show ?thesis using ok by simp
next
  case (revoked p c mem del)
  note g = revoked_db_ids [OF revoked(3) plain_revoke_checked [OF revoked(2) plain] db_index_distinct [OF ok revoked(1)]]
  show ?thesis
    by (rule store_user_index_erase [OF C ok revoked(4) _ revoked(1)])
       (use g revoked_names(2) [OF revoked(3)] check_names(1) [OF revoked(2)] in simp_all)
qed

section \<open>Dropping invalid privileges\<close>

lemma swap_elements_parts:
  assumes "slow \<le> fast" and "fast < length xs"
  shows "take (Suc slow) (swap_elements slow fast xs) = take slow xs @ [xs ! fast]"
    and "drop (Suc fast) (swap_elements slow fast xs) = drop (Suc fast) xs"
    and "mset (swap_elements slow fast xs) = mset xs" and "length (swap_elements slow fast xs) = length xs"
proof -
  show "take (Suc slow) (swap_elements slow fast xs) = take slow xs @ [xs ! fast]"
    using assms by (cases "slow = fast") (simp_all add: swap_elements_def take_Suc_conv_app_nth)
  show "drop (Suc fast) (swap_elements slow fast xs) = drop (Suc fast) xs"
    using assms by (simp add: swap_elements_def)
  show "mset (swap_elements slow fast xs) = mset xs"
    using assms by (simp add: swap_elements_def mset_swap)
qed (simp add: swap_elements_def)

lemma compact_result:
  assumes "slow \<le> fast" and "compact valid slow fast xs = (n, ys)"
  shows "mset ys = mset xs \<and> take n ys = take slow xs @ filter valid (drop fast xs)"
  using assms
proof (induction valid slow fast xs rule: compact.induct)
  case (1 valid slow fast xs)
  show ?case
  proof (cases "fast < length xs")
    case False
    then show ?thesis using 1(3, 4) by (auto simp: compact.simps [of valid slow fast xs])
  next
    case True
    note parts = swap_elements_parts [OF 1(3) True]
    have d: "drop fast xs = xs ! fast # drop (Suc fast) xs" using True by (simp add: Cons_nth_drop_Suc)
    show ?thesis
    proof (cases "valid (xs ! fast)")
      case v: True
      then have "compact valid (slow + 1) (fast + 1) (swap_elements slow fast xs) = (n, ys)"
        using 1(4) True by (simp add: compact.simps [of valid slow fast xs])
      from 1(1) [OF True v _ this] 1(3) parts v show ?thesis by (simp add: d)
    next
      case v: False
      then have "compact valid slow (fast + 1) xs = (n, ys)"
        using 1(4) True by (simp add: compact.simps [of valid slow fast xs])
      from 1(2) [OF True v _ this] 1(3) v show ?thesis by (simp add: d)
    qed
  qed
qed

lemma remove_last_result:
  "n \<le> length xs \<Longrightarrow> remove_last n xs removed = (take (length xs - n) xs, removed @ rev (drop (length xs - n) xs))"
proof (induction n arbitrary: xs removed)
  case (Suc n)
  then obtain zs z where xs: "xs = zs @ [z]" by (cases xs rule: rev_cases) auto
  then have "n \<le> length zs" using Suc.prems by simp
  from Suc.IH [OF this, of "removed @ [z]"] show ?case by (simp add: xs)
qed simp

lemma sweep_result:
  assumes "sweep valid xs = (kept, bad)"
  shows "kept = filter valid xs" and "mset bad = mset (filter (\<lambda>x. \<not> valid x) xs)"
proof -
  obtain n ys where c: "compact valid 0 0 xs = (n, ys)" by fastforce
  have r: "mset ys = mset xs" "take n ys = filter valid xs" using compact_result [OF _ c] by simp_all
  have "remove_last (length ys - n) ys [] = (take (length ys - (length ys - n)) ys, rev (drop (length ys - (length ys - n)) ys))"
    using remove_last_result [of "length ys - n" ys "[]"] by simp
  moreover have "take (length ys - (length ys - n)) ys = take n ys" "drop (length ys - (length ys - n)) ys = drop n ys"
    by (cases "n \<le> length ys"; simp)+
  ultimately have kb: "kept = take n ys" "bad = rev (drop n ys)" using assms by (simp_all add: sweep_def c)
  show "kept = filter valid xs" using kb r by simp
  have "mset (take n ys) + mset (drop n ys) = mset (filter valid xs) + mset (filter (\<lambda>x. \<not> valid x) xs)"
    unfolding mset_append [symmetric] append_take_drop_id r(1) by (simp add: mset_filter multiset_partition [symmetric])
  then have "mset (drop n ys) = mset (filter (\<lambda>x. \<not> valid x) xs)" unfolding r(2) by (rule add_left_imp_eq)
  then show "mset bad = mset (filter (\<lambda>x. \<not> valid x) xs)" using kb(2) by simp
qed

definition db_valid :: "'db meta_state \<Rightarrow> privilege_database \<Rightarrow> bool" where
  "db_valid s p \<longleftrightarrow> ms_database_info_map s (pd_id p) \<noteq> None"

definition tbl_valid :: "'db meta_state \<Rightarrow> privilege_table \<Rightarrow> bool" where
  "tbl_valid s p \<longleftrightarrow> ms_table_info_map s (pt_id p) \<noteq> None"

text \<open>What a user keeps.\<close>

definition only_valid :: "'db meta_state \<Rightarrow> user_privilege \<Rightarrow> user_privilege" where
  "only_valid s p =
     (if list_all (db_valid s) (up_privilege_database p) \<and> list_all (tbl_valid s) (up_privilege_table p) then p
      else p\<lparr>up_privilege_database := filter (db_valid s) (up_privilege_database p),
             up_privilege_table := filter (tbl_valid s) (up_privilege_table p),
             up_version := Some (get_or 0 (up_version p) + 1)\<rparr>)"

lemma invalid_of_user_parts:
  assumes "invalid_of_user s u p = (kept, del)"
  shows "kept = p\<lparr>up_privilege_database := filter (db_valid s) (up_privilege_database p),
      up_privilege_table := filter (tbl_valid s) (up_privilege_table p)\<rparr>"
    and "up_username del = u"
    and "mset (up_privilege_database del) = mset (filter (\<lambda>q. \<not> db_valid s q) (up_privilege_database p))"
    and "mset (up_privilege_table del) = mset (filter (\<lambda>q. \<not> tbl_valid s q) (up_privilege_table p))"
proof -
  obtain dbs bad where d: "sweep (db_valid s) (up_privilege_database p) = (dbs, bad)" by fastforce
  obtain tbls tbad where t: "sweep (tbl_valid s) (up_privilege_table p) = (tbls, tbad)" by fastforce
  have e: "kept = p\<lparr>up_privilege_database := dbs, up_privilege_table := tbls\<rparr>"
    "del = no_user_privilege\<lparr>up_username := u, up_privilege_database := bad, up_privilege_table := tbad\<rparr>"
    using assms d t unfolding invalid_of_user_def db_valid_def [abs_def, symmetric] tbl_valid_def [abs_def, symmetric]
    by (simp_all add: Let_def db_valid_def [abs_def] tbl_valid_def [abs_def])
  then show "kept = p\<lparr>up_privilege_database := filter (db_valid s) (up_privilege_database p),
      up_privilege_table := filter (tbl_valid s) (up_privilege_table p)\<rparr>" "up_username del = u"
    "mset (up_privilege_database del) = mset (filter (\<lambda>q. \<not> db_valid s q) (up_privilege_database p))"
    "mset (up_privilege_table del) = mset (filter (\<lambda>q. \<not> tbl_valid s q) (up_privilege_table p))"
    using sweep_result [OF d] sweep_result [OF t] by simp_all
qed

lemma filter_ids_split:
  assumes "distinct (map f xs)"
  shows "f ` set (filter P xs) = f ` set xs - f ` set (filter (\<lambda>x. \<not> P x) xs)"
proof -
  have "inj_on f (set xs)" using assms by (simp add: distinct_map)
  then show ?thesis by (auto simp: inj_on_def)
qed

lemma drop_invalid_step:
  assumes C: "rocks_ok (me_rocks E) C" and ok: "users_stored E C s" and p: "ms_user_privilege s u = Some p"
    and i: "invalid_of_user s u p = (kept, del)"
    and st: "store_user E u (kept\<lparr>up_version := Some (get_or 0 (up_version kept) + 1)\<rparr>) (delete_db_tbl_user_map del) s = (e, s')"
  shows "users_stored E C s'" and "same_schema C s s'" and "ms_table_info_map s' = ms_table_info_map s"
    and "db_index_ok s \<Longrightarrow> db_index_ok s'"
    and "e = SUCCESS \<Longrightarrow> ms_user_privilege s' = (ms_user_privilege s)(u \<mapsto> kept\<lparr>up_version := Some (get_or 0 (up_version kept) + 1)\<rparr>)"
    and "e \<noteq> SUCCESS \<Longrightarrow> ms_user_privilege s' = ms_user_privilege s"
proof -
  note parts = invalid_of_user_parts [OF i]
  have name: "up_username kept = u" using parts(1) users_storedD(1) [OF ok p] by simp
  show "users_stored E C s'" "same_schema C s s'" using store_user_ok [OF C _ st _ ok] name by simp_all
  have del: "set (up_privilege_database del) = set (filter (\<lambda>q. \<not> db_valid s q) (up_privilege_database p))"
    using mset_eq_setD [OF parts(3)] .
  show "db_index_ok s'" if d: "db_index_ok s"
    by (rule store_user_index_erase [OF C d st _ p])
       (use parts(1, 2) del filter_ids_split [of pd_id "up_privilege_database p" "db_valid s"] db_index_distinct [OF d p]
         in \<open>simp_all add: distinct_map_filter\<close>)
  show "ms_table_info_map s' = ms_table_info_map s"
    "e = SUCCESS \<Longrightarrow> ms_user_privilege s' = (ms_user_privilege s)(u \<mapsto> kept\<lparr>up_version := Some (get_or 0 (up_version kept) + 1)\<rparr>)"
    "e \<noteq> SUCCESS \<Longrightarrow> ms_user_privilege s' = ms_user_privilege s"
    using C st by (cases rule: store_user_cases; simp add: delete_db_tbl_user_map_def)+
qed

lemma filter_mset_empty: "mset xs = mset (filter P ys) \<Longrightarrow> xs = [] \<longleftrightarrow> list_all (\<lambda>y. \<not> P y) ys"
  by (metis filter_False filter_empty_conv list_all_iff mset_zero_iff)

lemma only_valid_parts:
  assumes "invalid_of_user s u p = (kept, del)"
  shows "only_valid s p =
    (if up_privilege_database del \<noteq> [] \<or> up_privilege_table del \<noteq> []
     then kept\<lparr>up_version := Some (get_or 0 (up_version kept) + 1)\<rparr> else p)"
  using filter_mset_empty [OF invalid_of_user_parts(3) [OF assms]] filter_mset_empty [OF invalid_of_user_parts(4) [OF assms]]
    invalid_of_user_parts(1) [OF assms]
  by (auto simp: only_valid_def)

lemma only_valid_same:
  assumes "same_schema C s s'" and "ms_table_info_map s' = ms_table_info_map s"
  shows "only_valid s' = only_valid s"
  using assms by (simp add: fun_eq_iff only_valid_def db_valid_def [abs_def] tbl_valid_def [abs_def] same_schema_def)

lemma drop_invalid_loop_ok:
  assumes C: "rocks_ok (me_rocks E) C" and "users_stored E C s"
    and "drop_invalid_loop E (map (\<lambda>u. (u, the (ms_user_privilege s0 u))) us) s = (e, s')"
    and "distinct us" and "\<forall>u \<in> set us. ms_user_privilege s u = ms_user_privilege s0 u \<and> u \<in> dom (ms_user_privilege s0)"
  shows "users_stored E C s' \<and> same_schema C s s' \<and> ms_table_info_map s' = ms_table_info_map s \<and>
    (db_index_ok s \<longrightarrow> db_index_ok s') \<and>
    (e = SUCCESS \<longrightarrow> ms_user_privilege s' =
       (\<lambda>u. if u \<in> set us then map_option (only_valid s) (ms_user_privilege s0 u) else ms_user_privilege s u))"
  using assms(2-)
proof (induction us arbitrary: s)
  case Nil
  then show ?case by (simp add: same_schema_def)
next
  case (Cons u us)
  obtain p where p: "ms_user_privilege s0 u = Some p" "ms_user_privilege s u = Some p" using Cons.prems by auto
  obtain kept del where i: "invalid_of_user s u p = (kept, del)" by fastforce
  show ?case
  proof (cases "up_privilege_database del \<noteq> [] \<or> up_privilege_table del \<noteq> []")
    case False
    have "drop_invalid_loop E (map (\<lambda>u. (u, the (ms_user_privilege s0 u))) us) s = (e, s')"
      using Cons.prems(2) i p False by simp
    note ih = Cons.IH [OF Cons.prems(1) this]
    have "only_valid s p = p" using only_valid_parts [OF i] False by simp
    with ih Cons.prems p show ?thesis by (auto simp: fun_eq_iff)
  next
    case True
    define q where "q = kept\<lparr>up_version := Some (get_or 0 (up_version kept) + 1)\<rparr>"
    have q: "only_valid s p = q" using only_valid_parts [OF i] True by (simp add: q_def)
    obtain e1 s1 where st: "store_user E u q (delete_db_tbl_user_map del) s = (e1, s1)" by fastforce
    note step = drop_invalid_step [OF C Cons.prems(1) p(2) i st [unfolded q_def]]
    show ?thesis
    proof (cases "e1 = SUCCESS")
      case False
      then have "e = e1" "s' = s1" using Cons.prems(2) i p True st by (auto simp: q_def split: errcode.splits)
      with False step show ?thesis by simp
    next
      case ok: True
      have "drop_invalid_loop E (map (\<lambda>u. (u, the (ms_user_privilege s0 u))) us) s1 = (e, s')"
        using Cons.prems(2) i p True st ok by (simp add: q_def)
      moreover have "\<forall>v \<in> set us. ms_user_privilege s1 v = ms_user_privilege s0 v \<and> v \<in> dom (ms_user_privilege s0)"
        using Cons.prems step(5) [OF ok] by auto
      ultimately have ih: "users_stored E C s' \<and> same_schema C s1 s' \<and> ms_table_info_map s' = ms_table_info_map s1 \<and>
        (db_index_ok s1 \<longrightarrow> db_index_ok s') \<and>
        (e = SUCCESS \<longrightarrow> ms_user_privilege s' =
          (\<lambda>u. if u \<in> set us then map_option (only_valid s1) (ms_user_privilege s0 u) else ms_user_privilege s1 u))"
        using Cons.IH [OF step(1)] Cons.prems(3) by simp
      have "same_schema C s s'" using step(2) ih by (simp add: same_schema_def)
      with ih [unfolded only_valid_same [OF step(2, 3)]] step(3, 4) step(5) [OF ok] q p(1) Cons.prems(3) show ?thesis
        by (auto simp: fun_eq_iff q_def)
    qed
  qed
qed

text \<open>The order in which the hash set of users is visited: each once.\<close>

definition visits :: "'db meta_env \<Rightarrow> bool" where
  "visits E \<longleftrightarrow> (\<forall>A. finite A \<longrightarrow> set (me_visit E A) = A \<and> distinct (me_visit E A))"

lemma drop_invalid_privilege_ok:
  assumes "rocks_ok (me_rocks E) C" and "visits E" and "users_stored E C s" and "drop_invalid_privilege E s = (e, s')"
  shows "users_stored E C s'" and "same_schema C s s'" and "db_index_ok s \<Longrightarrow> db_index_ok s'"
    and "e = SUCCESS \<Longrightarrow> ms_user_privilege s' = map_option (only_valid s) \<circ> ms_user_privilege s"
proof -
  define us where "us = me_visit E (dom (ms_user_privilege s))"
  have us: "distinct us" "set us = dom (ms_user_privilege s)"
    using assms(2, 3) by (simp_all add: us_def visits_def users_stored_def)
  have "drop_invalid_loop E (map (\<lambda>u. (u, the (ms_user_privilege s u))) us) s = (e, s')"
    using assms(4) by (simp add: drop_invalid_privilege_def us_def)
  note r = drop_invalid_loop_ok [OF assms(1, 3) this us(1)]
  then show "users_stored E C s'" "same_schema C s s'" "db_index_ok s \<Longrightarrow> db_index_ok s'" using us(2) by simp_all
  show "ms_user_privilege s' = map_option (only_valid s) \<circ> ms_user_privilege s" if "e = SUCCESS"
    using r us(2) that by (auto simp: fun_eq_iff dom_def)
qed

end
