(* ===== verification/MetaRun.thy ===== *)
theory MetaRun
  imports UserInvariant
begin

text \<open>
  The handlers that span managers, \<^verbatim>\<open>create_database\<close> and \<^verbatim>\<open>drop_database\<close>, and sequences of
  requests: every request the state machine applies keeps the invariants of the schema and
  of the users.
\<close>

section \<open>Creating a database\<close>

lemma add_privilege_for_database_ok:
  assumes C: "rocks_ok (me_rocks E) C" and ok: "users_stored E C s"
  shows "users_stored E C (add_privilege_for_database E request s)"
    and "same_schema C s (add_privilege_for_database E request s)"
    and "db_index_ok s \<Longrightarrow> db_index_ok (add_privilege_for_database E request s)"
proof -
  obtain e t where r: "add_privilege E request s = (e, t)" by fastforce
  show "users_stored E C (add_privilege_for_database E request s)"
    "same_schema C s (add_privilege_for_database E request s)"
    using add_privilege_ok [OF C ok r] ok r by (simp_all add: add_privilege_for_database_def)
  show "db_index_ok s \<Longrightarrow> db_index_ok (add_privilege_for_database E request s)"
    using add_privilege_index [OF C _ r] r by (simp add: add_privilege_for_database_def)
qed

lemma created_database_ok:
  assumes ok: "schema_ok E C s" and room: "ms_max_database_id s + 1 < 2 ^ 63"
    and n: "get_namespace_id (di_namespace_name info) s = n" "n \<noteq> 0"
    and new: "ms_database_id_map s (full_name (di_namespace_name info) (di_database info)) = None"
    and id: "di_database_id info = Some (ms_max_database_id s + 1)" "di_namespace_id info = Some n"
    and v: "me_ser_db E info = Some v"
    and db': "C db' Meta_Info_Cf = (meta_of C s)(construct_database_key (me_big E) (ms_max_database_id s + 1) \<mapsto> v,
         construct_max_database_id_key \<mapsto> mem_bytes (me_big E) 8 (word_of_int (ms_max_database_id s + 1) :: 64 word))"
  shows "schema_ok E C (add_database_id n (ms_max_database_id s + 1)
    ((set_database_info info (s\<lparr>ms_db := db'\<rparr>))\<lparr>ms_max_database_id := ms_max_database_id s + 1\<rparr>))"
proof -
  have ns: "ns_ok s" and db: "db_ok s" using ok by (simp_all add: schema_ok_def)
  have m: "0 \<le> ms_max_database_id s" using db by (simp add: db_ok_def)
  have name: "ms_namespace_id_map s (di_namespace_name info) = Some n"
    using n by (auto simp: get_namespace_id_def get_or_def split: option.splits)
  obtain nsi where "ms_namespace_info_map s n = Some nsi" "ni_namespace_name nsi = di_namespace_name info"
    by (rule ns_ok_name [OF ns name])
  then have "db_of_ns s info" using id by (simp add: db_of_ns_def)
  moreover have "ms_database_info_map s (ms_max_database_id s + 1) \<noteq> Some old" for old
    using db_okD(2) [OF db, of "ms_max_database_id s + 1" old] by (auto simp: id_ok_def)
  moreover have "stored_max (me_big E) (C db' Meta_Info_Cf) construct_max_database_id_key (ms_max_database_id s + 1)"
    using m db' by (simp add: stored_max_def)
  ultimately show ?thesis
    by (intro schema_ok_set_db [OF ok v]) (use id new db' id_ok_Suc [OF m room] in auto)
qed

lemma create_database_ok:
  assumes C: "rocks_ok (me_rocks E) C" and ok: "schema_ok E C s" and us: "users_stored E C s"
    and room: "ms_max_database_id s + 1 < 2 ^ 63" and r: "create_database E request s = (e, s')"
  shows "schema_ok E C s' \<and> users_stored E C s' \<and> (db_index_ok s \<longrightarrow> db_index_ok s')"
  using C r
proof (cases rule: create_database_cases)
  case unchanged
  then show ?thesis using schema_ok_same [OF ok] users_stored_same [OF us] db_index_same by blast
next
  case (created n info v db')
  let ?t = "add_database_id n (ms_max_database_id s + 1)
    ((set_database_info info (s\<lparr>ms_db := db'\<rparr>))\<lparr>ms_max_database_id := ms_max_database_id s + 1\<rparr>)"
  have t: "schema_ok E C ?t" by (rule created_database_ok [OF ok room created(2-4, 7-10)])
  have u: "same_users C s ?t"
    using created(10) by (simp add: same_users_def add_database_id_def set_database_info_def)
  note p = add_privilege_for_database_ok [OF C users_stored_same [OF us u]]
  show ?thesis
    using schema_ok_same [OF t p(2)] p(1) p(3) db_index_same [OF _ u] by (auto simp: created(11))
qed

section \<open>Dropping a database\<close>

lemma drop_request_plain:
  "plain_revoke (req_user (drop_privilege_request request u))" "up_username (req_user (drop_privilege_request request u)) = u"
  by (simp_all add: plain_revoke_def req_user_def drop_privilege_request_def get_or_def)

abbreviation drop_each :: "'db meta_env \<Rightarrow> meta_request \<Rightarrow> bytes list \<Rightarrow> 'db meta_state \<Rightarrow> 'db meta_state" where
  "drop_each E request \<equiv> fold (\<lambda>user s. snd (drop_privilege E (drop_privilege_request request user) s))"

lemma drop_privileges_ok:
  assumes C: "rocks_ok (me_rocks E) C" and "users_stored E C s"
  shows "users_stored E C (drop_each E request us s) \<and> same_schema C s (drop_each E request us s) \<and>
    (db_index_ok s \<longrightarrow> db_index_ok (drop_each E request us s))"
  using assms(2)
proof (induction us arbitrary: s)
  case Nil
  then show ?case by simp
next
  case (Cons u us)
  obtain e t where r: "drop_privilege E (drop_privilege_request request u) s = (e, t)" by fastforce
  have t: "users_stored E C t" "same_schema C s t" "db_index_ok s \<longrightarrow> db_index_ok t"
    using drop_privilege_ok [OF C Cons.prems r] drop_privilege_index [OF C _ drop_request_plain(1) r] by simp_all
  have "drop_each E request (u # us) s = drop_each E request us t" using r by simp
  with Cons.IH [OF t(1)] t show ?case by (auto simp: same_schema_def)
qed

lemma drop_privilege_for_database_ok:
  assumes "rocks_ok (me_rocks E) C" and "users_stored E C s"
  shows "users_stored E C (drop_privilege_for_database E request i s)"
    "same_schema C s (drop_privilege_for_database E request i s)"
    "db_index_ok s \<Longrightarrow> db_index_ok (drop_privilege_for_database E request i s)"
  using drop_privileges_ok [OF assms] assms(2)
  by (simp_all add: drop_privilege_for_database_def split: option.split)

lemma drop_database_cases:
  assumes C: "rocks_ok (me_rocks E) C" and r: "drop_database E request s = (e, s')"
  obtains (unchanged) "s' = s \<or> (\<exists>t. s' = s\<lparr>ms_table_ids := t\<rparr>)" "e \<noteq> SUCCESS"
  | (dropped) n i t u db' where "get_namespace_id (di_namespace_name (mr_database_info request)) s = n" "n \<noteq> 0"
      "ms_database_id_map s (full_name (di_namespace_name (mr_database_info request)) (di_database (mr_database_info request))) = Some i"
      "t = s\<lparr>ms_table_ids := touch i (ms_table_ids s)\<rparr>" "u = drop_privilege_for_database E request i t"
      "e \<noteq> SUCCESS \<and> C db' Meta_Info_Cf = meta_of C u \<and> s' = u\<lparr>ms_db := db'\<rparr> \<or>
       e = SUCCESS \<and> C db' Meta_Info_Cf = (meta_of C u)(construct_database_key (me_big E) i := None) \<and>
       s' = delete_database_id n i (erase_database_info
          (full_name (di_namespace_name (mr_database_info request)) (di_database (mr_database_info request))) (u\<lparr>ms_db := db'\<rparr>))"
proof -
  let ?req = "mr_database_info request"
  let ?n = "get_namespace_id (di_namespace_name ?req) s" and ?full = "full_name (di_namespace_name ?req) (di_database ?req)"
  show thesis
  proof (cases "?n \<noteq> 0 \<and> (\<exists>i. ms_database_id_map s ?full = Some i \<and> set_at (ms_table_ids s) i = {})")
    case False
    then have "(s' = s \<or> (\<exists>t. s' = s\<lparr>ms_table_ids := t\<rparr>)) \<and> e \<noteq> SUCCESS"
      using r by (auto simp: drop_database_def Let_def split: if_splits option.splits)
    then show thesis using unchanged by blast
  next
    case True
    then obtain i where i: "ms_database_id_map s ?full = Some i" "set_at (ms_table_ids s) i = {}" by blast
    define t where "t = s\<lparr>ms_table_ids := touch i (ms_table_ids s)\<rparr>"
    define u where "u = drop_privilege_for_database E request i t"
    obtain ret db' where w: "delete_meta_info (me_rocks E) [construct_database_key (me_big E) i] (ms_db u) = (ret, db')"
      by fastforce
    have "(e, s') = (if ret < 0 then (INTERNAL_ERROR, u\<lparr>ms_db := db'\<rparr>)
        else (SUCCESS, delete_database_id ?n i (erase_database_info ?full (u\<lparr>ms_db := db'\<rparr>))))"
      using r True i w unfolding u_def t_def by (simp add: drop_database_def Let_def)
    then show thesis
      using dropped [of ?n i t u db'] True i(1) t_def u_def delete_meta_info_cases [OF C w] by (auto split: if_splits)
  qed
qed

lemma schema_ok_erase_db:
  assumes ok: "schema_ok E C s" and t: "ms_database_info_map s i = Some info" "di_namespace_id info = Some n"
    and full: "full_name (di_namespace_name info) (di_database info) = full"
    and db': "C db' Meta_Info_Cf = (meta_of C s)(construct_database_key (me_big E) i := None)"
  shows "schema_ok E C (delete_database_id n i (erase_database_info full (s\<lparr>ms_db := db'\<rparr>)))" (is "schema_ok E C ?s'")
proof -
  let ?full = "\<lambda>info. full_name (di_namespace_name info) (di_database info)"
  have ns: "ns_ok s" and db: "db_ok s" and st: "schema_stored E C s" using ok by (simp_all add: schema_ok_def)
  note d = db_okD [OF db t(1)]
  have id: "ms_database_id_map s full = Some i" using d(4) full by simp
  have im: "ms_database_info_map ?s' = (ms_database_info_map s)(i := None)"
    and nm: "ms_database_id_map ?s' = (ms_database_id_map s)(full := None)"
    and ids: "set_at (ms_database_ids ?s') = (set_at (ms_database_ids s))(n := set_at (ms_database_ids s) n - {i})"
    and rest: "ms_max_database_id ?s' = ms_max_database_id s" "ms_db ?s' = db'" "ms_max_namespace_id ?s' = ms_max_namespace_id s"
      "ms_namespace_info_map ?s' = ms_namespace_info_map s" "ms_namespace_id_map ?s' = ms_namespace_id_map s"
    using id by (auto simp: erase_database_info_def delete_database_id_def fun_eq_iff set_at_def Let_def split: option.split)
  have of_ns: "db_of_ns ?s' = db_of_ns s" by (simp add: fun_eq_iff db_of_ns_def rest)
  have "db_ok ?s'"
    unfolding db_ok_def im nm of_ns rest
  proof (intro conjI allI impI)
    show "0 \<le> ms_max_database_id s" "ms_max_database_id s < 2 ^ 63" using db by (simp_all add: db_ok_def)
  next
    fix j inf assume "((ms_database_info_map s)(i := None)) j = Some inf"
    then have j: "j \<noteq> i" "ms_database_info_map s j = Some inf" by (auto split: if_splits)
    note e = db_okD [OF db j(2)]
    show "di_database_id inf = Some j" "id_ok (ms_max_database_id s) j" "db_of_ns s inf"
      "((ms_database_id_map s)(full := None)) (?full inf) = Some j"
      using e d(4) j(1) full by auto
  next
    fix nam j assume "((ms_database_id_map s)(full := None)) nam = Some j"
    then have j: "nam \<noteq> full" "ms_database_id_map s nam = Some j" by (auto split: if_splits)
    obtain inf where "ms_database_info_map s j = Some inf" "?full inf = nam" by (rule db_ok_name [OF db j(2)])
    with j t full show "\<exists>inf. ((ms_database_info_map s)(i := None)) j = Some inf \<and> ?full inf = nam"
      by (intro exI [of _ inf]) auto
  next
    fix k show "set_at (ms_database_ids ?s') k =
        {j. \<exists>inf. ((ms_database_info_map s)(i := None)) j = Some inf \<and> di_namespace_id inf = Some k}"
      unfolding ids using t by (auto simp: db_ok_ids [OF db] split: if_splits)
  qed
  moreover have "ns_ok ?s'" using ns by (simp add: ns_ok_def rest)
  moreover have "mirrors (C db' Meta_Info_Cf) [2, 3] (construct_database_key (me_big E)) (me_ser_db E) ((ms_database_info_map s)(i := None))"
    unfolding db' by (rule mirrors_delete) (use st db_key_inject [OF db _ d(2)] in \<open>auto simp: schema_stored_def\<close>)
  moreover have "mirrors (C db' Meta_Info_Cf) [2, 2] (construct_namespace_key (me_big E)) (me_ser_ns E) (ms_namespace_info_map s)"
    unfolding db' by (rule mirrors_other [of "meta_of C s"]) (use st in \<open>auto simp: schema_stored_def key_defs\<close>)
  ultimately show ?thesis
    using st unfolding schema_ok_def schema_stored_def im rest by (simp add: stored_max_def db')
qed

lemma drop_database_ok:
  assumes C: "rocks_ok (me_rocks E) C" and ok: "schema_ok E C s" and us: "users_stored E C s"
    and r: "drop_database E request s = (e, s')"
  shows "schema_ok E C s' \<and> users_stored E C s' \<and> (db_index_ok s \<longrightarrow> db_index_ok s')"
  using C r
proof (cases rule: drop_database_cases)
  case unchanged
  then have "same_schema C s s'" "same_users C s s'" by (auto simp: same_schema_def same_users_def)
  then show ?thesis using schema_ok_same [OF ok] users_stored_same [OF us] db_index_same by blast
next
  case (dropped n i t u db')
  have t: "same_users C s t" "same_schema C s t" by (simp_all add: dropped(4) same_users_def same_schema_def)
  note p = drop_privilege_for_database_ok [OF C users_stored_same [OF us t(1)], of request i, folded dropped(5)]
  have u: "schema_ok E C u" by (rule schema_ok_same [OF schema_ok_same [OF ok t(2)] p(2)])
  have x: "db_index_ok s \<longrightarrow> db_index_ok u" using p(3) db_index_same [OF _ t(1)] by simp
  from dropped(6) show ?thesis
  proof
    assume "e \<noteq> SUCCESS \<and> C db' Meta_Info_Cf = meta_of C u \<and> s' = u\<lparr>ms_db := db'\<rparr>"
    then have "same_schema C u s'" "same_users C u s'" by (simp_all add: same_users_def)
    then show ?thesis using schema_ok_same [OF u] users_stored_same [OF p(1)] x db_index_same by blast
  next
    let ?req = "mr_database_info request"
    assume a: "e = SUCCESS \<and> C db' Meta_Info_Cf = (meta_of C u)(construct_database_key (me_big E) i := None) \<and>
       s' = delete_database_id n i (erase_database_info
          (full_name (di_namespace_name ?req) (di_database ?req)) (u\<lparr>ms_db := db'\<rparr>))"
    obtain info where info: "ms_database_info_map s i = Some info" "di_namespace_name info = di_namespace_name ?req"
        "di_database info = di_database ?req" "di_namespace_id info = Some n"
      by (rule db_ok_lookup [OF ok dropped(1-3)])
    have "ms_database_info_map u i = Some info" using info(1) t(2) p(2) by (simp add: same_schema_def)
    from schema_ok_erase_db [OF u this info(4) _ conjunct1 [OF conjunct2 [OF a]]] have "schema_ok E C s'"
      using a info by simp
    moreover have "same_users C u s'"
      using a by (simp add: same_users_def delete_database_id_def erase_database_info_def Let_def)
    ultimately show ?thesis using users_stored_same [OF p(1)] x db_index_same by blast
  qed
qed

section \<open>Sequences of requests\<close>

text \<open>
  What a request must be like: no namespace has the separator of qualified names in its name,
  and ids do not run out. For the index of privileges, a user is created with each database once,
  and no single bits of an access control list are revoked.
\<close>

fun fits :: "meta_op \<Rightarrow> meta_request \<Rightarrow> 'db meta_state \<Rightarrow> bool" where
  "fits Create_Namespace request s \<longleftrightarrow>
     1 \<notin> set (ni_namespace_name (mr_namespace_info request)) \<and> ms_max_namespace_id s + 1 < 2 ^ 63"
| "fits Create_Database request s \<longleftrightarrow> ms_max_database_id s + 1 < 2 ^ 63"
| "fits _ request s \<longleftrightarrow> True"

fun plain_request :: "meta_op \<Rightarrow> meta_request \<Rightarrow> bool" where
  "plain_request Create_User request \<longleftrightarrow> distinct (map pd_database (up_privilege_database (req_user request)))"
| "plain_request Drop_Privilege request \<longleftrightarrow> plain_revoke (req_user request)"
| "plain_request _ request \<longleftrightarrow> True"

inductive meta_steps ::
  "'db meta_env \<Rightarrow> 'db meta_state \<Rightarrow> (meta_op \<times> meta_request) list \<Rightarrow> 'db meta_state \<Rightarrow> bool" for E where
  steps_nil: "meta_steps E s [] s"
| steps_cons: "meta_apply E op request s = (e, t) \<Longrightarrow> fits op request s \<Longrightarrow> meta_steps E t rs u \<Longrightarrow>
    meta_steps E s ((op, request) # rs) u"

inductive_cases steps_nilE: "meta_steps E s [] u"
inductive_cases steps_consE: "meta_steps E s ((op, request) # rs) u"

text \<open>The same as a function.\<close>

fun meta_run :: "'db meta_env \<Rightarrow> (meta_op \<times> meta_request) list \<Rightarrow> 'db meta_state \<Rightarrow> 'db meta_state" where
  "meta_run E [] s = s"
| "meta_run E ((op, request) # rs) s = meta_run E rs (snd (meta_apply E op request s))"

fun fits_all :: "'db meta_env \<Rightarrow> (meta_op \<times> meta_request) list \<Rightarrow> 'db meta_state \<Rightarrow> bool" where
  "fits_all E [] s \<longleftrightarrow> True"
| "fits_all E ((op, request) # rs) s \<longleftrightarrow> fits op request s \<and> fits_all E rs (snd (meta_apply E op request s))"

lemma meta_steps_run: "fits_all E rs s \<Longrightarrow> meta_steps E s rs (meta_run E rs s)"
proof (induction E rs s rule: meta_run.induct)
  case (2 E op request rs s)
  obtain e t where "meta_apply E op request s = (e, t)" by fastforce
  with 2 show ?case by (auto intro: steps_cons)
qed (simp add: steps_nil)

lemma meta_apply_ok:
  assumes C: "rocks_ok (me_rocks E) C" and v: "visits E" and ok: "schema_ok E C s" and us: "users_stored E C s"
    and f: "fits op request s" and r: "meta_apply E op request s = (e, t)"
  shows "schema_ok E C t \<and> users_stored E C t \<and> (plain_request op request \<longrightarrow> db_index_ok s \<longrightarrow> db_index_ok t)"
proof -
  have db: "db_ok s" using ok by (simp add: schema_ok_def)
  note u = users_stored_same [OF us] db_index_same
  show ?thesis
  proof (cases op)
    case Create_User
    then show ?thesis
      using r create_user_ok [OF C us, of request e t] create_user_index [OF C _ db, of request e t] schema_ok_same [OF ok] by auto
  next
    case Drop_User
    then show ?thesis using r drop_user_ok [OF C us, of request e t] schema_ok_same [OF ok] by auto
  next
    case Modify_User
    then show ?thesis
      using r modify_user_ok [OF C us, of request e t] modify_user_index [OF C, of s request e t] schema_ok_same [OF ok] by auto
  next
    case Add_Privilege
    then show ?thesis
      using r add_privilege_ok [OF C us, of request e t] add_privilege_index [OF C, of s request e t] schema_ok_same [OF ok] by auto
  next
    case Drop_Privilege
    then show ?thesis
      using r drop_privilege_ok [OF C us, of request e t] drop_privilege_index [OF C, of s request e t] schema_ok_same [OF ok] by auto
  next
    case Drop_Invalid_Privilege
    then show ?thesis using r drop_invalid_privilege_ok [OF C v us, of e t] schema_ok_same [OF ok] by auto
  next
    case Create_Namespace
    then show ?thesis using r f create_namespace_ok [OF C ok, of request e t] u by auto
  next
    case Drop_Namespace
    then show ?thesis using r drop_namespace_ok [OF C ok, of request e t] u by auto
  next
    case Modify_Namespace
    then show ?thesis using r modify_namespace_ok [OF C ok, of request e t] u by auto
  next
    case Create_Database
    then show ?thesis using r f create_database_ok [OF C ok us, of request e t] by auto
  next
    case Drop_Database
    then show ?thesis using r drop_database_ok [OF C ok us, of request e t] by auto
  next
    case Modify_Database
    then show ?thesis using r modify_database_ok [OF C ok, of request e t] u by auto
  qed
qed

lemma meta_steps_ok:
  assumes "meta_steps E s rs t" and C: "rocks_ok (me_rocks E) C" and v: "visits E"
    and "schema_ok E C s" and "users_stored E C s"
  shows "schema_ok E C t \<and> users_stored E C t \<and>
    (list_all (\<lambda>(op, request). plain_request op request) rs \<longrightarrow> db_index_ok s \<longrightarrow> db_index_ok t)"
  using assms(1, 4, 5)
proof (induction rule: meta_steps.induct)
  case (steps_cons op request s e t rs u)
  note m = meta_apply_ok [OF C v steps_cons.prems steps_cons.hyps(2, 1)]
  with steps_cons.IH show ?case by auto
qed simp

text \<open>An empty meta server.\<close>

definition meta_start :: "'db \<Rightarrow> 'db meta_state" where
  "meta_start db =
     \<lparr>ms_db = db, ms_max_namespace_id = 0, ms_namespace_id_map = Map.empty, ms_namespace_info_map = Map.empty,
      ms_database_ids = Map.empty, ms_max_database_id = 0, ms_database_id_map = Map.empty,
      ms_database_info_map = Map.empty, ms_table_ids = Map.empty, ms_user_privilege = Map.empty,
      ms_db_user_map = Map.empty, ms_tbl_user_map = Map.empty, ms_table_id_map = Map.empty,
      ms_table_info_map = Map.empty\<rparr>"

lemma meta_start_ok:
  assumes "C db Meta_Info_Cf = Map.empty"
  shows "schema_ok E C (meta_start db)" "users_stored E C (meta_start db)" "db_index_ok (meta_start db)"
  using assms
  by (simp_all add: meta_start_def schema_ok_def ns_ok_def db_ok_def schema_stored_def mirrors_def stored_max_def
      users_stored_def db_index_ok_def index_exact_def set_at_def get_or_def)

end
