(* ===== verification/MetaReload.thy ===== *)
theory MetaReload
  imports UserInvariant
begin

text \<open>
  Loading a snapshot: a meta server that opens the store of another one ends up with its
  namespaces, databases, greatest ids and users in memory. The parser of each kind of row is
  assumed to read what its serialiser wrote, and the managers outside this development to
  leave the tables of the others alone.
\<close>

section \<open>The schema\<close>

definition ns_round_trip :: "'db meta_env \<Rightarrow> bool" where
  "ns_round_trip E \<longleftrightarrow> (\<forall>i v. me_ser_ns E i = Some v \<longrightarrow> me_parse_ns E v = Some i)"

definition db_round_trip :: "'db meta_env \<Rightarrow> bool" where
  "db_round_trip E \<longleftrightarrow> (\<forall>i v. me_ser_db E i = Some v \<longrightarrow> me_parse_db E v = Some i)"

definition user_round_trip :: "'db meta_env \<Rightarrow> bool" where
  "user_round_trip E \<longleftrightarrow> (\<forall>i v. me_ser_user E i = Some v \<longrightarrow> me_parse_user E v = Some i)"

text \<open>The managers that load the other rows.\<close>

definition others_ok :: "(bytes \<Rightarrow> bytes \<Rightarrow> 'db meta_state \<Rightarrow> int \<times> 'db meta_state) \<Rightarrow> bool" where
  "others_ok others \<longleftrightarrow> (\<forall>k v s. fst (others k v s) = 0 \<and>
     ms_max_namespace_id (snd (others k v s)) = ms_max_namespace_id s \<and>
     ms_namespace_id_map (snd (others k v s)) = ms_namespace_id_map s \<and>
     ms_namespace_info_map (snd (others k v s)) = ms_namespace_info_map s \<and>
     ms_database_ids (snd (others k v s)) = ms_database_ids s \<and>
     ms_max_database_id (snd (others k v s)) = ms_max_database_id s \<and>
     ms_database_id_map (snd (others k v s)) = ms_database_id_map s \<and>
     ms_database_info_map (snd (others k v s)) = ms_database_info_map s)"

text \<open>The part of a table, and of the map from names to its ids, whose keys have been read.\<close>

definition rows_in :: "(int \<Rightarrow> bytes) \<Rightarrow> bytes set \<Rightarrow> (int \<rightharpoonup> 'i) \<Rightarrow> (int \<rightharpoonup> 'i)" where
  "rows_in key K table = (\<lambda>i. if key i \<in> K then table i else None)"

definition names_in :: "(int \<Rightarrow> bytes) \<Rightarrow> bytes set \<Rightarrow> (bytes \<rightharpoonup> int) \<Rightarrow> (bytes \<rightharpoonup> int)" where
  "names_in key K names = (\<lambda>n. Option.bind (names n) (\<lambda>i. if key i \<in> K then Some i else None))"

lemma rows_in_row:
  assumes "table i = Some info" and "\<And>j. key j = key i \<Longrightarrow> j \<noteq> i \<Longrightarrow> table j = None"
  shows "rows_in key (insert (key i) K) table = (rows_in key K table)(i \<mapsto> info)"
proof
  fix j show "rows_in key (insert (key i) K) table j = ((rows_in key K table)(i \<mapsto> info)) j"
    using assms(1) assms(2) [of j] by (cases "j = i"; cases "key j = key i") (simp_all add: rows_in_def)
qed

lemma names_in_row:
  assumes "names name = Some i" and "\<And>n j. names n = Some j \<Longrightarrow> key j = key i \<Longrightarrow> n = name"
  shows "names_in key (insert (key i) K) names = (names_in key K names)(name \<mapsto> i)"
proof
  fix n show "names_in key (insert (key i) K) names n = ((names_in key K names)(name \<mapsto> i)) n"
  proof (cases "n = name")
    case True
    then show ?thesis using assms(1) by (simp add: names_in_def)
  next
    case False
    then show ?thesis using assms(2) [of n] by (cases "names n") (auto simp: names_in_def)
  qed
qed

lemma in_other:
  assumes "\<And>j. key j \<noteq> k"
  shows "rows_in key (insert k K) table = rows_in key K table" "names_in key (insert k K) names = names_in key K names"
  using assms by (simp_all add: rows_in_def names_in_def)

text \<open>
  How far the state \<open>t\<close> has come on the way to \<open>s\<close>, when it started from the greatest ids
  \<open>mn\<close> and \<open>md\<close> and has read the rows with keys \<open>K\<close>.
\<close>

definition so_far :: "bool \<Rightarrow> 'db meta_state \<Rightarrow> int \<Rightarrow> int \<Rightarrow> bytes set \<Rightarrow> 'db meta_state \<Rightarrow> bool" where
  "so_far big s mn md K t \<longleftrightarrow>
     ms_namespace_info_map t = rows_in (construct_namespace_key big) K (ms_namespace_info_map s) \<and>
     ms_namespace_id_map t = names_in (construct_namespace_key big) K (ms_namespace_id_map s) \<and>
     ms_max_namespace_id t = (if construct_max_namespace_id_key \<in> K then ms_max_namespace_id s else mn) \<and>
     ms_database_info_map t = rows_in (construct_database_key big) K (ms_database_info_map s) \<and>
     ms_database_id_map t = names_in (construct_database_key big) K (ms_database_id_map s) \<and>
     (\<forall>n. set_at (ms_database_ids t) n = {i \<in> set_at (ms_database_ids s) n. construct_database_key big i \<in> K}) \<and>
     ms_max_database_id t = (if construct_max_database_id_key \<in> K then ms_max_database_id s else md)"

lemma load_namespace_row:
  assumes ok: "schema_ok E C s" and f: "so_far (me_big E) s mn md K t" and p: "ns_round_trip E"
    and k: "meta_of C s ([2, 2] @ r) = Some v"
  shows "\<exists>t'. load_namespace_snapshot E v t = (0, t') \<and> so_far (me_big E) s mn md (insert ([2, 2] @ r) K) t'"
proof -
  let ?key = "construct_namespace_key (me_big E)"
  have ns: "ns_ok s" and st: "mirrors (meta_of C s) [2, 2] ?key (me_ser_ns E) (ms_namespace_info_map s)"
    using ok by (simp_all add: schema_ok_def schema_stored_def)
  obtain i info where i: "ms_namespace_info_map s i = Some info" "[2, 2] @ r = ?key i"
    by (rule mirrors_key [OF st k])
  have "me_ser_ns E info = Some v" using mirrors_row [OF st i(1)] k i(2) by simp
  then have parse: "me_parse_ns E v = Some info" using p by (simp add: ns_round_trip_def)
  note d = ns_okD [OF ns i(1)]
  have inj: "ms_namespace_info_map s j = None" if "?key j = ?key i" "j \<noteq> i" for j
    using ns_key_inject [OF ns _ d(2) order_refl that(1)] that(2) by blast
  have names: "n = ni_namespace_name info" if n: "ms_namespace_id_map s n = Some j" "?key j = ?key i" for n j
  proof -
    obtain inf where inf: "ms_namespace_info_map s j = Some inf" "ni_namespace_name inf = n" by (rule ns_ok_name [OF ns n(1)])
    then have "j = i" using inj [OF n(2)] by auto
    then show ?thesis using inf i(1) by simp
  qed
  have other: "construct_database_key (me_big E) j \<noteq> ?key i" "construct_max_database_id_key \<noteq> ?key i"
    "construct_max_namespace_id_key \<noteq> ?key i" for j by (simp_all add: key_defs)
  have rows: "rows_in ?key (insert (?key i) K) (ms_namespace_info_map s) = (rows_in ?key K (ms_namespace_info_map s))(i \<mapsto> info)"
    by (rule rows_in_row) (fact i(1), rule inj)
  have nams: "names_in ?key (insert (?key i) K) (ms_namespace_id_map s) = (names_in ?key K (ms_namespace_id_map s))(ni_namespace_name info \<mapsto> i)"
    by (rule names_in_row) (fact d(4), rule names)
  have "so_far (me_big E) s mn md (insert (?key i) K) (set_namespace_info info t)"
    using f d(1) other unfolding so_far_def rows nams in_other [of "construct_database_key (me_big E)", OF other(1)]
    by (simp add: set_namespace_info_def get_or_def)
  then show ?thesis using parse i(2) by (simp add: load_namespace_snapshot_def)
qed

lemma load_database_row:
  assumes ok: "schema_ok E C s" and f: "so_far (me_big E) s mn md K t" and p: "db_round_trip E"
    and k: "meta_of C s ([2, 3] @ r) = Some v"
  shows "\<exists>t'. load_database_snapshot E v t = (0, t') \<and> so_far (me_big E) s mn md (insert ([2, 3] @ r) K) t'"
proof -
  let ?key = "construct_database_key (me_big E)" and ?full = "\<lambda>info. full_name (di_namespace_name info) (di_database info)"
  have db: "db_ok s" and st: "mirrors (meta_of C s) [2, 3] ?key (me_ser_db E) (ms_database_info_map s)"
    using ok by (simp_all add: schema_ok_def schema_stored_def)
  obtain i info where i: "ms_database_info_map s i = Some info" "[2, 3] @ r = ?key i"
    by (rule mirrors_key [OF st k])
  have "me_ser_db E info = Some v" using mirrors_row [OF st i(1)] k i(2) by simp
  then have parse: "me_parse_db E v = Some info" using p by (simp add: db_round_trip_def)
  note d = db_okD [OF db i(1)]
  obtain n where n: "di_namespace_id info = Some n" using d(3) by (auto simp: db_of_ns_def)
  have inj: "ms_database_info_map s j = None" if "?key j = ?key i" "j \<noteq> i" for j
    using db_key_inject [OF db _ d(2) order_refl that(1)] that(2) by blast
  have names: "m = ?full info" if m: "ms_database_id_map s m = Some j" "?key j = ?key i" for m j
  proof -
    obtain inf where inf: "ms_database_info_map s j = Some inf" "?full inf = m" by (rule db_ok_name [OF db m(1)])
    then have "j = i" using inj [OF m(2)] by auto
    then show ?thesis using inf i(1) by simp
  qed
  have ids: "(if m = n then insert i (set_at (ms_database_ids t) n) else set_at (ms_database_ids t) m) =
      {j \<in> set_at (ms_database_ids s) m. ?key j \<in> insert (?key i) K}" for m
  proof -
    have "set_at (ms_database_ids t) m = {j \<in> set_at (ms_database_ids s) m. ?key j \<in> K}" using f by (simp add: so_far_def)
    moreover have "j = i" if "j \<in> set_at (ms_database_ids s) m" "?key j = ?key i" for j
      using that(1) inj [OF that(2)] by (cases "j = i") (auto simp: db_ok_ids [OF db])
    moreover have "i \<in> set_at (ms_database_ids s) m \<longleftrightarrow> m = n" using i(1) n by (auto simp: db_ok_ids [OF db])
    ultimately show ?thesis by auto
  qed
  have other: "construct_namespace_key (me_big E) j \<noteq> ?key i" "construct_max_database_id_key \<noteq> ?key i"
    "construct_max_namespace_id_key \<noteq> ?key i" for j by (simp_all add: key_defs)
  have at: "set_at (m(x \<mapsto> y)) z = (if z = x then y else set_at m z)" for m :: "int \<rightharpoonup> int set" and x y z
    by (simp add: set_at_def get_or_def)
  have new_ids: "set_at (ms_database_ids (add_database_id n i (set_database_info info t))) m =
      {j \<in> set_at (ms_database_ids s) m. ?key j \<in> insert (?key i) K}" for m
    unfolding ids [symmetric] by (simp add: add_database_id_def set_database_info_def at)
  have rows: "rows_in ?key (insert (?key i) K) (ms_database_info_map s) = (rows_in ?key K (ms_database_info_map s))(i \<mapsto> info)"
    by (rule rows_in_row) (fact i(1), rule inj)
  have nams: "names_in ?key (insert (?key i) K) (ms_database_id_map s) = (names_in ?key K (ms_database_id_map s))(?full info \<mapsto> i)"
    by (rule names_in_row) (fact d(4), rule names)
  have "so_far (me_big E) s mn md (insert (?key i) K) (add_database_id n i (set_database_info info t))"
    using f d(1) other new_ids unfolding so_far_def rows nams in_other [of "construct_namespace_key (me_big E)", OF other(1)]
    by (simp add: set_database_info_def add_database_id_def get_or_def)
  then show ?thesis using parse i(2) d(1) n by (simp add: load_database_snapshot_def get_or_def)
qed

lemma load_max_row:
  assumes ok: "schema_ok E C s" and f: "so_far (me_big E) s mn md K t"
    and k: "meta_of C s ([2, 1] @ r) = Some v"
    and tables: "r \<in> {MAX_TABLE_ID_KEY, MAX_REGION_ID_KEY} \<Longrightarrow> 8 \<le> length v"
  shows "\<exists>t'. load_max_id_snapshot E (SCHEMA_IDENTIFY @ MAX_ID_SCHEMA_IDENTIFY) ([2, 1] @ r) v t = Some (0, t') \<and>
    so_far (me_big E) s mn md (insert ([2, 1] @ r) K) t'"
proof -
  have m: "0 \<le> ms_max_namespace_id s" "ms_max_namespace_id s < 2 ^ 63" "0 \<le> ms_max_database_id s" "ms_max_database_id s < 2 ^ 63"
    and st: "stored_max (me_big E) (meta_of C s) construct_max_namespace_id_key (ms_max_namespace_id s)"
      "stored_max (me_big E) (meta_of C s) construct_max_database_id_key (ms_max_database_id s)"
    using ok by (simp_all add: schema_ok_def ns_ok_def db_ok_def schema_stored_def)
  have read: "sint (mem_word (me_big E) (take 8 (mem_bytes (me_big E) 8 (word_of_int i :: 64 word))) :: 64 word) = i"
    "length (mem_bytes (me_big E) 8 (word_of_int i :: 64 word)) = 8"
    if "0 \<le> i" "i < 2 ^ 63" for i
    using that by (simp_all add: mem_bytes_inverse in_i64_def)
  have other: "construct_namespace_key (me_big E) j \<noteq> [2, 1] @ r" "construct_database_key (me_big E) j \<noteq> [2, 1] @ r" for j
    by (simp_all add: key_defs)
  have strip: "drop (length (SCHEMA_IDENTIFY @ MAX_ID_SCHEMA_IDENTIFY)) ([2, 1] @ r) = r"
    by (simp add: SCHEMA_IDENTIFY_def MAX_ID_SCHEMA_IDENTIFY_def)
  note o = in_other [of "construct_namespace_key (me_big E)", OF other(1)] in_other [of "construct_database_key (me_big E)", OF other(2)]
  consider (ns) "r = MAX_NAMESPACE_ID_KEY" | (db) "r = MAX_DATABASE_ID_KEY" "r \<noteq> MAX_NAMESPACE_ID_KEY"
    | (none) "r \<noteq> MAX_NAMESPACE_ID_KEY" "r \<noteq> MAX_DATABASE_ID_KEY" by blast
  then show ?thesis
  proof cases
    case ns
    then have key: "[2, 1] @ r = construct_max_namespace_id_key" by (simp add: key_defs)
    have "v = mem_bytes (me_big E) 8 (word_of_int (ms_max_namespace_id s) :: 64 word)"
      using st(1) k unfolding key by (simp add: stored_max_def split: if_splits)
    then have "load_max_id_snapshot E (SCHEMA_IDENTIFY @ MAX_ID_SCHEMA_IDENTIFY) ([2, 1] @ r) v t =
        Some (0, t\<lparr>ms_max_namespace_id := ms_max_namespace_id s\<rparr>)"
      using read [OF m(1, 2)] ns unfolding load_max_id_snapshot_def strip by (simp add: Let_def)
    moreover have "so_far (me_big E) s mn md (insert ([2, 1] @ r) K) (t\<lparr>ms_max_namespace_id := ms_max_namespace_id s\<rparr>)"
      using f other unfolding so_far_def o unfolding key by simp
    ultimately show ?thesis by blast
  next
    case db
    then have key: "[2, 1] @ r = construct_max_database_id_key" by (simp add: key_defs)
    have "v = mem_bytes (me_big E) 8 (word_of_int (ms_max_database_id s) :: 64 word)"
      using st(2) k unfolding key by (simp add: stored_max_def split: if_splits)
    then have "load_max_id_snapshot E (SCHEMA_IDENTIFY @ MAX_ID_SCHEMA_IDENTIFY) ([2, 1] @ r) v t =
        Some (0, t\<lparr>ms_max_database_id := ms_max_database_id s\<rparr>)"
      using read [OF m(3, 4)] db unfolding load_max_id_snapshot_def strip by (simp add: Let_def)
    moreover have "so_far (me_big E) s mn md (insert ([2, 1] @ r) K) (t\<lparr>ms_max_database_id := ms_max_database_id s\<rparr>)"
      using f other unfolding so_far_def o unfolding key by simp
    ultimately show ?thesis by blast
  next
    case none
    then have key: "construct_max_namespace_id_key \<noteq> [2, 1] @ r" "construct_max_database_id_key \<noteq> [2, 1] @ r"
      by (simp_all add: key_defs)
    then have "so_far (me_big E) s mn md (insert ([2, 1] @ r) K) t"
      using f other unfolding so_far_def o by simp
    then show ?thesis
      using none tables by (auto simp: load_max_id_snapshot_def Let_def SCHEMA_IDENTIFY_def MAX_ID_SCHEMA_IDENTIFY_def)
  qed
qed

text \<open>The greatest table and region ids, which are read but belong to other managers, are eight bytes.\<close>

definition max_values_ok :: "(bytes \<rightharpoonup> bytes) \<Rightarrow> bool" where
  "max_values_ok meta \<longleftrightarrow> (\<forall>r \<in> {MAX_TABLE_ID_KEY, MAX_REGION_ID_KEY}. \<forall>v. meta ([2, 1] @ r) = Some v \<longrightarrow> 8 \<le> length v)"

lemma starts_with_two: "starts_with (2 # k) [2, b] \<longleftrightarrow> (\<exists>r. k = b # r)"
  by (cases k) (auto simp: starts_with_def)

lemmas load_entry_defs = load_schema_entry_def SCHEMA_IDENTIFY_def REGION_SCHEMA_IDENTIFY_def TABLE_SCHEMA_IDENTIFY_def
  DATABASE_SCHEMA_IDENTIFY_def NAMESPACE_SCHEMA_IDENTIFY_def MAX_ID_SCHEMA_IDENTIFY_def STATISTICS_IDENTIFY_def
  DDLWORK_IDENTIFY_def INDEX_DDLWORK_REGION_IDENTIFY_def

lemma so_far_other:
  assumes f: "so_far big s mn md K t" and o: "others_ok others" and k: "\<forall>b \<in> {1, 2, 3}. \<forall>r. k \<noteq> b # r"
  shows "so_far big s mn md (insert (2 # k) K) t"
    "\<exists>t'. others (2 # k) v t = (0, t') \<and> so_far big s mn md (insert (2 # k) K) t'"
proof -
  have other: "construct_namespace_key big j \<noteq> 2 # k" "construct_database_key big j \<noteq> 2 # k"
    "construct_max_database_id_key \<noteq> 2 # k" "construct_max_namespace_id_key \<noteq> 2 # k" for j
    using k by (auto simp: key_defs)
  note d = in_other [of "construct_namespace_key big", OF other(1)] in_other [of "construct_database_key big", OF other(2)]
  show t: "so_far big s mn md (insert (2 # k) K) t" using f other unfolding so_far_def d by simp
  have "so_far big s mn md (insert (2 # k) K) (snd (others (2 # k) v t))"
    using t o by (simp add: so_far_def others_ok_def)
  moreover have "fst (others (2 # k) v t) = 0" using o by (simp add: others_ok_def)
  ultimately show "\<exists>t'. others (2 # k) v t = (0, t') \<and> so_far big s mn md (insert (2 # k) K) t'"
    by (intro exI [of _ "snd (others (2 # k) v t)"]) (simp add: prod_eq_iff)
qed

lemma load_entry:
  assumes ok: "schema_ok E C s" and rt: "ns_round_trip E" "db_round_trip E" and o: "others_ok others"
    and m: "max_values_ok (meta_of C s)" and k: "meta_of C s (2 # k) = Some v" and f: "so_far (me_big E) s mn md K t"
  shows "\<exists>t'. load_schema_entry E others (2 # k) v t = Some (0, t') \<and> so_far (me_big E) s mn md (insert (2 # k) K) t'"
proof -
  consider (mx) r where "k = 1 # r" | (ns) r where "k = 2 # r" | (db) r where "k = 3 # r" | (other) "\<forall>b \<in> {1, 2, 3}. \<forall>r. k \<noteq> b # r"
    by blast
  then show ?thesis
  proof cases
    case mx
    have "load_schema_entry E others (2 # k) v t = load_max_id_snapshot E (SCHEMA_IDENTIFY @ MAX_ID_SCHEMA_IDENTIFY) ([2, 1] @ r) v t"
      unfolding load_entry_defs by (simp add: starts_with_two mx)
    moreover have "\<exists>t'. load_max_id_snapshot E (SCHEMA_IDENTIFY @ MAX_ID_SCHEMA_IDENTIFY) ([2, 1] @ r) v t = Some (0, t') \<and>
      so_far (me_big E) s mn md (insert ([2, 1] @ r) K) t'"
      by (rule load_max_row [OF ok f]) (use k m mx in \<open>auto simp: max_values_ok_def\<close>)
    ultimately show ?thesis using mx by simp
  next
    case ns
    have "load_schema_entry E others (2 # k) v t = Some (load_namespace_snapshot E v t)"
      unfolding load_entry_defs by (simp add: starts_with_two ns)
    with load_namespace_row [OF ok f rt(1), of r v] k ns show ?thesis by auto
  next
    case db
    have "load_schema_entry E others (2 # k) v t = Some (load_database_snapshot E v t)"
      unfolding load_entry_defs by (simp add: starts_with_two db)
    with load_database_row [OF ok f rt(2), of r v] k db show ?thesis by auto
  next
    case other
    then have "load_schema_entry E others (2 # k) v t \<in> {Some (others (2 # k) v t), Some (0, t)}"
      unfolding load_entry_defs by (auto simp: starts_with_two)
    with so_far_other [OF f o other] show ?thesis by auto
  qed
qed

lemma load_loop:
  assumes ok: "schema_ok E C s" and rt: "ns_round_trip E" "db_round_trip E" and o: "others_ok others"
    and m: "max_values_ok (meta_of C s)"
    and "\<forall>(k, v) \<in> set kvs. meta_of C s k = Some v \<and> (\<exists>r. k = 2 # r)" and "so_far (me_big E) s mn md K t"
  shows "\<exists>t'. load_schema_loop E others kvs t = Some (0, t') \<and> so_far (me_big E) s mn md (K \<union> fst ` set kvs) t'"
  using assms(6, 7)
proof (induction kvs arbitrary: K t)
  case Nil
  then show ?case by simp
next
  case (Cons kv kvs)
  obtain r v where kv: "kv = (2 # r, v)" "meta_of C s (2 # r) = Some v" using Cons.prems(1) by auto
  obtain t1 where t1: "load_schema_entry E others (2 # r) v t = Some (0, t1)"
      "so_far (me_big E) s mn md (insert (2 # r) K) t1"
    using load_entry [OF ok rt o m kv(2) Cons.prems(2)] by blast
  from Cons.IH [OF _ t1(2)] Cons.prems(1) t1(1) show ?case by (simp add: kv(1))
qed

lemma so_far_start:
  "so_far big s (ms_max_namespace_id t) (ms_max_database_id t) {} (table_clear (database_clear (namespace_clear t)))"
  by (simp add: so_far_def table_clear_def database_clear_def namespace_clear_def rows_in_def names_in_def fun_eq_iff
      set_at_def get_or_def bind_eq_None_conv)

lemma so_far_end:
  assumes ok: "schema_ok E C s" and f: "so_far (me_big E) s mn md K t" and K: "\<And>k. meta_of C s (2 # k) \<noteq> None \<Longrightarrow> 2 # k \<in> K"
    and m: "ms_max_namespace_id s = 0 \<Longrightarrow> mn = 0" "ms_max_database_id s = 0 \<Longrightarrow> md = 0"
  shows "ms_namespace_info_map t = ms_namespace_info_map s" "ms_namespace_id_map t = ms_namespace_id_map s"
    "ms_database_info_map t = ms_database_info_map s" "ms_database_id_map t = ms_database_id_map s"
    "set_at (ms_database_ids t) = set_at (ms_database_ids s)"
    "ms_max_namespace_id t = ms_max_namespace_id s" "ms_max_database_id t = ms_max_database_id s"
proof -
  have ns: "ns_ok s" and db: "db_ok s" and st: "schema_stored E C s" using ok by (simp_all add: schema_ok_def)
  have in_K: "k \<in> K" if "meta_of C s k \<noteq> None" "\<exists>r. k = 2 # r" for k using that K by auto
  have nk: "construct_namespace_key (me_big E) i \<in> K" if "ms_namespace_info_map s i \<noteq> None" for i
    using that st by (intro in_K) (auto simp: schema_stored_def mirrors_def key_defs)
  have dk: "construct_database_key (me_big E) i \<in> K" if "ms_database_info_map s i \<noteq> None" for i
    using that st by (intro in_K) (auto simp: schema_stored_def mirrors_def key_defs)
  have ni: "ms_namespace_info_map s i \<noteq> None" if "ms_namespace_id_map s n = Some i" for n i
    using ns that unfolding ns_ok_def by blast
  have di: "ms_database_info_map s i \<noteq> None" if "ms_database_id_map s n = Some i" for n i
    using db that unfolding db_ok_def by blast
  have mk: "construct_max_namespace_id_key \<in> K" if "ms_max_namespace_id s \<noteq> 0"
    using that st by (intro in_K) (auto simp: schema_stored_def stored_max_def key_defs)
  have mdk: "construct_max_database_id_key \<in> K" if "ms_max_database_id s \<noteq> 0"
    using that st by (intro in_K) (auto simp: schema_stored_def stored_max_def key_defs)
  show "ms_namespace_info_map t = ms_namespace_info_map s" "ms_database_info_map t = ms_database_info_map s"
    using f nk dk unfolding so_far_def rows_in_def fun_eq_iff by (metis (full_types))+
  show "ms_namespace_id_map t = ms_namespace_id_map s"
  proof
    fix n show "ms_namespace_id_map t n = ms_namespace_id_map s n"
      using f nk ni by (cases "ms_namespace_id_map s n") (auto simp: so_far_def names_in_def)
  qed
  show "ms_database_id_map t = ms_database_id_map s"
  proof
    fix n show "ms_database_id_map t n = ms_database_id_map s n"
      using f dk di by (cases "ms_database_id_map s n") (auto simp: so_far_def names_in_def)
  qed
  show "set_at (ms_database_ids t) = set_at (ms_database_ids s)"
    using f dk db_ok_ids [OF db] by (auto simp: so_far_def fun_eq_iff)
  show "ms_max_namespace_id t = ms_max_namespace_id s" "ms_max_database_id t = ms_max_database_id s"
    using f mk mdk m by (cases "ms_max_namespace_id s = 0"; cases "ms_max_database_id s = 0"; simp add: so_far_def)+
qed

lemma iterate_prefix:
  assumes C: "rocks_ok (me_rocks E) C" and r: "rocks_readable (me_rocks E)"
  obtains kvs where "fst (rk_iterate (me_rocks E) db Meta_Info_Cf 1 [b]) = kvs" "distinct (map fst kvs)"
    "\<forall>(k, v) \<in> set kvs. C db Meta_Info_Cf k = Some v \<and> (\<exists>r. k = b # r)"
    "\<forall>k. C db Meta_Info_Cf (b # k) \<noteq> None \<longrightarrow> b # k \<in> fst ` set kvs"
proof -
  obtain kvs where i: "rk_iterate (me_rocks E) db Meta_Info_Cf 1 [b] = (kvs, R_ok)" using rocks_readable_iterate [OF r] by blast
  have it: "iterates (C db) Meta_Info_Cf 1 [b] kvs" by (rule rocks_iterate [OF C i])
  have mem: "(k, v) \<in> set kvs \<longleftrightarrow> C db Meta_Info_Cf k = Some v \<and> [b] \<le> k \<and> take 1 k = [b]" for k v
    using it by (simp add: iterates_def)
  have b: "[b] \<le> k \<and> take 1 k = [b] \<longleftrightarrow> (\<exists>r. k = b # r)" for k by (cases k) auto
  have all: "\<forall>(k, v) \<in> set kvs. C db Meta_Info_Cf k = Some v \<and> (\<exists>r. k = b # r)" using mem b by auto
  have keys: "b # k \<in> fst ` set kvs" if n: "C db Meta_Info_Cf (b # k) \<noteq> None" for k
  proof -
    obtain v where "C db Meta_Info_Cf (b # k) = Some v" using n by blast
    then have "(b # k, v) \<in> set kvs" using mem b [of "b # k"] by blast
    then show ?thesis by force
  qed
  have "distinct (map fst kvs)" using it by (simp add: iterates_def strict_sorted_iff)
  then show thesis by (intro that [of kvs]) (use i all keys in simp_all)
qed

lemma schema_reload:
  assumes C: "rocks_ok (me_rocks E) C" "rocks_readable (me_rocks E)" and ok: "schema_ok E C s"
    and rt: "ns_round_trip E" "db_round_trip E" "others_ok others" "max_values_ok (meta_of C s)"
    and t: "ms_db t = ms_db s" "ms_max_namespace_id s = 0 \<Longrightarrow> ms_max_namespace_id t = 0"
      "ms_max_database_id s = 0 \<Longrightarrow> ms_max_database_id t = 0"
  obtains t' where "schema_load_snapshot E others t = Some (0, t')"
    "ms_namespace_info_map t' = ms_namespace_info_map s" "ms_namespace_id_map t' = ms_namespace_id_map s"
    "ms_database_info_map t' = ms_database_info_map s" "ms_database_id_map t' = ms_database_id_map s"
    "set_at (ms_database_ids t') = set_at (ms_database_ids s)"
    "ms_max_namespace_id t' = ms_max_namespace_id s" "ms_max_database_id t' = ms_max_database_id s"
proof -
  obtain kvs where kvs: "fst (rk_iterate (me_rocks E) (ms_db s) Meta_Info_Cf 1 [2]) = kvs" "distinct (map fst kvs)"
    "\<forall>(k, v) \<in> set kvs. meta_of C s k = Some v \<and> (\<exists>r. k = 2 # r)"
    "\<forall>k. meta_of C s (2 # k) \<noteq> None \<longrightarrow> 2 # k \<in> fst ` set kvs"
    by (rule iterate_prefix [OF C, of "ms_db s" 2])
  obtain t' where t': "load_schema_loop E others kvs (table_clear (database_clear (namespace_clear t))) = Some (0, t')"
      "so_far (me_big E) s (ms_max_namespace_id t) (ms_max_database_id t) ({} \<union> fst ` set kvs) t'"
    using load_loop [OF ok rt kvs(3) so_far_start] by blast
  have "schema_load_snapshot E others t = Some (0, t')"
    using t'(1) kvs(1) t(1) by (simp add: schema_load_snapshot_def SCHEMA_IDENTIFY_def)
  moreover have "\<And>k. meta_of C s (2 # k) \<noteq> None \<Longrightarrow> 2 # k \<in> {} \<union> fst ` set kvs" using kvs(4) by simp
  note so_far_end [OF ok t'(2) this t(2, 3)]
  ultimately show thesis by (rule that)
qed

section \<open>The users\<close>

lemma load_users_ok:
  assumes us: "users_stored E C s" and rt: "user_round_trip E"
    and "\<forall>(k, v) \<in> set kvs. meta_of C s k = Some v \<and> (\<exists>u. k = 3 # u)" and "distinct (map fst kvs)"
    and "\<forall>(k, v) \<in> set kvs. ms_user_privilege t (tl k) = None" and "index_exact (ms_user_privilege t) (ms_db_user_map t)"
  shows "\<exists>t'. load_users E kvs t = (0, t') \<and> index_exact (ms_user_privilege t') (ms_db_user_map t') \<and>
    ms_user_privilege t' = (\<lambda>u. if 3 # u \<in> fst ` set kvs then ms_user_privilege s u else ms_user_privilege t u)"
  using assms(3-)
proof (induction kvs arbitrary: t)
  case Nil
  then show ?case by simp
next
  case (Cons kv kvs)
  obtain u v where kv: "kv = (3 # u, v)" "meta_of C s (3 # u) = Some v" using Cons.prems(1) by auto
  have "Option.bind (ms_user_privilege s u) (me_ser_user E) = Some v"
    using us kv(2) by (simp add: users_stored_def key_defs)
  then obtain p where p: "ms_user_privilege s u = Some p" "me_ser_user E p = Some v" by (auto simp: bind_eq_Some_conv)
  have parse: "me_parse_user E v = Some p" using rt p(2) by (simp add: user_round_trip_def)
  let ?t = "insert_db_tbl_user_map p (t\<lparr>ms_user_privilege := (ms_user_privilege t)(u \<mapsto> p)\<rparr>)"
  have users: "ms_user_privilege ?t = (ms_user_privilege t)(u \<mapsto> p)" by (simp add: insert_db_tbl_user_map_def)
  have fresh: "ms_user_privilege t u = None" using Cons.prems(3) kv(1) by simp
  have "index_exact ((ms_user_privilege t)(u \<mapsto> p)) (fold (\<lambda>q. index_insert u (pd_id q)) (up_privilege_database p) (ms_db_user_map t))"
    by (rule index_exact_insert) (use Cons.prems(4) fresh in simp_all)
  then have ix: "index_exact (ms_user_privilege ?t) (ms_db_user_map ?t)"
    using users_storedD(1) [OF us p(1)] by (simp add: insert_db_tbl_user_map_def)
  have "\<forall>(k, v) \<in> set kvs. ms_user_privilege ?t (tl k) = None"
    using Cons.prems kv(1) by (force simp: users)
  then obtain t' where t': "load_users E kvs ?t = (0, t')" "index_exact (ms_user_privilege t') (ms_db_user_map t')"
      "ms_user_privilege t' = (\<lambda>w. if 3 # w \<in> fst ` set kvs then ms_user_privilege s w else ms_user_privilege ?t w)"
    using Cons.IH [of ?t] Cons.prems(1, 2) ix by auto
  have "load_users E (kv # kvs) t = (0, t')" using t'(1) parse by (simp add: kv(1) PRIVILEGE_IDENTIFY_def)
  moreover have "ms_user_privilege t' = (\<lambda>w. if 3 # w \<in> fst ` set (kv # kvs) then ms_user_privilege s w else ms_user_privilege t w)"
    unfolding t'(3) users using p(1) by (auto simp: kv(1) fun_eq_iff)
  ultimately show ?case using t'(2) by blast
qed

lemma users_reload:
  assumes C: "rocks_ok (me_rocks E) C" "rocks_readable (me_rocks E)" and us: "users_stored E C s" and rt: "user_round_trip E"
    and t: "ms_db t = ms_db s"
  obtains t' where "privilege_load_snapshot E t = (0, t')" "ms_user_privilege t' = ms_user_privilege s"
    "index_exact (ms_user_privilege t') (ms_db_user_map t')"
proof -
  let ?t = "t\<lparr>ms_user_privilege := Map.empty, ms_db_user_map := Map.empty, ms_tbl_user_map := Map.empty\<rparr>"
  obtain kvs where kvs: "fst (rk_iterate (me_rocks E) (ms_db s) Meta_Info_Cf 1 [3]) = kvs" "distinct (map fst kvs)"
    "\<forall>(k, v) \<in> set kvs. meta_of C s k = Some v \<and> (\<exists>r. k = 3 # r)"
    "\<forall>k. meta_of C s (3 # k) \<noteq> None \<longrightarrow> 3 # k \<in> fst ` set kvs"
    by (rule iterate_prefix [OF C, of "ms_db s" 3])
  have "index_exact (ms_user_privilege ?t) (ms_db_user_map ?t)" by (simp add: index_exact_def set_at_def get_or_def)
  then obtain t' where t': "load_users E kvs ?t = (0, t')" "index_exact (ms_user_privilege t') (ms_db_user_map t')"
      "ms_user_privilege t' = (\<lambda>u. if 3 # u \<in> fst ` set kvs then ms_user_privilege s u else ms_user_privilege ?t u)"
    using load_users_ok [OF us rt kvs(3, 2), of ?t] by auto
  have "privilege_load_snapshot E t = (0, t')"
    using t'(1) kvs(1) t by (simp add: privilege_load_snapshot_def PRIVILEGE_IDENTIFY_def)
  moreover have "ms_user_privilege t' u = ms_user_privilege s u" for u
  proof (cases "ms_user_privilege s u")
    case (Some p)
    then have "meta_of C s (3 # u) \<noteq> None" using us by (auto simp: users_stored_def key_defs)
    then have "3 # u \<in> fst ` set kvs" using kvs(4) by blast
    then show ?thesis by (simp add: t'(3))
  qed (simp add: t'(3))
  ultimately show thesis using that t'(2) by blast
qed

end
