(* ===== verification/MetaProperties.thy ===== *)
theory MetaProperties
  imports MetaRun MetaReload
begin

text \<open>
  The properties of the meta server's schema and privileges, with witnesses on a store in
  memory and a simple serialisation.
\<close>

section \<open>Dropping a database takes the privileges on it away\<close>

definition users_serialise :: "'db meta_env \<Rightarrow> bool" where
  "users_serialise E \<longleftrightarrow> (\<forall>p. me_ser_user E p \<noteq> None)"






section \<open>An instance\<close>

text \<open>Rows as a few bytes; what they do not hold is not serialised.\<close>

definition wit_parse_ns :: "bytes \<Rightarrow> namespace_info option" where
  "wit_parse_ns v = (case v of i # ver # name \<Rightarrow>
       Some (no_namespace_info\<lparr>ni_namespace_name := name, ni_namespace_id := Some (uint i), ni_version := Some (uint ver)\<rparr>)
     | _ \<Rightarrow> None)"

definition wit_ser_ns :: "namespace_info \<Rightarrow> bytes option" where
  "wit_ser_ns info =
     (let v = word_of_int (get_or 0 (ni_namespace_id info)) # word_of_int (get_or 0 (ni_version info)) # ni_namespace_name info
      in if wit_parse_ns v = Some info then Some v else None)"

definition wit_parse_db :: "bytes \<Rightarrow> database_info option" where
  "wit_parse_db v = (case v of i # n # ver # c # name \<Rightarrow>
       Some (no_database_info\<lparr>di_namespace_name := [c], di_database := name, di_database_id := Some (uint i),
         di_namespace_id := Some (uint n), di_version := Some (uint ver)\<rparr>)
     | _ \<Rightarrow> None)"

definition wit_ser_db :: "database_info \<Rightarrow> bytes option" where
  "wit_ser_db info =
     (let v = word_of_int (get_or 0 (di_database_id info)) # word_of_int (get_or 0 (di_namespace_id info)) #
            word_of_int (get_or 0 (di_version info)) # di_namespace_name info @ di_database info
      in if wit_parse_db v = Some info then Some v else None)"

definition wit_database :: "bytes \<Rightarrow> int option \<Rightarrow> privilege_database" where
  "wit_database name i = \<lparr>pd_database = name, pd_database_id = i, pd_database_rw = None, pd_force = None, pd_acl = None\<rparr>"

fun wit_pairs :: "bytes \<Rightarrow> privilege_database list" where
  "wit_pairs (c # i # v) = wit_database [c] (Some (uint i)) # wit_pairs v"
| "wit_pairs _ = []"

definition wit_parse_user :: "bytes \<Rightarrow> user_privilege option" where
  "wit_parse_user v = (case v of u # n # ver # rest \<Rightarrow>
       Some (no_user_privilege\<lparr>up_username := [u], up_namespace_name := [97], up_namespace_id := Some (uint n),
         up_version := Some (uint ver), up_privilege_database := wit_pairs rest\<rparr>)
     | _ \<Rightarrow> None)"

definition wit_ser_user :: "user_privilege \<Rightarrow> bytes option" where
  "wit_ser_user p =
     (let v = up_username p @ word_of_int (get_or 0 (up_namespace_id p)) # word_of_int (get_or 0 (up_version p)) #
            concat (map (\<lambda>q. pd_database q @ [word_of_int (get_or 0 (pd_database_id q))]) (up_privilege_database p))
      in if wit_parse_user v = Some p then Some v else None)"

definition wit_env :: "mem_db meta_env" where
  "wit_env = \<lparr>me_rocks = mem_rocks, me_big = False, me_ser_ns = wit_ser_ns, me_parse_ns = wit_parse_ns,
     me_ser_db = wit_ser_db, me_parse_db = wit_parse_db, me_ser_user = wit_ser_user, me_parse_user = wit_parse_user,
     me_visit = sorted_list_of_set\<rparr>"

lemma wit_env_ok:
  "rocks_ok (me_rocks wit_env) mem_contents" "rocks_up (me_rocks wit_env)" "visits wit_env"
  "ns_round_trip wit_env" "db_round_trip wit_env" "user_round_trip wit_env"
  by (auto simp: wit_env_def mem_rocks_ok mem_rocks_up visits_def ns_round_trip_def db_round_trip_def user_round_trip_def
      wit_ser_ns_def wit_ser_db_def wit_ser_user_def Let_def split: if_splits)

definition wit_request :: meta_request where
  "wit_request = \<lparr>mr_namespace_info = no_namespace_info\<lparr>ni_namespace_name := [97]\<rparr>,
     mr_database_info = no_database_info\<lparr>di_namespace_name := [97], di_database := [98]\<rparr>,
     mr_user_privilege = Some (no_user_privilege\<lparr>up_username := [117], up_namespace_name := [97],
       up_privilege_database := [wit_database [98] None]\<rparr>),
     mr_is_force_setting = False\<rparr>"

definition wit_requests :: "(meta_op \<times> meta_request) list" where
  "wit_requests = [(Create_Namespace, wit_request),
     (Create_Database, wit_request\<lparr>mr_user_privilege := None\<rparr>), (Create_User, wit_request)]"

definition wit_state_of :: "mem_db meta_env \<Rightarrow> mem_db meta_state" where
  "wit_state_of E = snd (create_user E wit_request (snd (create_database E (wit_request\<lparr>mr_user_privilege := None\<rparr>)
     (snd (create_namespace E wit_request (meta_start []))))))"

lemma wit_steps_of:
  assumes "fits_all E wit_requests (meta_start [])"
  shows "meta_steps E (meta_start []) wit_requests (wit_state_of E)"
  using meta_steps_run [OF assms] by (simp add: wit_state_of_def wit_requests_def)

abbreviation wit_state :: "mem_db meta_state" where
  "wit_state \<equiv> wit_state_of wit_env"

lemma wit_steps: "meta_steps wit_env (meta_start []) wit_requests wit_state"
  by (rule wit_steps_of, unfold wit_requests_def fits_all.simps meta_apply.simps fits.simps) code_simp

text \<open>The same with a serialiser of users that never fails.\<close>

definition wit_total :: "mem_db meta_env" where
  "wit_total = wit_env\<lparr>me_ser_user := (\<lambda>p. Some (up_username p))\<rparr>"

lemma wit_total_ok:
  "rocks_ok (me_rocks wit_total) mem_contents" "rocks_up (me_rocks wit_total)" "visits wit_total" "users_serialise wit_total"
  using wit_env_ok by (simp_all add: wit_total_def visits_def users_serialise_def)

lemma wit_total_steps: "meta_steps wit_total (meta_start []) wit_requests (wit_state_of wit_total)"
  by (rule wit_steps_of, unfold wit_requests_def fits_all.simps meta_apply.simps fits.simps) code_simp

section \<open>The properties\<close>

lemma meta_reachable_ok:
  assumes "rocks_ok (me_rocks E) C" and "visits E" and "C db Meta_Info_Cf = Map.empty"
    and "meta_steps E (meta_start db) rs t"
  shows "schema_ok E C t" "users_stored E C t"
    "list_all (\<lambda>(op, request). plain_request op request) rs \<Longrightarrow> db_index_ok t"
  using meta_steps_ok [OF assms(4, 1, 2)] meta_start_ok [where C = C and db = db, OF assms(3)] by simp_all

lemma wit_total_state:
  "schema_ok wit_total mem_contents (wit_state_of wit_total)" "users_stored wit_total mem_contents (wit_state_of wit_total)"
  "db_index_ok (wit_state_of wit_total)"
proof -
  have "mem_contents [] Meta_Info_Cf = Map.empty" by (simp add: mem_contents_def fun_eq_iff)
  note r = meta_reachable_ok [OF wit_total_ok(1, 3) this wit_total_steps]
  have "list_all (\<lambda>(op, request). plain_request op request) wit_requests" by code_simp
  with r show "schema_ok wit_total mem_contents (wit_state_of wit_total)"
    "users_stored wit_total mem_contents (wit_state_of wit_total)" "db_index_ok (wit_state_of wit_total)"
    by simp_all
qed

text \<open>(C20) Whatever requests are applied, also those whose writes fail, the meta server's store holds
  exactly what it has in memory: the rows of its namespaces, databases and users, and the
  greatest ids it gave out.\<close>

theorem meta_store_mirrors_memory:
  assumes "rocks_ok (me_rocks E) C" and "visits E" and "C db Meta_Info_Cf = Map.empty"
    and "meta_steps E (meta_start db) rs t"
  shows "schema_stored E C t \<and> users_stored E C t"
  using meta_reachable_ok [OF assms] by (simp add: schema_ok_def)

theorem meta_store_mirrors_memory_witness:
  "schema_stored wit_env mem_contents wit_state \<and> users_stored wit_env mem_contents wit_state \<and>
   ms_user_privilege wit_state [117] \<noteq> None"
proof -
  have "ms_user_privilege wit_state [117] \<noteq> None" by code_simp
  moreover have "mem_contents [] Meta_Info_Cf = Map.empty" by (simp add: mem_contents_def fun_eq_iff)
  ultimately show ?thesis using meta_store_mirrors_memory [OF wit_env_ok(1, 3) _ wit_steps] by simp
qed

text \<open>(C22) Names and ids determine each other, ids are never reused and stay positive, and every database
  belongs to a namespace that exists and lists it.\<close>

theorem meta_schema_consistent:
  assumes "rocks_ok (me_rocks E) C" and "visits E" and "C db Meta_Info_Cf = Map.empty"
    and "meta_steps E (meta_start db) rs t"
  shows "ns_ok t \<and> db_ok t"
  using meta_reachable_ok [OF assms] by (simp add: schema_ok_def)

theorem meta_schema_consistent_witness:
  "ns_ok wit_state \<and> db_ok wit_state \<and> ms_database_id_map wit_state (full_name [97] [98]) = Some 1"
proof -
  have "ms_database_id_map wit_state (full_name [97] [98]) = Some 1" by code_simp
  moreover have "mem_contents [] Meta_Info_Cf = Map.empty" by (simp add: mem_contents_def fun_eq_iff)
  ultimately show ?thesis using meta_schema_consistent [OF wit_env_ok(1, 3) _ wit_steps] by simp
qed



text \<open>(C21) A fresh meta server that loads the store of one that has applied any requests ends up with the
  same namespaces, databases, greatest ids and users in memory, and with an exact index of privileges.\<close>

theorem meta_reload:
  assumes "rocks_ok (me_rocks E) C" and "rocks_readable (me_rocks E)" and "visits E" and "C db Meta_Info_Cf = Map.empty"
    and "meta_steps E (meta_start db) rs t"
    and "ns_round_trip E" and "db_round_trip E" and "user_round_trip E" and "others_ok others"
    and "max_values_ok (C (ms_db t) Meta_Info_Cf)"
  shows "\<exists>t' t''. schema_load_snapshot E others (meta_start (ms_db t)) = Some (0, t') \<and>
    ms_namespace_info_map t' = ms_namespace_info_map t \<and> ms_namespace_id_map t' = ms_namespace_id_map t \<and>
    ms_database_info_map t' = ms_database_info_map t \<and> ms_database_id_map t' = ms_database_id_map t \<and>
    set_at (ms_database_ids t') = set_at (ms_database_ids t) \<and>
    ms_max_namespace_id t' = ms_max_namespace_id t \<and> ms_max_database_id t' = ms_max_database_id t \<and>
    privilege_load_snapshot E (meta_start (ms_db t)) = (0, t'') \<and> ms_user_privilege t'' = ms_user_privilege t \<and>
    index_exact (ms_user_privilege t'') (ms_db_user_map t'')"
proof -
  note r = meta_reachable_ok [OF assms(1, 3-5)]
  obtain t' where "schema_load_snapshot E others (meta_start (ms_db t)) = Some (0, t')"
    "ms_namespace_info_map t' = ms_namespace_info_map t" "ms_namespace_id_map t' = ms_namespace_id_map t"
    "ms_database_info_map t' = ms_database_info_map t" "ms_database_id_map t' = ms_database_id_map t"
    "set_at (ms_database_ids t') = set_at (ms_database_ids t)"
    "ms_max_namespace_id t' = ms_max_namespace_id t" "ms_max_database_id t' = ms_max_database_id t"
    by (rule schema_reload [OF assms(1, 2) r(1) assms(6, 7, 9, 10), where t = "meta_start (ms_db t)"])
       (simp_all add: meta_start_def)
  moreover obtain t'' where "privilege_load_snapshot E (meta_start (ms_db t)) = (0, t'')"
    "ms_user_privilege t'' = ms_user_privilege t" "index_exact (ms_user_privilege t'') (ms_db_user_map t'')"
    by (rule users_reload [OF assms(1, 2) r(2) assms(8), where t = "meta_start (ms_db t)"]) (simp_all add: meta_start_def)
  ultimately show ?thesis by blast
qed

theorem meta_reload_witness:
  "\<exists>t' t''. schema_load_snapshot wit_env (\<lambda>k v s. (0, s)) (meta_start (ms_db wit_state)) = Some (0, t') \<and>
    ms_namespace_info_map t' = ms_namespace_info_map wit_state \<and> ms_namespace_id_map t' = ms_namespace_id_map wit_state \<and>
    ms_database_info_map t' = ms_database_info_map wit_state \<and> ms_database_id_map t' = ms_database_id_map wit_state \<and>
    set_at (ms_database_ids t') = set_at (ms_database_ids wit_state) \<and>
    ms_max_namespace_id t' = ms_max_namespace_id wit_state \<and> ms_max_database_id t' = ms_max_database_id wit_state \<and>
    privilege_load_snapshot wit_env (meta_start (ms_db wit_state)) = (0, t'') \<and>
    ms_user_privilege t'' = ms_user_privilege wit_state \<and> index_exact (ms_user_privilege t'') (ms_db_user_map t'')"
proof -
  have "mem_contents [] Meta_Info_Cf = Map.empty" by (simp add: mem_contents_def fun_eq_iff)
  moreover have "mem_contents (ms_db wit_state) Meta_Info_Cf ([2, 1] @ MAX_TABLE_ID_KEY) = None"
    "mem_contents (ms_db wit_state) Meta_Info_Cf ([2, 1] @ MAX_REGION_ID_KEY) = None"
    by code_simp+
  then have "max_values_ok (mem_contents (ms_db wit_state) Meta_Info_Cf)" by (simp add: max_values_ok_def)
  ultimately show ?thesis
    by (intro meta_reload [OF wit_env_ok(1) rocks_up_readable [OF wit_env_ok(2)] wit_env_ok(3) _ wit_steps wit_env_ok(4-6)])
       (simp_all add: others_ok_def)
qed



text \<open>After the privileges on what no longer exists are cleaned up, every user has exactly the
  privileges on existing databases and tables it had, in their order; a user with nothing to
  remove is not touched. The compaction loops end.\<close>

theorem drop_invalid_privilege_keeps_valid:
  assumes "rocks_ok (me_rocks E) C" and "visits E" and "users_stored E C s"
    and "drop_invalid_privilege E s = (SUCCESS, s')"
  shows "ms_user_privilege s' = map_option (only_valid s) \<circ> ms_user_privilege s \<and> users_stored E C s' \<and>
    (db_index_ok s \<longrightarrow> db_index_ok s')"
  using drop_invalid_privilege_ok [OF assms] by simp

definition wit_user :: user_privilege where
  "wit_user = no_user_privilege\<lparr>up_username := [117], up_privilege_database := [wit_database [98] (Some 7)]\<rparr>"

definition wit_stale :: "mem_db meta_state" where
  "wit_stale = (meta_start [((Meta_Info_Cf, [3, 117]), [117])])\<lparr>ms_user_privilege := [[117] \<mapsto> wit_user]\<rparr>"

theorem drop_invalid_privilege_keeps_valid_witness:
  "ms_user_privilege (snd (drop_invalid_privilege wit_total wit_stale)) = map_option (only_valid wit_stale) \<circ> ms_user_privilege wit_stale \<and>
   users_stored wit_total mem_contents (snd (drop_invalid_privilege wit_total wit_stale)) \<and>
   map_option up_privilege_database (ms_user_privilege (snd (drop_invalid_privilege wit_total wit_stale)) [117]) = Some []"
proof -
  have us: "users_stored wit_total mem_contents wit_stale"
    by (auto simp: users_stored_def wit_stale_def meta_start_def mem_contents_def wit_total_def key_defs wit_user_def no_user_privilege_def)
  have "drop_invalid_privilege wit_total wit_stale = drop_invalid_loop wit_total [([117], wit_user)] wit_stale"
    by (simp add: drop_invalid_privilege_def wit_stale_def wit_total_def wit_env_def)
  moreover have "fst (drop_invalid_loop wit_total [([117], wit_user)] wit_stale) = SUCCESS" by code_simp
  ultimately have "drop_invalid_privilege wit_total wit_stale = (SUCCESS, snd (drop_invalid_privilege wit_total wit_stale))"
    by (simp only: prod_eq_iff fst_conv snd_conv)
  from drop_invalid_privilege_keeps_valid [OF wit_total_ok(1, 3) us this] show ?thesis
    by (simp add: wit_stale_def meta_start_def only_valid_def wit_user_def no_user_privilege_def db_valid_def)
qed

text \<open>(C35) Revoking bits of the access control list of a database takes the user out of the index of that
  database although it keeps its privilege.\<close>

theorem acl_revoke_breaks_index:
  assumes "rocks_ok (me_rocks E) C" and "db_index_ok s" and "ms_user_privilege s (up_username (req_user request)) = Some p"
    and "up_privilege_database (req_user request) = [q]" and "pd_acl q = Some a" and "pd_database_rw q = None"
    and "get_database_id (full_name (up_namespace_name (req_user request)) (pd_database q)) s = i" and "i \<in> db_ids p"
    and "drop_privilege E request s = (SUCCESS, s')"
  shows "(\<exists>p'. ms_user_privilege s' (up_username (req_user request)) = Some p' \<and> i \<in> db_ids p') \<and>
    up_username (req_user request) \<notin> set_at (ms_db_user_map s') i"
  using assms(9)
proof (cases rule: drop_privilege_cases)
  case (revoked p1 c mem del)
  let ?u = "up_username (req_user request)"
  have p1: "p1 = p" using revoked(1) assms(3) by simp
  define q' where "q' = q\<lparr>pd_database_id := Some i\<rparr>"
  have c: "up_username c = ?u" "up_privilege_database c = [q']"
    using check_names(1) [OF revoked(2)] revoked(2) assms(4, 7)
    by (auto simp: check_and_get_for_privilege_def q'_def Let_def split: if_splits option.splits)
  have q': "pd_acl q' = Some a" "pd_id q' = i" "pd_database_rw q' = None" using assms(5, 6) by (simp_all add: q'_def get_or_def)
  obtain m1 d1 where one: "fold delete_database_privilege (up_privilege_database c)
      (p, no_user_privilege\<lparr>up_username := up_username c\<rparr>) = (m1, d1)"
    and eq: "up_privilege_database mem = up_privilege_database m1" "up_privilege_database del = up_privilege_database d1"
      "up_username del = up_username d1"
    by (rule revoked_parts [OF revoked(3) [unfolded p1]])
  obtain m where m: "m \<in> set (up_privilege_database p)" "pd_id m = i" using assms(8) by auto
  have turn: "revoke_database q' m = ([m\<lparr>pd_acl := Some (get_or 0 (pd_acl m) AND NOT a)\<rparr>], [q'])"
    using q' by (simp add: revoke_database_def)
  have one': "delete_database_privilege q' (p, no_user_privilege\<lparr>up_username := up_username c\<rparr>) = (m1, d1)"
    using one by (simp add: c(2))
  have "m\<lparr>pd_acl := Some (get_or 0 (pd_acl m) AND NOT a)\<rparr> \<in> set (up_privilege_database mem)" "q' \<in> set (up_privilege_database del)"
    using one' m q'(2) turn unfolding eq by (auto simp: delete_database_privilege_def Let_def intro!: bexI [of _ m])
  from imageI [OF this(1), where f = pd_id] imageI [OF this(2), where f = pd_id] have ids: "i \<in> db_ids mem" "i \<in> db_ids del"
    using m(2) q'(2) by simp_all
  have name: "up_username del = ?u" using revoked_names(2) [OF revoked(3)] c(1) by simp
  from assms(1) revoked(4) show ?thesis
  proof (cases rule: store_user_cases)
    case (stored v db')
    then show ?thesis
      using ids name by (auto simp: delete_db_tbl_user_map_def fold_erase_index(1))
  qed simp
qed simp

definition wit_acl_request :: meta_request where
  "wit_acl_request = wit_request\<lparr>mr_user_privilege := Some (no_user_privilege\<lparr>up_username := [117], up_namespace_name := [97],
       up_privilege_database := [(wit_database [98] None)\<lparr>pd_acl := Some 1\<rparr>]\<rparr>)\<rparr>"

theorem acl_revoke_breaks_index_witness:
  "(\<exists>p'. ms_user_privilege (snd (drop_privilege wit_total wit_acl_request (wit_state_of wit_total))) [117] = Some p' \<and> 1 \<in> db_ids p') \<and>
   [117] \<notin> set_at (ms_db_user_map (snd (drop_privilege wit_total wit_acl_request (wit_state_of wit_total)))) 1"
proof -
  let ?s = "wit_state_of wit_total" and ?p = "no_user_privilege\<lparr>up_username := [117], up_namespace_name := [97],
    up_namespace_id := Some 1, up_version := Some 1, up_privilege_database := [wit_database [98] (Some 1)]\<rparr>"
  have req: "req_user wit_acl_request = no_user_privilege\<lparr>up_username := [117], up_namespace_name := [97],
       up_privilege_database := [(wit_database [98] None)\<lparr>pd_acl := Some 1\<rparr>]\<rparr>"
    by (simp add: req_user_def wit_acl_request_def get_or_def)
  have p: "ms_user_privilege ?s (up_username (req_user wit_acl_request)) = Some ?p" by code_simp
  have i: "get_database_id (full_name (up_namespace_name (req_user wit_acl_request)) (pd_database (wit_database [98] None\<lparr>pd_acl := Some 1\<rparr>))) ?s = 1"
    by code_simp
  have "fst (drop_privilege wit_total wit_acl_request ?s) = SUCCESS" by code_simp
  then have r: "drop_privilege wit_total wit_acl_request ?s = (SUCCESS, snd (drop_privilege wit_total wit_acl_request ?s))"
    by (simp only: prod_eq_iff fst_conv snd_conv)
  have "1 \<in> db_ids ?p" by (simp add: wit_database_def get_or_def)
  from acl_revoke_breaks_index [OF wit_total_ok(1) wit_total_state(3) p _ _ _ i this r, where a = 1]
  show ?thesis by (simp add: req wit_database_def)
qed

end
