(* ===== verification/AutoIncr.thy ===== *)
theory AutoIncr
  imports MetaCommon
begin

text \<open>
  The ids of auto-increment columns, \<^verbatim>\<open>AutoIncrStateMachine\<close> in
  \<^verbatim>\<open>src/meta_server/auto_incr_state_machine.cpp\<close>: for each table the next free id, an unsigned
  64-bit number whose additions wrap around. The JSON library and the conversion of strings to
  numbers of a snapshot are parameters.
\<close>

section \<open>State and requests\<close>

type_synonym auto_increment_map = "int \<rightharpoonup> 64 word"

datatype incr_op = OP_ADD_ID_FOR_AUTO_INCREMENT | OP_DROP_ID_FOR_AUTO_INCREMENT | OP_GEN_ID_FOR_AUTO_INCREMENT
  | OP_UPDATE_FOR_AUTO_INCREMENT | OP_INCR_OTHER

record auto_increment_request =
  ai_op_type :: incr_op
  ai_table_id :: int
  ai_count :: "64 word option"
  ai_start_id :: "64 word option"
  ai_increment_id :: "64 word option"
  ai_force :: "bool option"

record auto_increment_response =
  ar_errcode :: errcode
  ar_start_id :: "64 word option"
  ar_end_id :: "64 word option"

definition incr_error :: "errcode \<Rightarrow> auto_increment_response" where
  "incr_error e = \<lparr>ar_errcode = e, ar_start_id = None, ar_end_id = None\<rparr>"

section \<open>The handlers\<close>

definition add_table_id ::
  "auto_increment_request \<Rightarrow> auto_increment_map \<Rightarrow> auto_increment_response \<times> auto_increment_map" where
  "add_table_id request m =
     (let table_id = ai_table_id request; start_id = get_or 0 (ai_start_id request) in
      if m table_id \<noteq> None then (incr_error INPUT_PARAM_ERROR, m)
      else (\<lparr>ar_errcode = SUCCESS, ar_start_id = Some start_id, ar_end_id = None\<rparr>, m(table_id \<mapsto> start_id)))"

definition drop_table_id ::
  "auto_increment_request \<Rightarrow> auto_increment_map \<Rightarrow> auto_increment_response \<times> auto_increment_map" where
  "drop_table_id request m =
     (let table_id = ai_table_id request in
      if m table_id = None then (incr_error INPUT_PARAM_ERROR, m)
      else (incr_error SUCCESS, m(table_id := None)))"

definition gen_id ::
  "auto_increment_request \<Rightarrow> auto_increment_map \<Rightarrow> auto_increment_response \<times> auto_increment_map" where
  "gen_id request m =
     (let table_id = ai_table_id request in
      case m table_id of
        None \<Rightarrow> (incr_error INPUT_PARAM_ERROR, m)
      | Some old \<Rightarrow>
          let old_start_id = (case ai_start_id request of
                None \<Rightarrow> old
              | Some start_id \<Rightarrow> if old < start_id + 1 then start_id + 1 else old);
              end_id = old_start_id + get_or 0 (ai_count request)
          in (\<lparr>ar_errcode = SUCCESS, ar_start_id = Some old_start_id, ar_end_id = Some end_id\<rparr>, m(table_id \<mapsto> end_id)))"

definition update_id ::
  "auto_increment_request \<Rightarrow> auto_increment_map \<Rightarrow> auto_increment_response \<times> auto_increment_map" where
  "update_id request m =
     (let table_id = ai_table_id request in
      case m table_id of
        None \<Rightarrow> (incr_error INPUT_PARAM_ERROR, m)
      | Some old_start_id \<Rightarrow>
          (case (ai_start_id request, ai_increment_id request) of
             (None, None) \<Rightarrow> (incr_error INPUT_PARAM_ERROR, m)
           | (Some _, Some _) \<Rightarrow> (incr_error INPUT_PARAM_ERROR, m)
           | (Some start_id, None) \<Rightarrow>
               if old_start_id > start_id + 1 \<and> \<not> get_or False (ai_force request) then (incr_error INPUT_PARAM_ERROR, m)
               else (\<lparr>ar_errcode = SUCCESS, ar_start_id = Some (start_id + 1), ar_end_id = None\<rparr>,
                     m(table_id \<mapsto> start_id + 1))
           | (None, Some increment_id) \<Rightarrow>
               (\<lparr>ar_errcode = SUCCESS, ar_start_id = Some (old_start_id + increment_id), ar_end_id = None\<rparr>,
                m(table_id \<mapsto> old_start_id + increment_id))))"

text \<open>One entry of the raft log: \<^term>\<open>None\<close> is one that does not parse.\<close>

definition incr_apply_one ::
  "auto_increment_request option \<Rightarrow> auto_increment_map \<Rightarrow> auto_increment_response \<times> auto_increment_map" where
  "incr_apply_one entry m =
     (case entry of
        None \<Rightarrow> (incr_error PARSE_FROM_PB_FAIL, m)
      | Some request \<Rightarrow>
          (case ai_op_type request of
             OP_ADD_ID_FOR_AUTO_INCREMENT \<Rightarrow> add_table_id request m
           | OP_DROP_ID_FOR_AUTO_INCREMENT \<Rightarrow> drop_table_id request m
           | OP_GEN_ID_FOR_AUTO_INCREMENT \<Rightarrow> gen_id request m
           | OP_UPDATE_FOR_AUTO_INCREMENT \<Rightarrow> update_id request m
           | OP_INCR_OTHER \<Rightarrow> (incr_error UNSUPPORT_REQ_TYPE, m)))"

fun incr_apply ::
  "auto_increment_request option list \<Rightarrow> auto_increment_map \<Rightarrow> auto_increment_response list \<times> auto_increment_map" where
  "incr_apply [] m = ([], m)"
| "incr_apply (entry # entries) m =
     (case incr_apply_one entry m of (r, m') \<Rightarrow>
        case incr_apply entries m' of (rs, m'') \<Rightarrow> (r # rs, m''))"

section \<open>Snapshots\<close>

text \<open>\<^verbatim>\<open>std::to_string\<close> of a signed number.\<close>

fun digits :: "nat \<Rightarrow> string" where
  "digits n = (if n < 10 then [char_of (48 + n)] else digits (n div 10) @ [char_of (48 + n mod 10)])"

definition to_string :: "int \<Rightarrow> string" where
  "to_string i = (if i < 0 then CHR ''-'' # digits (nat (- i)) else digits (nat i))"

text \<open>\<open>ids\<close> is the order in which the map is visited, \<open>write\<close> the JSON writer on the members of an object.\<close>

definition save_auto_increment :: "((string \<times> 64 word) list \<Rightarrow> 'json) \<Rightarrow> int list \<Rightarrow> auto_increment_map \<Rightarrow> 'json" where
  "save_auto_increment write ids m = write (map (\<lambda>table_id. (to_string table_id, the (m table_id))) ids)"

text \<open>
  \<open>parse\<close> is the JSON parser and \<open>lexical_cast\<close> the conversion of a member's name, which throws if
  the name is no number: \<^term>\<open>None\<close> is the exception leaving the function.
\<close>

fun load_members ::
  "(string \<Rightarrow> int option) \<Rightarrow> (string \<times> 64 word) list \<Rightarrow> auto_increment_map \<Rightarrow> auto_increment_map option" where
  "load_members lexical_cast [] m = Some m"
| "load_members lexical_cast ((name, max_id) # members) m =
     (case lexical_cast name of
        None \<Rightarrow> None
      | Some table_id \<Rightarrow> load_members lexical_cast members (m(table_id \<mapsto> max_id)))"

definition parse_json_string ::
  "('json \<Rightarrow> (string \<times> 64 word) list option) \<Rightarrow> (string \<Rightarrow> int option) \<Rightarrow> 'json \<Rightarrow> auto_increment_map \<Rightarrow>
   (int \<times> auto_increment_map) option" where
  "parse_json_string parse lexical_cast json m =
     (case parse json of
        None \<Rightarrow> Some (-1, m)
      | Some members \<Rightarrow> map_option (\<lambda>m'. (0, m')) (load_members lexical_cast members m))"

definition load_auto_increment ::
  "('json \<Rightarrow> (string \<times> 64 word) list option) \<Rightarrow> (string \<Rightarrow> int option) \<Rightarrow> 'json \<Rightarrow> auto_increment_map \<Rightarrow>
   (int \<times> auto_increment_map) option" where
  "load_auto_increment parse lexical_cast json m = parse_json_string parse lexical_cast json Map.empty"

end
