(* ===== verification/AutoIncrProperties.thy ===== *)
theory AutoIncrProperties
  imports AutoIncr
begin

text \<open>
  Ids of one table are handed out in ranges that never overlap, unless the table is dropped,
  the counter is set back by force, or an addition exceeds 64 bits; the last of these is
  shown to repeat ids. A snapshot restores the counters.
\<close>

section \<open>Counters never go back\<close>

text \<open>An entry that neither drops the counter of table \<open>t\<close>, nor sets it back by force, nor overflows it.\<close>

definition calm :: "int \<Rightarrow> auto_increment_request option \<Rightarrow> auto_increment_map \<Rightarrow> bool" where
  "calm t entry m \<longleftrightarrow> (case entry of None \<Rightarrow> True
     | Some request \<Rightarrow> ai_table_id request = t \<longrightarrow>
         (case ai_op_type request of
            OP_DROP_ID_FOR_AUTO_INCREMENT \<Rightarrow> False
          | OP_GEN_ID_FOR_AUTO_INCREMENT \<Rightarrow>
              (case ar_start_id (fst (gen_id request m)) of None \<Rightarrow> True
               | Some start_id \<Rightarrow> unat start_id + unat (get_or 0 (ai_count request)) < 2 ^ 64)
          | OP_UPDATE_FOR_AUTO_INCREMENT \<Rightarrow> \<not> get_or False (ai_force request) \<and>
              (case m t of None \<Rightarrow> True
               | Some old \<Rightarrow> unat old + unat (get_or 0 (ai_increment_id request)) < 2 ^ 64)
          | _ \<Rightarrow> True))"

fun calm_run :: "int \<Rightarrow> auto_increment_request option list \<Rightarrow> auto_increment_map \<Rightarrow> bool" where
  "calm_run t [] m \<longleftrightarrow> True"
| "calm_run t (entry # entries) m \<longleftrightarrow> calm t entry m \<and> calm_run t entries (snd (incr_apply_one entry m))"

lemma no_wrap_le: "unat x + unat y < 2 ^ 64 \<Longrightarrow> x \<le> x + y" for x y :: "64 word"
  by (simp add: word_le_nat_alt unat_word_ariths)

lemma gen_id_result:
  assumes "gen_id request m = (r, m')" and "m (ai_table_id request) = Some c"
  obtains x where "ar_errcode r = SUCCESS" "ar_start_id r = Some x" "c \<le> x"
    "ar_end_id r = Some (x + get_or 0 (ai_count request))"
    "m' = m(ai_table_id request \<mapsto> x + get_or 0 (ai_count request))"
proof -
  define x where "x = (case ai_start_id request of None \<Rightarrow> c | Some y \<Rightarrow> if c < y + 1 then y + 1 else c)"
  have "c \<le> x" by (auto simp: x_def split: option.split)
  then show thesis using that [of x] assms by (auto simp: gen_id_def Let_def x_def [symmetric])
qed

lemma incr_other_table:
  assumes "\<And>request. entry = Some request \<Longrightarrow> ai_table_id request \<noteq> t"
  shows "snd (incr_apply_one entry m) t = m t"
  using assms
  by (auto simp: incr_apply_one_def add_table_id_def drop_table_id_def gen_id_def update_id_def Let_def
      split: option.split incr_op.split)

lemma incr_monotone:
  assumes "calm t entry m" and "m t = Some c"
  obtains d where "snd (incr_apply_one entry m) t = Some d" "c \<le> d"
proof (cases "\<exists>request. entry = Some request \<and> ai_table_id request = t")
  case False
  then have "snd (incr_apply_one entry m) t = Some c" using incr_other_table assms(2) by metis
  then show thesis using that by simp
next
  case True
  then obtain request where e: "entry = Some request" "ai_table_id request = t" by blast
  show thesis
  proof (cases "ai_op_type request")
    case OP_GEN_ID_FOR_AUTO_INCREMENT
    obtain r m' where g: "gen_id request m = (r, m')" by fastforce
    obtain x where x: "ar_start_id r = Some x" "c \<le> x" "m' = m(t \<mapsto> x + get_or 0 (ai_count request))"
      using gen_id_result [OF g] assms(2) e(2) by metis
    have "x \<le> x + get_or 0 (ai_count request)"
      by (rule no_wrap_le) (use assms(1) OP_GEN_ID_FOR_AUTO_INCREMENT g x(1) in \<open>simp add: calm_def e\<close>)
    then show thesis
      using that [of "x + get_or 0 (ai_count request)"] x(2, 3) g OP_GEN_ID_FOR_AUTO_INCREMENT by (simp add: incr_apply_one_def e)
  next
    case OP_UPDATE_FOR_AUTO_INCREMENT
    then have "unat c + unat (get_or 0 (ai_increment_id request)) < 2 ^ 64" "\<not> get_or False (ai_force request)"
      using assms by (simp_all add: calm_def e)
    then have "\<exists>d. snd (update_id request m) t = Some d \<and> c \<le> d"
      using assms(2) no_wrap_le [of c "get_or 0 (ai_increment_id request)"]
      by (auto simp: update_id_def e Let_def not_less split: option.split)
    then show thesis using that OP_UPDATE_FOR_AUTO_INCREMENT by (auto simp: incr_apply_one_def e)
  qed (use assms that in \<open>auto simp: calm_def incr_apply_one_def add_table_id_def e Let_def\<close>)
qed

lemma incr_apply_append_last:
  "incr_apply (es @ [f]) m = (case incr_apply es m of (rs, m') \<Rightarrow>
     case incr_apply_one f m' of (r, m'') \<Rightarrow> (rs @ [r], m''))"
proof (induction es arbitrary: m)
  case (Cons e es)
  then show ?case by (simp add: split_beta)
qed (simp add: split_beta)

lemma calm_run_monotone:
  assumes "calm_run t es m" and "m t = Some c"
  obtains d where "snd (incr_apply es m) t = Some d" "c \<le> d"
proof -
  have "\<exists>d. snd (incr_apply es m) t = Some d \<and> c \<le> d"
    using assms
  proof (induction es arbitrary: m c)
    case (Cons e es)
    obtain c1 where c1: "snd (incr_apply_one e m) t = Some c1" "c \<le> c1"
      by (rule incr_monotone [of t e m c]) (use Cons.prems in simp_all)
    with Cons.IH [of "snd (incr_apply_one e m)" c1] Cons.prems show ?case
      by (auto simp: split_beta dest: order_trans)
  qed simp
  then show thesis using that by blast
qed

section \<open>Snapshots\<close>

declare digits.simps [simp del]

lemma load_members_map:
  assumes "\<forall>i \<in> set ids. lexical_cast (to_string i) = Some i"
  shows "load_members lexical_cast (map (\<lambda>i. (to_string i, f i)) ids) m =
    Some (\<lambda>i. if i \<in> set ids then Some (f i) else m i)"
  using assms by (induction ids arbitrary: m) (auto simp: fun_eq_iff)

text \<open>A conversion that reads what \<^term>\<open>to_string\<close> writes.\<close>

definition nat_of_digits :: "string \<Rightarrow> nat" where
  "nat_of_digits s = foldl (\<lambda>n c. 10 * n + (of_char c - 48)) 0 s"

definition wit_cast :: "string \<Rightarrow> int option" where
  "wit_cast s = (case s of [] \<Rightarrow> None
     | c # cs \<Rightarrow> Some (if c = CHR ''-'' then - int (nat_of_digits cs) else int (nat_of_digits s)))"

lemma nat_of_digits: "nat_of_digits (digits n) = n"
proof (induction n rule: digits.induct)
  case (1 n)
  show ?case
  proof (cases "n < 10")
    case True
    then show ?thesis by (simp add: nat_of_digits_def digits.simps [of n])
  next
    case False
    moreover have "n mod 10 < 10" by simp
    ultimately show ?thesis using 1 by (simp add: nat_of_digits_def digits.simps [of n])
  qed
qed

lemma digits_start: "\<exists>c cs. digits n = c # cs \<and> c \<noteq> CHR ''-''"
proof (induction n rule: digits.induct)
  case (1 n)
  have "char_of (48 + k) \<noteq> CHR ''-''" if "k < 10" for k :: nat
  proof
    assume "char_of (48 + k) = CHR ''-''"
    then have "of_char (char_of (48 + k)) = (of_char CHR ''-'' :: nat)" by simp
    then show False using that by simp
  qed
  then show ?case using 1 by (cases "n < 10") (auto simp: digits.simps [of n])
qed

lemma wit_cast: "wit_cast (to_string i) = Some i"
proof (cases "i < 0")
  case True
  then show ?thesis by (simp add: wit_cast_def to_string_def nat_of_digits)
next
  case False
  obtain c cs where "digits (nat i) = c # cs" "c \<noteq> CHR ''-''" using digits_start by blast
  with False nat_of_digits [of "nat i"] show ?thesis by (simp add: wit_cast_def to_string_def)
qed

section \<open>The properties\<close>

text \<open>(C25) Two ranges of ids generated for the same table, one after the other, do not overlap: the second starts where the
  first ended or later. No drop of the table, forced update or overflow may come in between.\<close>

theorem auto_incr_ranges_disjoint:
  assumes "incr_apply (Some a # entries @ [Some b]) m = (r # rs @ [r'], m')" and "calm_run t (Some a # entries) m"
    and "ai_op_type a = OP_GEN_ID_FOR_AUTO_INCREMENT" and "ai_table_id a = t"
    and "ai_op_type b = OP_GEN_ID_FOR_AUTO_INCREMENT" and "ai_table_id b = t" and "ar_errcode r = SUCCESS"
  shows "\<exists>w x y. ar_start_id r = Some w \<and> ar_end_id r = Some x \<and> ar_start_id r' = Some y \<and> w \<le> x \<and> x \<le> y"
proof -
  obtain r1 m1 where g1: "gen_id a m = (r1, m1)" by fastforce
  define m2 where "m2 = snd (incr_apply entries m1)"
  obtain r2 m3 where g2: "gen_id b m2 = (r2, m3)" by fastforce
  have "incr_apply (Some a # entries @ [Some b]) m = (r1 # fst (incr_apply entries m1) @ [r2], m3)"
    using g1 g2 assms(3, 5) by (simp add: incr_apply_append_last incr_apply_one_def m2_def split_beta)
  then have r: "r = r1" "r' = r2" using assms(1) by auto
  obtain c where c: "m t = Some c"
    using g1 assms(7) by (auto simp: r gen_id_def assms(4) Let_def incr_error_def split: option.splits)
  obtain w where w: "ar_start_id r1 = Some w" "ar_end_id r1 = Some (w + get_or 0 (ai_count a))"
      "m1 = m(t \<mapsto> w + get_or 0 (ai_count a))"
    using gen_id_result [OF g1, unfolded assms(4), OF c] by blast
  have calm: "calm t (Some a) m" "calm_run t entries m1" using assms(2, 3) g1 by (simp_all add: incr_apply_one_def)
  have le: "w \<le> w + get_or 0 (ai_count a)"
    by (rule no_wrap_le) (use calm(1) assms(3, 4) w(1) g1 in \<open>simp add: calm_def\<close>)
  have "m1 t = Some (w + get_or 0 (ai_count a))" by (simp add: w(3))
  then obtain d where d: "m2 t = Some d" "w + get_or 0 (ai_count a) \<le> d"
    unfolding m2_def by (rule calm_run_monotone [OF calm(2)])
  obtain y where "ar_start_id r2 = Some y" "d \<le> y" using gen_id_result [OF g2, unfolded assms(6), OF d(1)] by blast
  with d(2) le w r show ?thesis by (auto dest: order_trans)
qed

definition wit_gen :: "64 word \<Rightarrow> auto_increment_request option" where
  "wit_gen n = Some \<lparr>ai_op_type = OP_GEN_ID_FOR_AUTO_INCREMENT, ai_table_id = 7, ai_count = Some n, ai_start_id = None,
     ai_increment_id = None, ai_force = None\<rparr>"

definition wit_update :: "auto_increment_request option" where
  "wit_update = Some \<lparr>ai_op_type = OP_UPDATE_FOR_AUTO_INCREMENT, ai_table_id = 7, ai_count = None, ai_start_id = Some 30,
     ai_increment_id = None, ai_force = None\<rparr>"

theorem auto_incr_ranges_disjoint_witness:
  "\<exists>w x y. w = (1 :: 64 word) \<and> x = 11 \<and> y = 31 \<and>
     ar_start_id (hd (fst (incr_apply [wit_gen 10, wit_update, wit_gen 5] [7 \<mapsto> 1]))) = Some w \<and>
     ar_end_id (hd (fst (incr_apply [wit_gen 10, wit_update, wit_gen 5] [7 \<mapsto> 1]))) = Some x \<and>
     ar_start_id (last (fst (incr_apply [wit_gen 10, wit_update, wit_gen 5] [7 \<mapsto> 1]))) = Some y \<and> w \<le> x \<and> x \<le> y"
proof -
  have run: "incr_apply [wit_gen 10, wit_update, wit_gen 5] [7 \<mapsto> 1] =
    (\<lparr>ar_errcode = SUCCESS, ar_start_id = Some 1, ar_end_id = Some 11\<rparr> #
     [\<lparr>ar_errcode = SUCCESS, ar_start_id = Some 31, ar_end_id = None\<rparr>] @
     [\<lparr>ar_errcode = SUCCESS, ar_start_id = Some 31, ar_end_id = Some 36\<rparr>], [7 \<mapsto> 36])"
    by (simp add: incr_apply_one_def gen_id_def update_id_def wit_gen_def wit_update_def)
  have calm: "calm_run 7 (Some (the (wit_gen 10)) # [wit_update]) [7 \<mapsto> 1]"
    by (simp add: calm_def incr_apply_one_def gen_id_def wit_gen_def wit_update_def)
  have form: "[wit_gen 10, wit_update, wit_gen 5] = Some (the (wit_gen 10)) # [wit_update] @ [Some (the (wit_gen 5))]"
    by (simp add: wit_gen_def)
  have "ai_op_type (the (wit_gen n)) = OP_GEN_ID_FOR_AUTO_INCREMENT" "ai_table_id (the (wit_gen n)) = 7" for n
    by (simp_all add: wit_gen_def)
  from auto_incr_ranges_disjoint [OF run [unfolded form] calm this this] show ?thesis unfolding run by simp
qed

text \<open>(C26) The counter of a table is 64 bits wide and is not checked for overflow: a range that exceeds them is
  answered as a success, and the next request gets ids from before the ones the table already used.\<close>

theorem auto_incr_overflow_repeats:
  assumes "m (ai_table_id request) = Some old" and "ai_start_id request = None"
    and "unat old + unat (get_or 0 (ai_count request)) \<ge> 2 ^ 64" and "gen_id request m = (r, m')"
    and "ai_table_id request' = ai_table_id request" and "ai_start_id request' = None"
  shows "ar_errcode r = SUCCESS \<and> (\<exists>y. ar_start_id (fst (gen_id request' m')) = Some y \<and> y < old)"
proof -
  let ?n = "get_or 0 (ai_count request)"
  have wrap: "(a + b) mod M < a" if "M \<le> a + b" "a < M" "b < M" for a b M :: nat
    using that by (simp add: le_mod_geq)
  have lt: "unat x < 2 ^ 64" for x :: "64 word" using unsigned_less [of x] by simp
  have "(unat old + unat ?n) mod 2 ^ 64 < unat old" by (rule wrap [OF assms(3) lt lt])
  then have "old + ?n < old" by (simp add: word_less_nat_alt unat_word_ariths)
  with assms show ?thesis by (auto simp: gen_id_def Let_def)
qed

theorem auto_incr_overflow_repeats_witness:
  "ar_errcode (fst (gen_id (the (wit_gen 18446744073709551615)) [7 \<mapsto> 5])) = SUCCESS \<and>
   (\<exists>y. ar_start_id (fst (gen_id (the (wit_gen 1)) (snd (gen_id (the (wit_gen 18446744073709551615)) [7 \<mapsto> 5])))) = Some y \<and> y < 5)"
  using auto_incr_overflow_repeats [of "[7 \<mapsto> 5]" "the (wit_gen 18446744073709551615)" 5 "fst (gen_id (the (wit_gen 18446744073709551615)) [7 \<mapsto> 5])"
      "snd (gen_id (the (wit_gen 18446744073709551615)) [7 \<mapsto> 5])" "the (wit_gen 1)"]
  by (simp add: wit_gen_def)

text \<open>Loading the snapshot of a state machine restores its counters.\<close>

theorem auto_incr_snapshot_round_trip:
  assumes "\<And>members. parse (write members) = Some members" and "\<And>i. in_i64 i \<Longrightarrow> lexical_cast (to_string i) = Some i"
    and "set ids = dom m" and "\<forall>i \<in> dom m. in_i64 i"
  shows "load_auto_increment parse lexical_cast (save_auto_increment write ids m) old = Some (0, m)"
proof -
  have "\<forall>i \<in> set ids. lexical_cast (to_string i) = Some i" using assms(2-4) by simp
  from load_members_map [OF this] have "load_members lexical_cast (map (\<lambda>i. (to_string i, the (m i))) ids) Map.empty = Some m"
    using assms(3) by (auto simp: fun_eq_iff dom_def)
  then show ?thesis by (simp add: load_auto_increment_def parse_json_string_def save_auto_increment_def assms(1))
qed

theorem auto_incr_snapshot_round_trip_witness:
  "load_auto_increment Some wit_cast (save_auto_increment (\<lambda>members. members) [7, -3] [7 \<mapsto> 16, -3 \<mapsto> 1]) Map.empty =
   Some (0, [7 \<mapsto> 16, -3 \<mapsto> 1])"
  by (rule auto_incr_snapshot_round_trip) (auto simp: wit_cast in_i64_def)

end
