(* ===== verification/MetaWriter.thy ===== *)
theory MetaWriter
  imports TableKeys Rocks
begin

text \<open>
  What a store keeps about its regions, \<^verbatim>\<open>MetaWriter\<close> in \<^verbatim>\<open>src/store/meta_writer.cpp\<close>: the
  column family of meta information, keyed by the region and the kind of information. A
  64-bit number of the source, signed or not, is a \<^typ>\<open>64 word\<close>. The serialisation of
  protobuf messages is a parameter \<open>ser\<close> or \<open>parse\<close> of each operation that uses one;
  a message that does not serialise leaves an empty string.
\<close>

section \<open>Keys\<close>

definition META_IDENTIFY :: bytes where "META_IDENTIFY = [1]"
definition ROCKS_HANG_CHECK_IDENTIFY :: bytes where "ROCKS_HANG_CHECK_IDENTIFY = [2]"
definition APPLIED_INDEX_INDENTIFY :: bytes where "APPLIED_INDEX_INDENTIFY = [1]"
definition NUM_TABLE_LINE_INDENTIFY :: bytes where "NUM_TABLE_LINE_INDENTIFY = [2]"
definition PREPARED_TXN_LOG_INDEX_IDENTIFY :: bytes where "PREPARED_TXN_LOG_INDEX_IDENTIFY = [3]"
definition PREPARED_TXN_PB_IDENTIYF :: bytes where "PREPARED_TXN_PB_IDENTIYF = [4]"
definition REGION_INFO_IDENTIFY :: bytes where "REGION_INFO_IDENTIFY = [5]"
definition PRE_COMMIT_IDENTIFY :: bytes where "PRE_COMMIT_IDENTIFY = [6]"
definition DOING_SNAPSHOT_IDENTIFY :: bytes where "DOING_SNAPSHOT_IDENTIFY = [7]"
definition REGION_DDL_INFO_IDENTIFY :: bytes where "REGION_DDL_INFO_IDENTIFY = [8]"
definition ROLLBACKED_TXN_IDENTIFY :: bytes where "ROLLBACKED_TXN_IDENTIFY = [9]"
definition BINLOG_CHECK_POINT_IDENTIFY :: bytes where "BINLOG_CHECK_POINT_IDENTIFY = [10]"
definition BINLOG_OLDEST_IDENTIFY :: bytes where "BINLOG_OLDEST_IDENTIFY = [11]"
definition LEARNER_IDENTIFY :: bytes where "LEARNER_IDENTIFY = [12]"
definition LOCAL_STORAGE_IDENTIFY :: bytes where "LOCAL_STORAGE_IDENTIFY = [13]"
definition OLAP_REGION_IDENTIFY :: bytes where "OLAP_REGION_IDENTIFY = [14]"
definition REGION_OFFLINE_BINLOG_IDENTIFY :: bytes where "REGION_OFFLINE_BINLOG_IDENTIFY = [15]"
definition WATT_STATS_VERSION_IDENTIFY :: bytes where "WATT_STATS_VERSION_IDENTIFY = [16]"
definition ROLLUP_REGION_INIT_INDEX_INDENTIFY :: bytes where "ROLLUP_REGION_INIT_INDEX_INDENTIFY = [17]"

text \<open>Every key starts with the first identifier and the region.\<close>

definition meta_info_prefix :: "bool \<Rightarrow> 64 word \<Rightarrow> bytes" where
  "meta_info_prefix big region_id = mk_data (append_i64 big region_id (append_char META_IDENTIFY mut_key_empty))"

definition region_key :: "bool \<Rightarrow> bytes \<Rightarrow> 64 word \<Rightarrow> mut_table_key" where
  "region_key big identify region_id =
     append_char identify (append_i64 big region_id (append_char META_IDENTIFY mut_key_empty))"

definition region_info_key :: "bool \<Rightarrow> 64 word \<Rightarrow> bytes" where
  "region_info_key big region_id = mk_data (region_key big REGION_INFO_IDENTIFY region_id)"

definition region_ddl_info_key :: "bool \<Rightarrow> 64 word \<Rightarrow> bytes" where
  "region_ddl_info_key big region_id = mk_data (region_key big REGION_DDL_INFO_IDENTIFY region_id)"

definition applied_index_key :: "bool \<Rightarrow> 64 word \<Rightarrow> bytes" where
  "applied_index_key big region_id = mk_data (region_key big APPLIED_INDEX_INDENTIFY region_id)"

definition rollup_region_init_index_key :: "bool \<Rightarrow> 64 word \<Rightarrow> bytes" where
  "rollup_region_init_index_key big region_id = mk_data (region_key big ROLLUP_REGION_INIT_INDEX_INDENTIFY region_id)"

definition num_table_lines_key :: "bool \<Rightarrow> 64 word \<Rightarrow> bytes" where
  "num_table_lines_key big region_id = mk_data (region_key big NUM_TABLE_LINE_INDENTIFY region_id)"

definition log_index_key_prefix :: "bool \<Rightarrow> 64 word \<Rightarrow> bytes" where
  "log_index_key_prefix big region_id = mk_data (region_key big PREPARED_TXN_LOG_INDEX_IDENTIFY region_id)"

definition transcation_pb_key_prefix :: "bool \<Rightarrow> 64 word \<Rightarrow> bytes" where
  "transcation_pb_key_prefix big region_id = mk_data (region_key big PREPARED_TXN_PB_IDENTIYF region_id)"

definition pre_commit_key_prefix :: "bool \<Rightarrow> 64 word \<Rightarrow> bytes" where
  "pre_commit_key_prefix big region_id = mk_data (region_key big PRE_COMMIT_IDENTIFY region_id)"

definition doing_snapshot_key :: "bool \<Rightarrow> 64 word \<Rightarrow> bytes" where
  "doing_snapshot_key big region_id = mk_data (region_key big DOING_SNAPSHOT_IDENTIFY region_id)"

definition binlog_check_point_key :: "bool \<Rightarrow> 64 word \<Rightarrow> bytes" where
  "binlog_check_point_key big region_id = mk_data (region_key big BINLOG_CHECK_POINT_IDENTIFY region_id)"

definition binlog_oldest_ts_key :: "bool \<Rightarrow> 64 word \<Rightarrow> bytes" where
  "binlog_oldest_ts_key big region_id = mk_data (region_key big BINLOG_OLDEST_IDENTIFY region_id)"

definition learner_key :: "bool \<Rightarrow> 64 word \<Rightarrow> bytes" where
  "learner_key big region_id = mk_data (region_key big LEARNER_IDENTIFY region_id)"

definition olap_key :: "bool \<Rightarrow> 64 word \<Rightarrow> bytes" where
  "olap_key big region_id = mk_data (region_key big OLAP_REGION_IDENTIFY region_id)"

definition offline_binlog_key :: "bool \<Rightarrow> 64 word \<Rightarrow> bytes" where
  "offline_binlog_key big region_id = mk_data (region_key big REGION_OFFLINE_BINLOG_IDENTIFY region_id)"

definition transcation_log_index_key :: "bool \<Rightarrow> 64 word \<Rightarrow> 64 word \<Rightarrow> bytes" where
  "transcation_log_index_key big region_id txn_id = mk_data (append_u64 big txn_id (region_key big PREPARED_TXN_LOG_INDEX_IDENTIFY region_id))"

definition rollbacked_transcation_key :: "bool \<Rightarrow> 64 word \<Rightarrow> 64 word \<Rightarrow> bytes" where
  "rollbacked_transcation_key big region_id txn_id = mk_data (append_u64 big txn_id (region_key big ROLLBACKED_TXN_IDENTIFY region_id))"

definition pre_commit_key :: "bool \<Rightarrow> 64 word \<Rightarrow> 64 word \<Rightarrow> bytes" where
  "pre_commit_key big region_id txn_id = mk_data (append_u64 big txn_id (region_key big PRE_COMMIT_IDENTIFY region_id))"

definition watt_stats_version_key :: "bool \<Rightarrow> 64 word \<Rightarrow> 64 word \<Rightarrow> bytes" where
  "watt_stats_version_key big region_id watt_stats_version = mk_data (append_u64 big watt_stats_version (region_key big WATT_STATS_VERSION_IDENTIFY region_id))"

definition transcation_pb_key :: "bool \<Rightarrow> 64 word \<Rightarrow> 64 word \<Rightarrow> 64 word \<Rightarrow> bytes" where
  "transcation_pb_key big region_id txn_id log_index =
     mk_data (append_i64 big log_index (append_u64 big txn_id (region_key big PREPARED_TXN_PB_IDENTIYF region_id)))"

definition encode_removed_ddl_key :: "bool \<Rightarrow> 64 word \<Rightarrow> 64 word \<Rightarrow> bytes" where
  "encode_removed_ddl_key big region_id index_id =
     mk_data (append_i64 big index_id (region_key big LOCAL_STORAGE_IDENTIFY region_id))"

section \<open>Values\<close>

definition encode_rollup_region_init_index :: "bool \<Rightarrow> 64 word \<Rightarrow> bytes" where
  "encode_rollup_region_init_index big unapply_index = mk_data (append_i64 big unapply_index mut_key_empty)"

definition encode_num_table_lines :: "bool \<Rightarrow> 64 word \<Rightarrow> bytes" where
  "encode_num_table_lines big line = mk_data (append_i64 big line mut_key_empty)"

definition encode_transcation_log_index_value :: "bool \<Rightarrow> 64 word \<Rightarrow> bytes" where
  "encode_transcation_log_index_value big log_index = mk_data (append_i64 big log_index mut_key_empty)"

definition encode_binlog_ts :: "bool \<Rightarrow> 64 word \<Rightarrow> bytes" where
  "encode_binlog_ts big ts = mk_data (append_i64 big ts mut_key_empty)"

definition encode_learner_flag :: "bool \<Rightarrow> 64 word \<Rightarrow> bytes" where
  "encode_learner_flag big learner_flag = mk_data (append_i64 big learner_flag mut_key_empty)"

definition encode_applied_index :: "bool \<Rightarrow> 64 word \<Rightarrow> 64 word \<Rightarrow> bytes" where
  "encode_applied_index big applied_index data_index =
     mk_data (append_i64 big data_index (append_i64 big applied_index mut_key_empty))"

definition encode_region_info :: "('i \<Rightarrow> bytes option) \<Rightarrow> 'i \<Rightarrow> bytes" where
  "encode_region_info ser region_info = (case ser region_info of None \<Rightarrow> [] | Some s \<Rightarrow> s)"

definition encode_transcation_pb_value :: "('t \<Rightarrow> bytes option) \<Rightarrow> 't \<Rightarrow> bytes" where
  "encode_transcation_pb_value ser txn = (case ser txn of None \<Rightarrow> [] | Some s \<Rightarrow> s)"

definition slice_key :: "bytes \<Rightarrow> table_key" where
  "slice_key value = \<lparr>tk_full = True, tk_data = value\<rparr>"

text \<open>Reading past the end of a value is undefined: \<^term>\<open>None\<close>.\<close>

definition decode_log_index_value :: "bool \<Rightarrow> bytes \<Rightarrow> 64 word option" where
  "decode_log_index_value big value = extract_i64 big (slice_key value) 0"

definition decode_log_index_key :: "bool \<Rightarrow> bytes \<Rightarrow> 64 word option" where
  "decode_log_index_key big key = extract_u64 big (slice_key key) (1 + 8 + 1)"

definition decode_pre_commit_key :: "bool \<Rightarrow> bytes \<Rightarrow> 64 word option" where
  "decode_pre_commit_key big key = extract_u64 big (slice_key key) (1 + 8 + 1)"


section \<open>Writing\<close>

text \<open>The byte order of the host, and RocksDB.\<close>

record 'db store_env =
  se_big :: bool
  se_rocks :: "'db rocks"

text \<open>Every write answers 0, or -1 if the database refuses it.\<close>

definition put_meta :: "'db store_env \<Rightarrow> bytes \<Rightarrow> bytes \<Rightarrow> 'db \<Rightarrow> int \<times> 'db" where
  "put_meta E key value db =
     (case rk_put (se_rocks E) db Meta_Info_Cf key value of (status, db') \<Rightarrow> (if status \<noteq> R_ok then -1 else 0, db'))"

definition write_batch :: "'db store_env \<Rightarrow> write_op list \<Rightarrow> 'db \<Rightarrow> int \<times> 'db" where
  "write_batch E updates db =
     (case rk_write (se_rocks E) db updates of (status, db') \<Rightarrow> (if status \<noteq> R_ok then -1 else 0, db'))"

definition init_meta_info :: "'db store_env \<Rightarrow> ('i \<Rightarrow> bytes option) \<Rightarrow> ('i \<Rightarrow> 64 word) \<Rightarrow> 'i \<Rightarrow> 'db \<Rightarrow> int \<times> 'db" where
  "init_meta_info E ser region_id_of region_info db =
     (let string_region_info = encode_region_info ser region_info;
          region_id = region_id_of region_info
      in
      if string_region_info = [] then (-1, db)
      else write_batch E
        [W_put Meta_Info_Cf (region_info_key (se_big E) region_id) string_region_info,
         W_put Meta_Info_Cf (applied_index_key (se_big E) region_id) (encode_applied_index (se_big E) 0 0),
         W_put Meta_Info_Cf (num_table_lines_key (se_big E) region_id) (encode_num_table_lines (se_big E) 0),
         W_put Meta_Info_Cf (binlog_check_point_key (se_big E) region_id) (encode_binlog_ts (se_big E) 0),
         W_put Meta_Info_Cf (binlog_oldest_ts_key (se_big E) region_id) (encode_binlog_ts (se_big E) 0)] db)"

definition update_region_info :: "'db store_env \<Rightarrow> ('i \<Rightarrow> bytes option) \<Rightarrow> ('i \<Rightarrow> 64 word) \<Rightarrow> 'i \<Rightarrow> 'db \<Rightarrow> int \<times> 'db" where
  "update_region_info E ser region_id_of region_info db =
     put_meta E (region_info_key (se_big E) (region_id_of region_info))
       (case ser region_info of None \<Rightarrow> [] | Some s \<Rightarrow> s) db"

definition update_region_ddl_info :: "'db store_env \<Rightarrow> ('i \<Rightarrow> bytes option) \<Rightarrow> ('i \<Rightarrow> 64 word) \<Rightarrow> 'i \<Rightarrow> 'db \<Rightarrow> int \<times> 'db" where
  "update_region_ddl_info E ser region_id_of region_ddl_info db =
     put_meta E (region_ddl_info_key (se_big E) (region_id_of region_ddl_info))
       (case ser region_ddl_info of None \<Rightarrow> [] | Some s \<Rightarrow> s) db"

definition update_num_table_lines :: "'db store_env \<Rightarrow> 64 word \<Rightarrow> 64 word \<Rightarrow> 'db \<Rightarrow> int \<times> 'db" where
  "update_num_table_lines E region_id num_table_lines =
     put_meta E (num_table_lines_key (se_big E) region_id) (encode_num_table_lines (se_big E) num_table_lines)"

definition update_apply_index :: "'db store_env \<Rightarrow> 64 word \<Rightarrow> 64 word \<Rightarrow> 64 word \<Rightarrow> 'db \<Rightarrow> int \<times> 'db" where
  "update_apply_index E region_id applied_index data_index =
     put_meta E (applied_index_key (se_big E) region_id) (encode_applied_index (se_big E) applied_index data_index)"

definition update_rollup_region_init_index :: "'db store_env \<Rightarrow> 64 word \<Rightarrow> 64 word \<Rightarrow> 'db \<Rightarrow> int \<times> 'db" where
  "update_rollup_region_init_index E region_id rollup_region_init_index =
     put_meta E (rollup_region_init_index_key (se_big E) region_id)
       (encode_rollup_region_init_index (se_big E) rollup_region_init_index)"

definition write_pre_commit :: "'db store_env \<Rightarrow> 64 word \<Rightarrow> 64 word \<Rightarrow> 64 word \<Rightarrow> 64 word \<Rightarrow> 'db \<Rightarrow> int \<times> 'db" where
  "write_pre_commit E region_id txn_id num_table_lines applied_index db =
     (if applied_index = 0 then (0, db)
      else put_meta E (pre_commit_key (se_big E) region_id txn_id)
        (mk_data (append_i64 (se_big E) applied_index (append_i64 (se_big E) num_table_lines mut_key_empty))) db)"

definition write_doing_snapshot :: "'db store_env \<Rightarrow> 64 word \<Rightarrow> 'db \<Rightarrow> int \<times> 'db" where
  "write_doing_snapshot E region_id = put_meta E (doing_snapshot_key (se_big E) region_id) []"

definition write_meta_after_commit ::
  "'db store_env \<Rightarrow> 64 word \<Rightarrow> 64 word \<Rightarrow> 64 word \<Rightarrow> 64 word \<Rightarrow> 64 word \<Rightarrow> bool \<Rightarrow> 'db \<Rightarrow> int \<times> 'db" where
  "write_meta_after_commit E region_id num_table_lines applied_index data_index txn_id need_write_rollback db =
     (if applied_index = 0 then (0, db)
      else write_batch E
        ([W_put Meta_Info_Cf (applied_index_key (se_big E) region_id)
            (encode_applied_index (se_big E) applied_index data_index),
          W_put Meta_Info_Cf (num_table_lines_key (se_big E) region_id)
            (encode_num_table_lines (se_big E) num_table_lines)] @
         (if need_write_rollback
          then [W_put Meta_Info_Cf (rollbacked_transcation_key (se_big E) region_id txn_id) []] else []) @
         [W_delete Meta_Info_Cf (pre_commit_key (se_big E) region_id txn_id),
          W_delete Meta_Info_Cf (transcation_log_index_key (se_big E) region_id txn_id)]) db)"

definition clear_error_pre_commit :: "'db store_env \<Rightarrow> 64 word \<Rightarrow> 64 word \<Rightarrow> 'db \<Rightarrow> int \<times> 'db" where
  "clear_error_pre_commit E region_id txn_id =
     write_batch E
       [W_delete Meta_Info_Cf (pre_commit_key (se_big E) region_id txn_id),
        W_delete Meta_Info_Cf (transcation_log_index_key (se_big E) region_id txn_id)]"

definition write_meta_begin_index :: "'db store_env \<Rightarrow> 64 word \<Rightarrow> 64 word \<Rightarrow> 64 word \<Rightarrow> 64 word \<Rightarrow> 'db \<Rightarrow> int \<times> 'db" where
  "write_meta_begin_index E region_id log_index data_index txn_id db =
     (if log_index = 0 then (0, db)
      else write_batch E
        [W_put Meta_Info_Cf (applied_index_key (se_big E) region_id) (encode_applied_index (se_big E) log_index data_index),
         W_put Meta_Info_Cf (transcation_log_index_key (se_big E) region_id txn_id)
           (encode_transcation_log_index_value (se_big E) log_index)] db)"

text \<open>Writes into an open transaction; \<open>txn_put\<close> is RocksDB's.\<close>

definition txn_put_meta_info :: "('t \<Rightarrow> bytes \<Rightarrow> bytes \<Rightarrow> rocks_status \<times> 't) \<Rightarrow> bytes \<Rightarrow> bytes \<Rightarrow> 't \<Rightarrow> int \<times> 't" where
  "txn_put_meta_info txn_put key value txn =
     (case txn_put txn key value of (res, txn') \<Rightarrow> (if res \<noteq> R_ok then -1 else 0, txn'))"

definition write_meta_index_and_num_table_lines ::
  "bool \<Rightarrow> ('t \<Rightarrow> bytes \<Rightarrow> bytes \<Rightarrow> rocks_status \<times> 't) \<Rightarrow> 64 word \<Rightarrow> 64 word \<Rightarrow> 64 word \<Rightarrow> 64 word \<Rightarrow> 't \<Rightarrow> int \<times> 't" where
  "write_meta_index_and_num_table_lines big txn_put region_id log_index data_index num_table_lines txn =
     (if log_index = 0 then (0, txn)
      else
        (0, snd (txn_put_meta_info txn_put (num_table_lines_key big region_id) (encode_num_table_lines big num_table_lines)
              (snd (txn_put_meta_info txn_put (applied_index_key big region_id)
                 (encode_applied_index big log_index data_index) txn)))))"

text \<open>\<open>open_sst\<close> gives the entries of the file in order, or \<^term>\<open>None\<close> if it cannot be opened.\<close>

fun put_all :: "'db store_env \<Rightarrow> (bytes \<times> bytes) list \<Rightarrow> 'db \<Rightarrow> int \<times> 'db" where
  "put_all E [] db = (0, db)"
| "put_all E ((key, value) # kvs) db =
     (case put_meta E key value db of (ret, db') \<Rightarrow> if ret \<noteq> 0 then (-1, db') else put_all E kvs db')"

definition ingest_meta_sst :: "'db store_env \<Rightarrow> (bytes \<times> bytes) list option \<Rightarrow> 'db \<Rightarrow> int \<times> 'db" where
  "ingest_meta_sst E open_sst db = (case open_sst of None \<Rightarrow> (-1, db) | Some kvs \<Rightarrow> put_all E kvs db)"

definition write_binlog_check_point :: "'db store_env \<Rightarrow> 64 word \<Rightarrow> 64 word \<Rightarrow> 'db \<Rightarrow> int \<times> 'db" where
  "write_binlog_check_point E region_id ts =
     put_meta E (binlog_check_point_key (se_big E) region_id) (mk_data (append_i64 (se_big E) ts mut_key_empty))"

definition write_binlog_oldest_ts :: "'db store_env \<Rightarrow> 64 word \<Rightarrow> 64 word \<Rightarrow> 'db \<Rightarrow> int \<times> 'db" where
  "write_binlog_oldest_ts E region_id ts =
     put_meta E (binlog_oldest_ts_key (se_big E) region_id) (mk_data (append_i64 (se_big E) ts mut_key_empty))"

definition write_learner_key :: "'db store_env \<Rightarrow> 64 word \<Rightarrow> bool \<Rightarrow> 'db \<Rightarrow> int \<times> 'db" where
  "write_learner_key E region_id is_learner =
     put_meta E (learner_key (se_big E) region_id) (encode_learner_flag (se_big E) (if is_learner then 1 else 0))"

definition write_olap_info :: "'db store_env \<Rightarrow> ('i \<Rightarrow> bytes option) \<Rightarrow> 64 word \<Rightarrow> 'i \<Rightarrow> 'db \<Rightarrow> int \<times> 'db" where
  "write_olap_info E ser region_id olap_info db =
     (case ser olap_info of None \<Rightarrow> (-1, db) | Some s \<Rightarrow> put_meta E (olap_key (se_big E) region_id) s db)"

definition write_region_offline_binlog_info ::
  "'db store_env \<Rightarrow> ('i \<Rightarrow> bytes option) \<Rightarrow> 64 word \<Rightarrow> 'i \<Rightarrow> 'db \<Rightarrow> int \<times> 'db" where
  "write_region_offline_binlog_info E ser region_id offline_binlog_info db =
     (case ser offline_binlog_info of None \<Rightarrow> (-1, db)
      | Some s \<Rightarrow> put_meta E (offline_binlog_key (se_big E) region_id) s db)"

definition put_watt_stats_version ::
  "bool \<Rightarrow> ('t \<Rightarrow> bytes \<Rightarrow> bytes \<Rightarrow> rocks_status \<times> 't) \<Rightarrow> 64 word \<Rightarrow> 64 word \<Rightarrow> 't \<Rightarrow> int \<times> 't" where
  "put_watt_stats_version big txn_put region_id watt_stats_version =
     txn_put_meta_info txn_put (watt_stats_version_key big region_id watt_stats_version) []"

section \<open>Clearing\<close>

definition clear_range :: "'db store_env \<Rightarrow> bytes \<Rightarrow> bytes \<Rightarrow> 'db \<Rightarrow> int \<times> 'db" where
  "clear_range E start_key end_key db =
     (case remove_range (se_rocks E) False db Meta_Info_Cf start_key end_key False of (status, db') \<Rightarrow>
        (if status \<noteq> R_ok then -1 else 0, db'))"

definition clear_txn_log_index :: "'db store_env \<Rightarrow> 64 word \<Rightarrow> 'db \<Rightarrow> int \<times> 'db" where
  "clear_txn_log_index E region_id =
     clear_range E (transcation_log_index_key (se_big E) region_id 0) (transcation_log_index_key (se_big E) region_id (- 1))"

definition clear_txn_infos :: "'db store_env \<Rightarrow> 64 word \<Rightarrow> 'db \<Rightarrow> int \<times> 'db" where
  "clear_txn_infos E region_id =
     clear_range E (transcation_pb_key (se_big E) region_id 0 0)
       (transcation_pb_key (se_big E) region_id (- 1) 0x7FFFFFFFFFFFFFFF)"

definition clear_pre_commit_infos :: "'db store_env \<Rightarrow> 64 word \<Rightarrow> 'db \<Rightarrow> int \<times> 'db" where
  "clear_pre_commit_infos E region_id =
     clear_range E (pre_commit_key (se_big E) region_id 0) (pre_commit_key (se_big E) region_id (- 1))"

definition clear_watt_stats_version :: "'db store_env \<Rightarrow> 64 word \<Rightarrow> 'db \<Rightarrow> int \<times> 'db" where
  "clear_watt_stats_version E region_id =
     clear_range E (watt_stats_version_key (se_big E) region_id 0) (watt_stats_version_key (se_big E) region_id (- 1))"

text \<open>The three ranges of transactions, one after the other until one fails.\<close>

definition clear_txns :: "'db store_env \<Rightarrow> 64 word \<Rightarrow> 'db \<Rightarrow> int \<times> 'db" where
  "clear_txns E region_id db =
     (case clear_txn_infos E region_id db of (ret, db1) \<Rightarrow>
        if ret < 0 then (ret, db1)
        else case clear_txn_log_index E region_id db1 of (ret, db2) \<Rightarrow>
          if ret < 0 then (ret, db2)
          else case clear_pre_commit_infos E region_id db2 of (ret, db3) \<Rightarrow>
            if ret < 0 then (ret, db3) else (0, db3))"

definition clear_meta_info :: "'db store_env \<Rightarrow> 64 word \<Rightarrow> 'db \<Rightarrow> int \<times> 'db" where
  "clear_meta_info E drop_region_id db =
     (case write_batch E [W_delete Meta_Info_Cf (applied_index_key (se_big E) drop_region_id),
             W_delete Meta_Info_Cf (num_table_lines_key (se_big E) drop_region_id)] db of
        (ret, db1) \<Rightarrow> if ret \<noteq> 0 then (-1, db1) else clear_txns E drop_region_id db1)"

definition clear_all_meta_info :: "'db store_env \<Rightarrow> 64 word \<Rightarrow> 'db \<Rightarrow> int \<times> 'db" where
  "clear_all_meta_info E drop_region_id db =
     (case write_batch E [W_delete Meta_Info_Cf (region_info_key (se_big E) drop_region_id),
             W_delete Meta_Info_Cf (applied_index_key (se_big E) drop_region_id),
             W_delete Meta_Info_Cf (num_table_lines_key (se_big E) drop_region_id),
             W_delete Meta_Info_Cf (doing_snapshot_key (se_big E) drop_region_id),
             W_delete Meta_Info_Cf (learner_key (se_big E) drop_region_id)] db of
        (ret, db1) \<Rightarrow> if ret \<noteq> 0 then (-1, db1) else clear_txns E drop_region_id db1)"

definition clear_unapplied_begin_index :: "'db store_env \<Rightarrow> 64 word \<Rightarrow> 'db \<Rightarrow> int \<times> 'db" where
  "clear_unapplied_begin_index E region_id =
     write_batch E [W_delete Meta_Info_Cf (rollup_region_init_index_key (se_big E) region_id)]"

definition clear_doing_snapshot :: "'db store_env \<Rightarrow> 64 word \<Rightarrow> 'db \<Rightarrow> int \<times> 'db" where
  "clear_doing_snapshot E region_id = write_batch E [W_delete Meta_Info_Cf (doing_snapshot_key (se_big E) region_id)]"

definition clear_region_info :: "'db store_env \<Rightarrow> 64 word \<Rightarrow> 'db \<Rightarrow> int \<times> 'db" where
  "clear_region_info E region_id = write_batch E [W_delete Meta_Info_Cf (region_info_key (se_big E) region_id)]"

section \<open>Reading\<close>

text \<open>
  A value that is read is a \<open>64 word\<close>, with -1 for the answer of a failed read;
  \<^term>\<open>None\<close> is the undefined behaviour of reading past the end of a value.
\<close>

definition read_i64 :: "'db store_env \<Rightarrow> bytes \<Rightarrow> 'db \<Rightarrow> 64 word option" where
  "read_i64 E key db =
     (case rk_get (se_rocks E) db Meta_Info_Cf key of (status, value) \<Rightarrow>
        if status \<noteq> R_ok then Some (- 1) else extract_i64 (se_big E) (slice_key value) 0)"

definition read_rollup_region_init_index :: "'db store_env \<Rightarrow> 64 word \<Rightarrow> 'db \<Rightarrow> 64 word option" where
  "read_rollup_region_init_index E region_id = read_i64 E (rollup_region_init_index_key (se_big E) region_id)"

definition read_num_table_lines :: "'db store_env \<Rightarrow> 64 word \<Rightarrow> 'db \<Rightarrow> 64 word option" where
  "read_num_table_lines E region_id = read_i64 E (num_table_lines_key (se_big E) region_id)"

definition read_binlog_check_point :: "'db store_env \<Rightarrow> 64 word \<Rightarrow> 'db \<Rightarrow> 64 word option" where
  "read_binlog_check_point E region_id = read_i64 E (binlog_check_point_key (se_big E) region_id)"

definition read_binlog_oldest_ts :: "'db store_env \<Rightarrow> 64 word \<Rightarrow> 'db \<Rightarrow> 64 word option" where
  "read_binlog_oldest_ts E region_id = read_i64 E (binlog_oldest_ts_key (se_big E) region_id)"

text \<open>The flag is returned as a 32-bit \<^verbatim>\<open>int\<close>.\<close>

definition read_learner_key :: "'db store_env \<Rightarrow> 64 word \<Rightarrow> 'db \<Rightarrow> 32 word option" where
  "read_learner_key E region_id db = map_option ucast (read_i64 E (learner_key (se_big E) region_id) db)"

definition read_applied_index :: "'db store_env \<Rightarrow> 64 word \<Rightarrow> 'db \<Rightarrow> (64 word \<times> 64 word) option" where
  "read_applied_index E region_id db =
     (case rk_get (se_rocks E) db Meta_Info_Cf (applied_index_key (se_big E) region_id) of (status, value) \<Rightarrow>
        if status \<noteq> R_ok then Some (- 1, - 1)
        else case extract_i64 (se_big E) (slice_key value) 0 of None \<Rightarrow> None
          | Some applied_index \<Rightarrow>
              if length value = 16 then map_option (Pair applied_index) (extract_i64 (se_big E) (slice_key value) 8)
              else Some (applied_index, applied_index))"

text \<open>The answer of a read that finds nothing is -1.\<close>

definition read_tag :: "'db store_env \<Rightarrow> bytes \<Rightarrow> 'db \<Rightarrow> int" where
  "read_tag E key db = (if fst (rk_get (se_rocks E) db Meta_Info_Cf key) \<noteq> R_ok then -1 else 0)"

definition read_transcation_rollbacked_tag :: "'db store_env \<Rightarrow> 64 word \<Rightarrow> 64 word \<Rightarrow> 'db \<Rightarrow> int" where
  "read_transcation_rollbacked_tag E region_id txn_id = read_tag E (rollbacked_transcation_key (se_big E) region_id txn_id)"

definition read_doing_snapshot :: "'db store_env \<Rightarrow> 64 word \<Rightarrow> 'db \<Rightarrow> int" where
  "read_doing_snapshot E region_id = read_tag E (doing_snapshot_key (se_big E) region_id)"

text \<open>The lines and the index of a pre-commit; the outer option is undefined behaviour,
  the inner \<^term>\<open>None\<close> the answer -1.\<close>

definition read_pre_commit_key :: "'db store_env \<Rightarrow> 64 word \<Rightarrow> 64 word \<Rightarrow> 'db \<Rightarrow> (64 word \<times> 64 word) option option" where
  "read_pre_commit_key E region_id txn_id db =
     (case rk_get (se_rocks E) db Meta_Info_Cf (pre_commit_key (se_big E) region_id txn_id) of (status, value) \<Rightarrow>
        if status \<noteq> R_ok then Some None
        else case extract_i64 (se_big E) (slice_key value) 0 of None \<Rightarrow> None
          | Some num_table_lines \<Rightarrow>
              map_option (\<lambda>applied_index. Some (num_table_lines, applied_index))
                (extract_i64 (se_big E) (slice_key value) 8))"

text \<open>Messages: \<^term>\<open>None\<close> is the answer -1.\<close>

definition read_region_info :: "'db store_env \<Rightarrow> (bytes \<Rightarrow> 'i option) \<Rightarrow> 64 word \<Rightarrow> 'db \<Rightarrow> 'i option" where
  "read_region_info E parse region_id db =
     (case rk_get (se_rocks E) db Meta_Info_Cf (region_info_key (se_big E) region_id) of (status, value) \<Rightarrow>
        if status \<noteq> R_ok then None else parse value)"

definition read_region_ddl_info :: "'db store_env \<Rightarrow> (bytes \<Rightarrow> 'i option) \<Rightarrow> 64 word \<Rightarrow> 'db \<Rightarrow> 'i option" where
  "read_region_ddl_info E parse region_id db =
     (case rk_get (se_rocks E) db Meta_Info_Cf (region_ddl_info_key (se_big E) region_id) of (status, value) \<Rightarrow>
        if status \<noteq> R_ok then None else parse value)"

definition read_olap_info ::
  "'db store_env \<Rightarrow> (bytes \<Rightarrow> 'i option) \<Rightarrow> ('i \<Rightarrow> 'i) \<Rightarrow> 64 word \<Rightarrow> 'i \<Rightarrow> 'db \<Rightarrow> 'i option" where
  "read_olap_info E parse set_state_active region_id olap_info db =
     (case rk_get (se_rocks E) db Meta_Info_Cf (olap_key (se_big E) region_id) of
        (R_ok, value) \<Rightarrow> parse value
      | (R_not_found, _) \<Rightarrow> Some (set_state_active olap_info)
      | (R_error, _) \<Rightarrow> None)"

definition read_region_offline_binlog_info ::
  "'db store_env \<Rightarrow> (bytes \<Rightarrow> 'i option) \<Rightarrow> 64 word \<Rightarrow> 'i \<Rightarrow> 'db \<Rightarrow> 'i option" where
  "read_region_offline_binlog_info E parse region_id offline_binlog_info db =
     (case rk_get (se_rocks E) db Meta_Info_Cf (offline_binlog_key (se_big E) region_id) of
        (R_ok, value) \<Rightarrow> parse value
      | (R_not_found, _) \<Rightarrow> Some offline_binlog_info
      | (R_error, _) \<Rightarrow> None)"

definition get_watt_stats_version :: "'db store_env \<Rightarrow> 64 word \<Rightarrow> 64 word \<Rightarrow> 'db \<Rightarrow> rocks_status" where
  "get_watt_stats_version E region_id watt_stats_version db =
     fst (rk_get (se_rocks E) db Meta_Info_Cf (watt_stats_version_key (se_big E) region_id watt_stats_version))"

definition rocks_hang_check :: "'db store_env \<Rightarrow> 64 word \<Rightarrow> 'db \<Rightarrow> int \<times> 'db" where
  "rocks_hang_check E now db =
     (let key = mk_data (append_i64 (se_big E) (- 1) (append_char ROCKS_HANG_CHECK_IDENTIFY mut_key_empty)) in
      case put_meta E key (mk_data (append_i64 (se_big E) now mut_key_empty)) db of (ret, db') \<Rightarrow>
        if ret \<noteq> 0 then (-1, db') else (read_tag E key db', db'))"

section \<open>Scanning\<close>

text \<open>
  The iterators of the column family have a prefix of one byte, and no scan looks at the
  status of its iterator.
\<close>

definition scan :: "'db store_env \<Rightarrow> bytes \<Rightarrow> 'db \<Rightarrow> (bytes \<times> bytes) list" where
  "scan E key db = fst (rk_iterate (se_rocks E) db Meta_Info_Cf 1 key)"

definition scan_prefix :: "'db store_env \<Rightarrow> bytes \<Rightarrow> 'db \<Rightarrow> (bytes \<times> bytes) list" where
  "scan_prefix E key db = takeWhile (\<lambda>kv. take (length key) (fst kv) = key) (scan E key db)"

fun region_infos_loop :: "(bytes \<Rightarrow> 'i option) \<Rightarrow> (bytes \<times> bytes) list \<Rightarrow> 'i list \<Rightarrow> 'i list option" where
  "region_infos_loop parse [] region_infos = Some region_infos"
| "region_infos_loop parse ((key, value) # kvs) region_infos =
     (case extract_char (slice_key key) (1 + 8) 1 of None \<Rightarrow> None
      | Some identify \<Rightarrow>
          if identify \<noteq> REGION_INFO_IDENTIFY then region_infos_loop parse kvs region_infos
          else case parse value of None \<Rightarrow> region_infos_loop parse kvs region_infos
            | Some region_info \<Rightarrow> region_infos_loop parse kvs (region_infos @ [region_info]))"

definition parse_region_infos ::
  "'db store_env \<Rightarrow> (bytes \<Rightarrow> 'i option) \<Rightarrow> 'i list \<Rightarrow> 'db \<Rightarrow> 'i list option" where
  "parse_region_infos E parse region_infos db = region_infos_loop parse (scan E META_IDENTIFY db) region_infos"

fun doing_snapshot_loop :: "bool \<Rightarrow> (bytes \<times> bytes) list \<Rightarrow> 64 word set \<Rightarrow> 64 word set option" where
  "doing_snapshot_loop big [] region_ids = Some region_ids"
| "doing_snapshot_loop big ((key, value) # kvs) region_ids =
     (case extract_char (slice_key key) (1 + 8) 1 of None \<Rightarrow> None
      | Some identify \<Rightarrow>
          if identify \<noteq> DOING_SNAPSHOT_IDENTIFY then doing_snapshot_loop big kvs region_ids
          else case extract_i64 big (slice_key key) 1 of None \<Rightarrow> None
            | Some region_id \<Rightarrow> doing_snapshot_loop big kvs (insert region_id region_ids))"

definition parse_doing_snapshot :: "'db store_env \<Rightarrow> 64 word set \<Rightarrow> 'db \<Rightarrow> 64 word set option" where
  "parse_doing_snapshot E region_ids db = doing_snapshot_loop (se_big E) (scan E META_IDENTIFY db) region_ids"

fun txn_infos_loop :: "bool \<Rightarrow> (bytes \<times> bytes) list \<Rightarrow> (64 word \<rightharpoonup> bytes) \<Rightarrow> (64 word \<rightharpoonup> bytes) option" where
  "txn_infos_loop big [] prepared_txn_infos = Some prepared_txn_infos"
| "txn_infos_loop big ((key, value) # kvs) prepared_txn_infos =
     (case extract_i64 big (slice_key key) (if length key = 1 + 8 + 1 + 8 + 8 then 1 + 8 + 1 + 8 else 1 + 8 + 1) of
        None \<Rightarrow> None
      | Some log_index \<Rightarrow> txn_infos_loop big kvs (prepared_txn_infos(log_index \<mapsto> value)))"

definition parse_txn_infos :: "'db store_env \<Rightarrow> 64 word \<Rightarrow> (64 word \<rightharpoonup> bytes) \<Rightarrow> 'db \<Rightarrow> (64 word \<rightharpoonup> bytes) option" where
  "parse_txn_infos E region_id prepared_txn_infos db =
     txn_infos_loop (se_big E) (scan_prefix E (transcation_pb_key_prefix (se_big E) region_id) db) prepared_txn_infos"

fun txn_log_indexs_loop ::
  "bool \<Rightarrow> (bytes \<times> bytes) list \<Rightarrow> (64 word \<rightharpoonup> 64 word) \<Rightarrow> (64 word \<rightharpoonup> 64 word) option" where
  "txn_log_indexs_loop big [] log_indexs = Some log_indexs"
| "txn_log_indexs_loop big ((key, value) # kvs) log_indexs =
     (case extract_i64 big (slice_key value) 0 of None \<Rightarrow> None
      | Some log_index \<Rightarrow>
          (case decode_log_index_key big key of None \<Rightarrow> None
           | Some txn_id \<Rightarrow> txn_log_indexs_loop big kvs (log_indexs(txn_id \<mapsto> log_index))))"

definition parse_txn_log_indexs ::
  "'db store_env \<Rightarrow> 64 word \<Rightarrow> (64 word \<rightharpoonup> 64 word) \<Rightarrow> 'db \<Rightarrow> (64 word \<rightharpoonup> 64 word) option" where
  "parse_txn_log_indexs E region_id log_indexs db =
     txn_log_indexs_loop (se_big E) (scan_prefix E (log_index_key_prefix (se_big E) region_id) db) log_indexs"

section \<open>Clearing the versions of a rollup\<close>

text \<open>
  The loop looks for the first version that is not there: \<^term>\<open>Inr\<close> is the break with
  the version reached, \<^term>\<open>Inl\<close> the return of the error branch. The branch of a version that
  is there continues before the increment, with the same version. A loop that does
  not end is \<^term>\<open>None\<close>.
\<close>

partial_function (option) find_batch_version ::
  "'db store_env \<Rightarrow> 64 word \<Rightarrow> 64 word \<Rightarrow> 'db \<Rightarrow> (int + 64 word) option" where
  "find_batch_version E region_id rollup_batch_version db =
     (case get_watt_stats_version E region_id rollup_batch_version db of
        R_ok \<Rightarrow> find_batch_version E region_id rollup_batch_version db
      | R_not_found \<Rightarrow> Some (Inr rollup_batch_version)
      | R_error \<Rightarrow> Some (Inl (- 1)))"

definition clear_rollup_batch_version :: "'db store_env \<Rightarrow> 64 word \<Rightarrow> 'db \<Rightarrow> (int \<times> 'db) option" where
  "clear_rollup_batch_version E region_id db =
     (case find_batch_version E region_id 1 db of
        None \<Rightarrow> None
      | Some (Inl ret) \<Rightarrow> Some (ret, db)
      | Some (Inr rollup_batch_version) \<Rightarrow>
          Some (if rollup_batch_version \<noteq> 1
                then clear_range E (watt_stats_version_key (se_big E) region_id 1)
                       (watt_stats_version_key (se_big E) region_id rollup_batch_version) db
                else (0, db)))"

end
