(* ===== verification/MetaWriterSteps.thy ===== *)
theory MetaWriterSteps
  imports MetaWriter
begin

text \<open>
  The shape of the rows of a region, what each operation of \<^verbatim>\<open>MetaWriter\<close> may touch, and
  the operations as one step function, \<open>mw_call\<close>.
\<close>

section \<open>The keys as byte strings\<close>

definition own_prefix :: "64 word \<Rightarrow> bytes" where
  "own_prefix r = 1 # be_bytes 8 (encode_i64 r)"

lemma length_own_prefix [simp]: "length (own_prefix r) = 9"
  by (simp add: own_prefix_def)

lemma be_bytes_8_inject [simp]: "be_bytes 8 (v :: 64 word) = be_bytes 8 w \<longleftrightarrow> v = w"
  by (metis be_bytes_inverse len_num0 len_bit0 len_num1 mult_2_right numeral_Bit0 to_endian_mem_u64)

lemma encode_i64_inject [simp]: "encode_i64 v = encode_i64 w \<longleftrightarrow> v = w"
  by (metis decode_encode_int(4))

lemma own_prefix_inject [simp]: "own_prefix r = own_prefix r' \<longleftrightarrow> r = r'"
  by (simp add: own_prefix_def)

lemmas identify_defs = META_IDENTIFY_def APPLIED_INDEX_INDENTIFY_def NUM_TABLE_LINE_INDENTIFY_def
  PREPARED_TXN_LOG_INDEX_IDENTIFY_def PREPARED_TXN_PB_IDENTIYF_def REGION_INFO_IDENTIFY_def
  PRE_COMMIT_IDENTIFY_def DOING_SNAPSHOT_IDENTIFY_def REGION_DDL_INFO_IDENTIFY_def
  ROLLBACKED_TXN_IDENTIFY_def BINLOG_CHECK_POINT_IDENTIFY_def BINLOG_OLDEST_IDENTIFY_def
  LEARNER_IDENTIFY_def LOCAL_STORAGE_IDENTIFY_def OLAP_REGION_IDENTIFY_def
  REGION_OFFLINE_BINLOG_IDENTIFY_def WATT_STATS_VERSION_IDENTIFY_def
  ROLLUP_REGION_INIT_INDEX_INDENTIFY_def

lemma region_key_data:
  "mk_data (region_key big [i] r) = own_prefix r @ [i]"
  "mk_data (key_append bs k) = mk_data k @ bs" "mk_data mut_key_empty = []"
  by (simp_all add: region_key_def append_char_def append_enc key_append_def mut_key_empty_def
      META_IDENTIFY_def own_prefix_def)

lemma key_forms:
  "applied_index_key big r = own_prefix r @ [1]"
  "num_table_lines_key big r = own_prefix r @ [2]"
  "log_index_key_prefix big r = own_prefix r @ [3]"
  "transcation_log_index_key big r t = own_prefix r @ 3 # be_bytes 8 t"
  "transcation_pb_key_prefix big r = own_prefix r @ [4]"
  "transcation_pb_key big r t l = own_prefix r @ 4 # be_bytes 8 t @ be_bytes 8 (encode_i64 l)"
  "region_info_key big r = own_prefix r @ [5]"
  "pre_commit_key big r t = own_prefix r @ 6 # be_bytes 8 t"
  "doing_snapshot_key big r = own_prefix r @ [7]"
  "region_ddl_info_key big r = own_prefix r @ [8]"
  "rollbacked_transcation_key big r t = own_prefix r @ 9 # be_bytes 8 t"
  "binlog_check_point_key big r = own_prefix r @ [10]"
  "binlog_oldest_ts_key big r = own_prefix r @ [11]"
  "learner_key big r = own_prefix r @ [12]"
  "encode_removed_ddl_key big r i = own_prefix r @ 13 # be_bytes 8 (encode_i64 i)"
  "olap_key big r = own_prefix r @ [14]"
  "offline_binlog_key big r = own_prefix r @ [15]"
  "watt_stats_version_key big r v = own_prefix r @ 16 # be_bytes 8 v"
  "rollup_region_init_index_key big r = own_prefix r @ [17]"
  by (simp_all only: applied_index_key_def num_table_lines_key_def log_index_key_prefix_def
      transcation_log_index_key_def transcation_pb_key_prefix_def transcation_pb_key_def
      region_info_key_def pre_commit_key_def doing_snapshot_key_def region_ddl_info_key_def
      rollbacked_transcation_key_def binlog_check_point_key_def binlog_oldest_ts_key_def
      learner_key_def encode_removed_ddl_key_def olap_key_def offline_binlog_key_def
      watt_stats_version_key_def rollup_region_init_index_key_def identify_defs append_enc
      region_key_data append.simps append_assoc)

lemma value_forms:
  "encode_applied_index big a d = be_bytes 8 (encode_i64 a) @ be_bytes 8 (encode_i64 d)"
  "encode_num_table_lines big n = be_bytes 8 (encode_i64 n)"
  "encode_transcation_log_index_value big n = be_bytes 8 (encode_i64 n)"
  "encode_binlog_ts big n = be_bytes 8 (encode_i64 n)"
  "encode_learner_flag big n = be_bytes 8 (encode_i64 n)"
  "encode_rollup_region_init_index big n = be_bytes 8 (encode_i64 n)"
  by (simp_all add: encode_applied_index_def encode_num_table_lines_def
      encode_transcation_log_index_value_def encode_binlog_ts_def encode_learner_flag_def
      encode_rollup_region_init_index_def append_enc region_key_data)

lemma read_forms [simp]:
  "extract_i64 big (slice_key (be_bytes 8 (encode_i64 a))) 0 = Some a"
  "extract_i64 big (slice_key (be_bytes 8 (encode_i64 a) @ post)) 0 = Some a"
  "extract_i64 big (slice_key (be_bytes 8 (encode_i64 a) @ be_bytes 8 (encode_i64 b))) 8 = Some b"
  "extract_i64 big (slice_key (own_prefix r @ post)) 1 = Some r"
  "decode_log_index_key big (own_prefix r @ i # be_bytes 8 t) = Some t"
  using extract_at(9) [of "slice_key (be_bytes 8 (encode_i64 a))" "[]" a "[]" big]
    extract_at(9) [of "slice_key (be_bytes 8 (encode_i64 a) @ post)" "[]" a post big]
    extract_at(9) [of "slice_key (be_bytes 8 (encode_i64 a) @ be_bytes 8 (encode_i64 b))"
      "be_bytes 8 (encode_i64 a)" b "[]" big]
    extract_at(9) [of "slice_key (own_prefix r @ post)" "[1]" r post big]
    extract_at(8) [of "slice_key (own_prefix r @ i # be_bytes 8 t)" "own_prefix r @ [i]" t "[]" big]
  by (simp_all add: slice_key_def own_prefix_def decode_log_index_key_def)

section \<open>Ranges\<close>

lemma lex_between:
  "p @ x \<le> k \<Longrightarrow> k < p @ (y :: bytes) \<Longrightarrow> \<exists>s. k = p @ s \<and> x \<le> s \<and> s < y"
proof (induction p arbitrary: k)
  case (Cons a p)
  then obtain b k' where k: "k = b # k'" by (cases k) auto
  with Cons.prems have "b = a" "p @ x \<le> k'" "k' < p @ y" by auto
  with Cons.IH k show ?case by auto
qed simp

text \<open>A range of one kind of rows of a region.\<close>

lemma range_rows:
  "own_prefix r @ i # x \<le> k \<Longrightarrow> k < own_prefix r @ i # y \<Longrightarrow>
   \<exists>s. k = own_prefix r @ i # s \<and> x \<le> s \<and> s < y"
  using lex_between [of "own_prefix r @ [i]" x k y] by simp

section \<open>What an operation touches\<close>

text \<open>Outside the rows of region \<open>r\<close> two states of the store agree.\<close>

definition own :: "64 word \<Rightarrow> bytes \<Rightarrow> bool" where
  "own r k \<longleftrightarrow> take 9 k = own_prefix r"

definition only_own :: "64 word \<Rightarrow> contents \<Rightarrow> contents \<Rightarrow> bool" where
  "only_own r c c' \<longleftrightarrow> (\<forall>cf k. cf \<noteq> Meta_Info_Cf \<or> \<not> own r k \<longrightarrow> c' cf k = c cf k)"

fun op_own :: "64 word \<Rightarrow> write_op \<Rightarrow> bool" where
  "op_own r (W_put cf k v) \<longleftrightarrow> cf = Meta_Info_Cf \<and> own r k"
| "op_own r (W_delete cf k) \<longleftrightarrow> cf = Meta_Info_Cf \<and> own r k"
| "op_own r (W_delete_range cf b e) \<longleftrightarrow> cf = Meta_Info_Cf \<and> (\<forall>k. b \<le> k \<and> k < e \<longrightarrow> own r k)"

lemma own_append [simp]: "own r (own_prefix r' @ s) \<longleftrightarrow> r = r'"
  by (auto simp: own_def)

lemma only_own_refl [simp]: "only_own r c c"
  by (simp add: only_own_def)

lemma only_own_trans [trans]: "only_own r c c' \<Longrightarrow> only_own r c' c'' \<Longrightarrow> only_own r c c''"
  by (simp add: only_own_def)

lemma only_own_op: "op_own r w \<Longrightarrow> only_own r c (apply_op w c)"
  by (cases w) (auto simp: only_own_def)

lemma only_own_ops: "list_all (op_own r) ws \<Longrightarrow> only_own r c (fold apply_op ws c)"
  by (induction ws arbitrary: c) (auto intro: only_own_trans only_own_op)

lemma range_own: "op_own r (W_delete_range Meta_Info_Cf (own_prefix r @ i # x) (own_prefix r @ i # y))"
  unfolding op_own.simps
proof (intro conjI allI impI refl, elim conjE)
  fix k assume "own_prefix r @ i # x \<le> k" "k < own_prefix r @ i # y"
  then obtain s where "k = own_prefix r @ i # s" using range_rows by blast
  then show "own r k" by simp
qed

text \<open>The three ways in which the operations change the store, whether or not they succeed.\<close>

definition keeps_others :: "('db \<Rightarrow> contents) \<Rightarrow> 64 word \<Rightarrow> ('db \<Rightarrow> int \<times> 'db) \<Rightarrow> bool" where
  "keeps_others C r f \<longleftrightarrow> (\<forall>db. only_own r (C db) (C (snd (f db))))"

lemma put_meta_others:
  assumes "rocks_ok (se_rocks E) C" and "own r k"
  shows "keeps_others C r (put_meta E k v)"
  unfolding keeps_others_def
proof
  fix db
  obtain st db' where p: "rk_put (se_rocks E) db Meta_Info_Cf k v = (st, db')" by force
  show "only_own r (C db) (C (snd (put_meta E k v db)))"
    using rocks_put [OF assms(1) p] only_own_op [of r "W_put Meta_Info_Cf k v"] assms(2)
    by (simp add: put_meta_def p del: apply_op.simps)
qed

lemma write_batch_others:
  assumes "rocks_ok (se_rocks E) C" and "list_all (op_own r) ws"
  shows "keeps_others C r (write_batch E ws)"
  unfolding keeps_others_def
proof
  fix db
  obtain st db' where p: "rk_write (se_rocks E) db ws = (st, db')" by force
  show "only_own r (C db) (C (snd (write_batch E ws db)))"
    using rocks_write [OF assms(1) p] only_own_ops [OF assms(2)] by (simp add: write_batch_def p)
qed

lemma clear_range_write:
  "clear_range E b e = write_batch E [W_delete_range Meta_Info_Cf b e]"
  by (simp add: clear_range_def write_batch_def remove_range_def fun_eq_iff)

lemma clear_range_others:
  "rocks_ok (se_rocks E) C \<Longrightarrow> keeps_others C r (clear_range E (own_prefix r @ i # x) (own_prefix r @ i # y))"
  unfolding clear_range_write by (rule write_batch_others) (simp_all only: list.pred_inject range_own simp_thms)

lemma keeps_others_ret [simp]: "keeps_others C r (Pair x)"
  by (simp add: keeps_others_def)

section \<open>The operations as steps\<close>

text \<open>
  A call of an operation that writes to the database, with its arguments other than the region. A
  message is given by what it serialises to, \<^term>\<open>None\<close> if it does not.
\<close>

datatype mw_op =
    Init_Meta_Info "bytes option"
  | Update_Region_Info "bytes option"
  | Update_Region_Ddl_Info "bytes option"
  | Update_Num_Table_Lines "64 word"
  | Update_Apply_Index "64 word" "64 word"
  | Update_Rollup_Region_Init_Index "64 word"
  | Write_Pre_Commit "64 word" "64 word" "64 word"
  | Write_Doing_Snapshot
  | Write_Meta_After_Commit "64 word" "64 word" "64 word" "64 word" bool
  | Clear_Error_Pre_Commit "64 word"
  | Write_Meta_Begin_Index "64 word" "64 word" "64 word"
  | Write_Binlog_Check_Point "64 word"
  | Write_Binlog_Oldest_Ts "64 word"
  | Write_Learner_Key bool
  | Write_Olap_Info "bytes option"
  | Write_Region_Offline_Binlog_Info "bytes option"
  | Clear_Txn_Log_Index
  | Clear_Txn_Infos
  | Clear_Pre_Commit_Infos
  | Clear_Watt_Stats_Version
  | Clear_Meta_Info
  | Clear_All_Meta_Info
  | Clear_Unapplied_Begin_Index
  | Clear_Doing_Snapshot
  | Clear_Region_Info

fun mw_call :: "'db store_env \<Rightarrow> 64 word \<Rightarrow> mw_op \<Rightarrow> 'db \<Rightarrow> int \<times> 'db" where
  "mw_call E r (Init_Meta_Info m) = init_meta_info E id (\<lambda>_. r) m"
| "mw_call E r (Update_Region_Info m) = update_region_info E id (\<lambda>_. r) m"
| "mw_call E r (Update_Region_Ddl_Info m) = update_region_ddl_info E id (\<lambda>_. r) m"
| "mw_call E r (Update_Num_Table_Lines n) = update_num_table_lines E r n"
| "mw_call E r (Update_Apply_Index a d) = update_apply_index E r a d"
| "mw_call E r (Update_Rollup_Region_Init_Index i) = update_rollup_region_init_index E r i"
| "mw_call E r (Write_Pre_Commit t n a) = write_pre_commit E r t n a"
| "mw_call E r Write_Doing_Snapshot = write_doing_snapshot E r"
| "mw_call E r (Write_Meta_After_Commit n a d t rollback) = write_meta_after_commit E r n a d t rollback"
| "mw_call E r (Clear_Error_Pre_Commit t) = clear_error_pre_commit E r t"
| "mw_call E r (Write_Meta_Begin_Index l d t) = write_meta_begin_index E r l d t"
| "mw_call E r (Write_Binlog_Check_Point ts) = write_binlog_check_point E r ts"
| "mw_call E r (Write_Binlog_Oldest_Ts ts) = write_binlog_oldest_ts E r ts"
| "mw_call E r (Write_Learner_Key b) = write_learner_key E r b"
| "mw_call E r (Write_Olap_Info m) = write_olap_info E id r m"
| "mw_call E r (Write_Region_Offline_Binlog_Info m) = write_region_offline_binlog_info E id r m"
| "mw_call E r Clear_Txn_Log_Index = clear_txn_log_index E r"
| "mw_call E r Clear_Txn_Infos = clear_txn_infos E r"
| "mw_call E r Clear_Pre_Commit_Infos = clear_pre_commit_infos E r"
| "mw_call E r Clear_Watt_Stats_Version = clear_watt_stats_version E r"
| "mw_call E r Clear_Meta_Info = clear_meta_info E r"
| "mw_call E r Clear_All_Meta_Info = clear_all_meta_info E r"
| "mw_call E r Clear_Unapplied_Begin_Index = clear_unapplied_begin_index E r"
| "mw_call E r Clear_Doing_Snapshot = clear_doing_snapshot E r"
| "mw_call E r Clear_Region_Info = clear_region_info E r"

fun mw_run :: "'db store_env \<Rightarrow> (64 word \<times> mw_op) list \<Rightarrow> 'db \<Rightarrow> 'db" where
  "mw_run E [] db = db"
| "mw_run E ((r, call) # calls) db = mw_run E calls (snd (mw_call E r call db))"

text \<open>Every operation is a put, a batch, or a sequence of them.\<close>

lemmas mw_put_defs = update_region_info_def update_region_ddl_info_def update_num_table_lines_def
  update_apply_index_def update_rollup_region_init_index_def write_pre_commit_def
  write_doing_snapshot_def write_binlog_check_point_def write_binlog_oldest_ts_def
  write_learner_key_def write_olap_info_def write_region_offline_binlog_info_def

lemmas mw_batch_defs = init_meta_info_def write_meta_after_commit_def clear_error_pre_commit_def
  write_meta_begin_index_def clear_unapplied_begin_index_def clear_doing_snapshot_def
  clear_region_info_def

lemmas mw_range_defs = clear_txn_log_index_def clear_txn_infos_def clear_pre_commit_infos_def
  clear_watt_stats_version_def

lemma keeps_others_if:
  "keeps_others C r f \<Longrightarrow> keeps_others C r g \<Longrightarrow> keeps_others C r (\<lambda>db. if P then f db else g db)"
  by (simp add: keeps_others_def)

lemma keeps_others_case:
  "keeps_others C r f \<Longrightarrow> (\<And>x. keeps_others C r (g x)) \<Longrightarrow>
   keeps_others C r (\<lambda>db. case y of None \<Rightarrow> f db | Some x \<Rightarrow> g x db)"
  by (cases y) (simp_all add: keeps_others_def)

lemma keeps_others_then:
  "keeps_others C r f \<Longrightarrow> keeps_others C r g \<Longrightarrow>
   keeps_others C r (\<lambda>db. case f db of (ret, db') \<Rightarrow> if P ret then (h ret, db') else g db')"
  unfolding keeps_others_def by (auto split: prod.splits) (metis only_own_trans snd_conv)+

lemma clear_ranges_others:
  assumes "rocks_ok (se_rocks E) C"
  shows "keeps_others C r (clear_txn_infos E r)" and "keeps_others C r (clear_txn_log_index E r)"
    and "keeps_others C r (clear_pre_commit_infos E r)" and "keeps_others C r (clear_watt_stats_version E r)"
  using clear_range_others [OF assms] by (simp_all add: mw_range_defs key_forms)

lemma clear_txns_others:
  assumes "rocks_ok (se_rocks E) C"
  shows "keeps_others C r (clear_txns E r)"
proof -
  have "keeps_others C r (\<lambda>db. case clear_pre_commit_infos E r db of (ret, db') \<Rightarrow> if ret < 0 then (ret, db') else (0, db'))"
    by (rule keeps_others_then [where h = "\<lambda>x. x"]) (simp_all add: clear_ranges_others assms)
  from keeps_others_then [where h = "\<lambda>x. x" and P = "\<lambda>x. x < 0", OF clear_ranges_others(1) [OF assms]
      keeps_others_then [where h = "\<lambda>x. x" and P = "\<lambda>x. x < 0", OF clear_ranges_others(2) [OF assms] this]]
  show ?thesis by (simp add: clear_txns_def [abs_def])
qed

lemma mw_call_others:
  assumes ok: "rocks_ok (se_rocks E) C"
  shows "keeps_others C r (mw_call E r call)"
proof -
  note p = put_meta_others [OF ok] and b = write_batch_others [OF ok]
  have m: "keeps_others C r (clear_meta_info E r)" "keeps_others C r (clear_all_meta_info E r)"
    unfolding clear_meta_info_def [abs_def] clear_all_meta_info_def [abs_def]
    by (rule keeps_others_then [where h = "\<lambda>_. -1"]; simp add: b clear_txns_others ok key_forms)+
  show ?thesis
    by (cases call)
       (simp_all add: mw_put_defs [abs_def] mw_batch_defs [abs_def] Let_def p b m clear_ranges_others ok
         key_forms keeps_others_if keeps_others_case)
qed

section \<open>Views of the store\<close>

text \<open>
  A view relates the contents of the store to an abstract state on which each call has an effect
  of its own. If the calls keep the relation, so do runs of them.
\<close>

fun abs_run :: "(64 word \<Rightarrow> mw_op \<Rightarrow> 'a \<Rightarrow> 'a) \<Rightarrow> (64 word \<times> mw_op) list \<Rightarrow> 'a \<Rightarrow> 'a" where
  "abs_run step [] a = a"
| "abs_run step ((r, call) # calls) a = abs_run step calls (step r call a)"

locale store_view =
  fixes E :: "'db store_env" and C :: "'db \<Rightarrow> contents"
    and view :: "contents \<Rightarrow> 'a \<Rightarrow> bool" and step :: "64 word \<Rightarrow> mw_op \<Rightarrow> 'a \<Rightarrow> 'a"
  assumes view_step: "rocks_ok (se_rocks E) C \<Longrightarrow> rocks_up (se_rocks E) \<Longrightarrow> view (C db) a \<Longrightarrow>
    view (C (snd (mw_call E r call db))) (step r call a)"
begin

lemma view_run:
  assumes ok: "rocks_ok (se_rocks E) C" and up: "rocks_up (se_rocks E)"
  shows "view (C db) a \<Longrightarrow> view (C (mw_run E calls db)) (abs_run step calls a)"
proof (induction calls arbitrary: db a)
  case (Cons rc calls)
  obtain r call where rc: "rc = (r, call)" by force
  from Cons.IH [OF view_step [OF ok up Cons.prems]] show ?case unfolding rc mw_run.simps abs_run.simps .
qed simp

end

end
