(* ===== verification/MetaWriterTxns.thy ===== *)
theory MetaWriterTxns
  imports MetaWriterSteps
begin

text \<open>
  The prepared transactions of a region as an abstract map from the transaction to the index
  of its first log entry, and the rows and scans of \<^verbatim>\<open>MetaWriter\<close> that implement it.
\<close>

section \<open>The operations on a store that is up\<close>

lemma put_meta_up:
  assumes ok: "rocks_ok (se_rocks E) C" and up: "rocks_up (se_rocks E)"
  shows "fst (put_meta E k v db) = 0"
    and "C (snd (put_meta E k v db)) = apply_op (W_put Meta_Info_Cf k v) (C db)"
proof -
  obtain st db' where p: "rk_put (se_rocks E) db Meta_Info_Cf k v = (st, db')" by force
  moreover have "st = R_ok" using up p by (metis fst_conv rocks_up_def)
  ultimately show "fst (put_meta E k v db) = 0"
    and "C (snd (put_meta E k v db)) = apply_op (W_put Meta_Info_Cf k v) (C db)"
    using rocks_put [OF ok p] by (simp_all add: put_meta_def del: apply_op.simps)
qed

lemma write_batch_up:
  assumes ok: "rocks_ok (se_rocks E) C" and up: "rocks_up (se_rocks E)"
  shows "fst (write_batch E ws db) = 0" and "C (snd (write_batch E ws db)) = fold apply_op ws (C db)"
proof -
  obtain st db' where p: "rk_write (se_rocks E) db ws = (st, db')" by force
  moreover have "st = R_ok" using up p by (metis fst_conv rocks_up_def)
  ultimately show "fst (write_batch E ws db) = 0" and "C (snd (write_batch E ws db)) = fold apply_op ws (C db)"
    using rocks_write [OF ok p] by (simp_all add: write_batch_def)
qed

text \<open>What the three ranges of \<open>clear_txns\<close> cover.\<close>

definition txn_ranges :: "64 word \<Rightarrow> write_op list" where
  "txn_ranges r =
     [W_delete_range Meta_Info_Cf (own_prefix r @ 4 # be_bytes 8 (0 :: 64 word) @ be_bytes 8 (encode_i64 0))
        (own_prefix r @ 4 # be_bytes 8 (- 1 :: 64 word) @ be_bytes 8 (encode_i64 0x7FFFFFFFFFFFFFFF)),
      W_delete_range Meta_Info_Cf (own_prefix r @ 3 # be_bytes 8 (0 :: 64 word)) (own_prefix r @ 3 # be_bytes 8 (- 1 :: 64 word)),
      W_delete_range Meta_Info_Cf (own_prefix r @ 6 # be_bytes 8 (0 :: 64 word)) (own_prefix r @ 6 # be_bytes 8 (- 1 :: 64 word))]"

lemma clear_txns_up:
  assumes ok: "rocks_ok (se_rocks E) C" and up: "rocks_up (se_rocks E)"
  shows "fst (clear_txns E r db) = 0" and "C (snd (clear_txns E r db)) = fold apply_op (txn_ranges r) (C db)"
  using write_batch_up [OF ok up]
  by (auto simp: clear_txns_def mw_range_defs clear_range_write key_forms txn_ranges_def
      prod_eq_iff split: prod.splits)

lemma clear_meta_up:
  assumes ok: "rocks_ok (se_rocks E) C" and up: "rocks_up (se_rocks E)"
  shows "fst (clear_meta_info E r db) = 0"
    and "C (snd (clear_meta_info E r db)) = fold apply_op (txn_ranges r)
      (fold apply_op (map (\<lambda>i. W_delete Meta_Info_Cf (own_prefix r @ [i])) [1, 2]) (C db))"
    and "fst (clear_all_meta_info E r db) = 0"
    and "C (snd (clear_all_meta_info E r db)) = fold apply_op (txn_ranges r)
      (fold apply_op (map (\<lambda>i. W_delete Meta_Info_Cf (own_prefix r @ [i])) [5, 1, 2, 7, 12]) (C db))"
  using write_batch_up [OF ok up] clear_txns_up [OF ok up]
  by (simp_all add: clear_meta_info_def clear_all_meta_info_def key_forms case_prod_unfold)

section \<open>The abstract map\<close>

fun txn_step :: "mw_op \<Rightarrow> (64 word \<rightharpoonup> 64 word) \<Rightarrow> (64 word \<rightharpoonup> 64 word)" where
  "txn_step (Write_Meta_Begin_Index log_index _ t) m = (if log_index = 0 then m else m(t \<mapsto> log_index))"
| "txn_step (Write_Meta_After_Commit _ applied_index _ t _) m = (if applied_index = 0 then m else m(t := None))"
| "txn_step (Clear_Error_Pre_Commit t) m = m(t := None)"
| "txn_step Clear_Txn_Log_Index m = m |` {- 1}"
| "txn_step Clear_Meta_Info m = m |` {- 1}"
| "txn_step Clear_All_Meta_Info m = m |` {- 1}"
| "txn_step _ m = m"

definition txn_run :: "64 word \<Rightarrow> (64 word \<times> mw_op) list \<Rightarrow> (64 word \<rightharpoonup> 64 word) \<Rightarrow> (64 word \<rightharpoonup> 64 word)" where
  "txn_run r = abs_run (\<lambda>r' call m. if r' = r then txn_step call m else m)"

text \<open>The rows of the column family that stand for the map.\<close>

definition log_view :: "64 word \<Rightarrow> contents \<Rightarrow> bytes \<rightharpoonup> bytes" where
  "log_view r c s = c Meta_Info_Cf (own_prefix r @ 3 # s)"

definition log_rows :: "(bytes \<rightharpoonup> bytes) \<Rightarrow> (64 word \<rightharpoonup> 64 word) \<Rightarrow> bool" where
  "log_rows w m \<longleftrightarrow> (\<forall>s v. w s = Some v \<longleftrightarrow>
     (\<exists>t l. s = be_bytes 8 t \<and> v = be_bytes 8 (encode_i64 l) \<and> m t = Some l))"

lemma log_rows_put: "log_rows w m \<Longrightarrow> log_rows (w(be_bytes 8 t \<mapsto> be_bytes 8 (encode_i64 l))) (m(t \<mapsto> l))"
  by (auto simp: log_rows_def)

lemma log_rows_delete: "log_rows w m \<Longrightarrow> log_rows (w(be_bytes 8 t := None)) (m(t := None))"
  by (auto simp: log_rows_def)

lemma be_bytes_range:
  "be_bytes 8 (0 :: 64 word) \<le> be_bytes 8 (t :: 64 word) \<and> be_bytes 8 t < be_bytes 8 (- 1 :: 64 word) \<longleftrightarrow> t \<noteq> - 1"
  using be_bytes_less_iff [of 8 t "- 1"] be_bytes_less_iff [of 8 t 0]
  by (auto simp: not_less [symmetric] word_order.not_eq_extremum)

lemma log_rows_range:
  "log_rows w m \<Longrightarrow>
   log_rows (\<lambda>s. if be_bytes 8 (0 :: 64 word) \<le> s \<and> s < be_bytes 8 (- 1 :: 64 word) then None else w s) (m |` {- 1})"
  using be_bytes_range unfolding log_rows_def restrict_map_def by (smt (verit) option.distinct(1) singleton_iff)

lemma log_view_op:
  "log_view r (apply_op (W_put Meta_Info_Cf (own_prefix r @ i # x) v) c) =
     (if i = 3 then (log_view r c)(x \<mapsto> v) else log_view r c)"
  "log_view r (apply_op (W_delete Meta_Info_Cf (own_prefix r @ i # x)) c) =
     (if i = 3 then (log_view r c)(x := None) else log_view r c)"
  by (auto simp: log_view_def fun_eq_iff)

lemma log_view_range:
  "log_view r (apply_op (W_delete_range Meta_Info_Cf (own_prefix r @ i # x) (own_prefix r @ i # y)) c) =
     (if i = 3 then (\<lambda>s. if x \<le> s \<and> s < y then None else log_view r c s) else log_view r c)"
  by (auto simp: log_view_def fun_eq_iff lex_append_same not_less [symmetric] dest!: range_rows)

section \<open>Every operation implements its abstract step\<close>

lemma log_view_txn_ranges:
  "log_view r (fold apply_op (txn_ranges r) c) =
     (\<lambda>s. if be_bytes 8 (0 :: 64 word) \<le> s \<and> s < be_bytes 8 (- 1 :: 64 word) then None else log_view r c s)"
  by (simp add: txn_ranges_def log_view_range del: apply_op.simps cong: if_cong)

lemma log_view_others:
  assumes "only_own r' c c'" and "r' \<noteq> r"
  shows "log_view r c' = log_view r c"
  using assms by (auto simp: log_view_def only_own_def fun_eq_iff)

lemma mw_call_txn_step:
  assumes ok: "rocks_ok (se_rocks E) C" and up: "rocks_up (se_rocks E)"
    and rows: "log_rows (log_view r (C db)) m"
  shows "log_rows (log_view r (C (snd (mw_call E r call db)))) (txn_step call m)"
proof -
  note u = put_meta_up [OF ok up] write_batch_up [OF ok up] clear_meta_up [OF ok up]
  show ?thesis
    by (cases call)
       (simp_all add: mw_put_defs mw_batch_defs mw_range_defs clear_range_write u key_forms value_forms
         Let_def log_view_op log_view_range log_view_txn_ranges log_rows_put log_rows_delete log_rows_range rows
         del: apply_op.simps split: option.split)
qed

lemma mw_call_txn_view:
  assumes ok: "rocks_ok (se_rocks E) C" and up: "rocks_up (se_rocks E)" and rows: "log_rows (log_view r (C db)) m"
  shows "log_rows (log_view r (C (snd (mw_call E r' call db)))) (if r' = r then txn_step call m else m)"
proof (cases "r' = r")
  case True
  then show ?thesis using mw_call_txn_step [OF ok up rows] by simp
next
  case False
  have "only_own r' (C db) (C (snd (mw_call E r' call db)))"
    using mw_call_others [OF ok, of r' call] unfolding keeps_others_def by blast
  from log_view_others [OF this False] show ?thesis using rows False by (simp only: if_False)
qed

interpretation txns: store_view E C "\<lambda>c. log_rows (log_view r c)" "\<lambda>r' call m. if r' = r then txn_step call m else m"
  for E C r
  by unfold_locales (rule mw_call_txn_view)

section \<open>Scanning a prefix\<close>

text \<open>The keys from a prefix on that have the prefix come first.\<close>

lemma takeWhile_prefix:
  assumes "sorted_wrt (<) (map fst kvs)" and "\<forall>kv \<in> set kvs. p \<le> fst kv"
  shows "takeWhile (\<lambda>kv. take (length p) (fst kv) = p) kvs =
    filter (\<lambda>kv. take (length p) (fst kv) = (p :: bytes)) kvs"
  using assms
proof (induction kvs)
  case (Cons kv kvs)
  have IH: "takeWhile (\<lambda>kv. take (length p) (fst kv) = p) kvs = filter (\<lambda>kv. take (length p) (fst kv) = p) kvs"
    using Cons by simp
  show ?case
  proof (cases "take (length p) (fst kv) = p")
    case True
    then show ?thesis using IH by simp
  next
    case False
    have "take (length p) (fst kv') \<noteq> p" if "kv' \<in> set kvs" for kv'
    proof
      assume t: "take (length p) (fst kv') = p"
      have le: "p @ [] \<le> fst kv" and less: "fst kv < fst kv'" using Cons.prems that by simp_all
      have "fst kv' = p @ drop (length p) (fst kv')" using t by (metis append_take_drop_id)
      with less have "fst kv < p @ drop (length p) (fst kv')" by simp
      from lex_between [OF le this] False show False by auto
    qed
    then have "filter (\<lambda>kv. take (length p) (fst kv) = p) kvs = []" unfolding filter_empty_conv by blast
    with False show ?thesis by simp
  qed
qed simp

lemma lex_le_append: "(p :: bytes) \<le> p @ s"
  using lex_append_same [of p s "[]"] by (metis append_Nil2 not_less not_less_Nil)

lemma set_scan_prefix:
  assumes "rocks_ok (se_rocks E) C" and "rocks_readable (se_rocks E)" and "p \<noteq> []"
  shows "(k, v) \<in> set (scan_prefix E p db) \<longleftrightarrow> (\<exists>s. k = p @ s) \<and> C db Meta_Info_Cf k = Some v"
    and "distinct (map fst (scan_prefix E p db))"
proof -
  obtain kvs where it: "rk_iterate (se_rocks E) db Meta_Info_Cf 1 p = (kvs, R_ok)"
    using rocks_readable_iterate [OF assms(2)] .
  note i = rocks_iterate [OF assms(1) it, unfolded iterates_def]
  have f: "scan_prefix E p db = filter (\<lambda>kv. take (length p) (fst kv) = p) kvs"
    unfolding scan_prefix_def scan_def it fst_conv by (rule takeWhile_prefix) (use i in auto)
  have p: "take (length p) k = p \<longleftrightarrow> (\<exists>s. k = p @ s)" by (metis append_eq_conv_conj append_take_drop_id)
  show "(k, v) \<in> set (scan_prefix E p db) \<longleftrightarrow> (\<exists>s. k = p @ s) \<and> C db Meta_Info_Cf k = Some v"
  proof -
    have "p \<le> p @ s \<and> take 1 (p @ s) = take 1 p" for s
      using assms(3) lex_le_append by (cases p) auto
    then show ?thesis unfolding f using i p by auto
  qed
  show "distinct (map fst (scan_prefix E p db))"
    unfolding f using i by (simp add: strict_sorted_iff distinct_map_filter)
qed

lemma txn_log_indexs_loop_rows:
  assumes "\<forall>(k, v) \<in> set kvs. \<exists>(t :: 64 word) l. k = own_prefix r @ 3 # be_bytes 8 t \<and> v = be_bytes 8 (encode_i64 l)"
    and "distinct (map fst kvs)"
  shows "\<exists>m. txn_log_indexs_loop big kvs acc = Some m \<and> (\<forall>t :: 64 word. m t =
    (case map_of kvs (own_prefix r @ 3 # be_bytes 8 t) of None \<Rightarrow> acc t | Some v \<Rightarrow> extract_i64 big (slice_key v) 0))"
  using assms
proof (induction kvs arbitrary: acc)
  case (Cons kv kvs)
  then obtain t :: "64 word" and l where kv: "kv = (own_prefix r @ 3 # be_bytes 8 t, be_bytes 8 (encode_i64 l))" by auto
  have "\<forall>(k, v) \<in> set kvs. \<exists>(t :: 64 word) l. k = own_prefix r @ 3 # be_bytes 8 t \<and> v = be_bytes 8 (encode_i64 l)"
    and "distinct (map fst kvs)" using Cons.prems by simp_all
  from Cons.IH [OF this, of "acc(t \<mapsto> l)"]
  obtain m where m: "txn_log_indexs_loop big kvs (acc(t \<mapsto> l)) = Some m" "\<forall>t'. m t' =
    (case map_of kvs (own_prefix r @ 3 # be_bytes 8 t') of None \<Rightarrow> (acc(t \<mapsto> l)) t' | Some v \<Rightarrow> extract_i64 big (slice_key v) 0)"
    by blast
  have "map_of kvs (own_prefix r @ 3 # be_bytes 8 t) = None"
    using Cons.prems(2) by (simp add: kv map_of_eq_None_iff)
  then show ?case using m by (auto simp: kv split: option.split)
qed simp

lemma parse_txn_log_indexs_rows:
  assumes ok: "rocks_ok (se_rocks E) C" and rd: "rocks_readable (se_rocks E)"
    and rows: "log_rows (log_view r (C db)) m"
  shows "parse_txn_log_indexs E r Map.empty db = Some m"
proof -
  let ?kvs = "scan_prefix E (own_prefix r @ [3]) db"
  note s = set_scan_prefix [OF ok rd, of "own_prefix r @ [3]", simplified]
  have k: "(k, v) \<in> set ?kvs \<longleftrightarrow> (\<exists>(t :: 64 word) l. k = own_prefix r @ 3 # be_bytes 8 t \<and> v = be_bytes 8 (encode_i64 l) \<and> m t = Some l)" for k v
    using rows unfolding s(1) log_rows_def log_view_def by auto
  have rows': "\<forall>(k, v) \<in> set ?kvs. \<exists>(t :: 64 word) l. k = own_prefix r @ 3 # be_bytes 8 t \<and> v = be_bytes 8 (encode_i64 l)"
    using k by blast
  obtain m' where m': "txn_log_indexs_loop (se_big E) ?kvs Map.empty = Some m'" "\<forall>t. m' t =
    (case map_of ?kvs (own_prefix r @ 3 # be_bytes 8 t) of None \<Rightarrow> None | Some v \<Rightarrow> extract_i64 (se_big E) (slice_key v) 0)"
    using txn_log_indexs_loop_rows [OF rows' s(2), of "se_big E" Map.empty] by blast
  have "m' t = m t" for t
  proof (cases "m t")
    case None
    then have "map_of ?kvs (own_prefix r @ 3 # be_bytes 8 t) = None"
      using k by (auto simp: map_of_eq_None_iff)
    then show ?thesis using m' None by simp
  next
    case (Some l)
    then have "map_of ?kvs (own_prefix r @ 3 # be_bytes 8 t) = Some (be_bytes 8 (encode_i64 l))"
      using k s(2) by (auto intro!: map_of_is_SomeI)
    then show ?thesis using m' Some by simp
  qed
  then show ?thesis using m'(1) by (simp add: parse_txn_log_indexs_def key_forms fun_eq_iff)
qed

end
