(* ===== verification/MetaWriterProperties.thy ===== *)
theory MetaWriterProperties
  imports MetaWriterTxns
begin

text \<open>
  The properties of the meta information of a store: regions do not disturb each other, the
  prepared transactions are recovered, a commit is read back, and what clearing does.
\<close>

text \<open>A store in memory on a little-endian host.\<close>

abbreviation mem_store :: "mem_db store_env" where
  "mem_store \<equiv> \<lparr>se_big = False, se_rocks = mem_rocks\<rparr>"

section \<open>Reads from the contents\<close>

lemma get_contents:
  assumes "rocks_ok (se_rocks E) C" and "rocks_readable (se_rocks E)"
  shows "\<exists>u. rk_get (se_rocks E) db cf k = (case C db cf k of None \<Rightarrow> (R_not_found, u) | Some v \<Rightarrow> (R_ok, v))"
  using rocks_up_get [OF assms, of db cf k] by (cases "C db cf k") (auto simp: prod_eq_iff)

lemma read_contents:
  assumes "rocks_ok (se_rocks E) C" and "rocks_readable (se_rocks E)"
  shows "read_i64 E k db =
      (case C db Meta_Info_Cf k of None \<Rightarrow> Some (- 1) | Some v \<Rightarrow> extract_i64 (se_big E) (slice_key v) 0)"
    and "read_tag E k db = (case C db Meta_Info_Cf k of None \<Rightarrow> -1 | Some v \<Rightarrow> 0)"
    and "get_watt_stats_version E r w db =
      (case C db Meta_Info_Cf (watt_stats_version_key (se_big E) r w) of None \<Rightarrow> R_not_found | Some v \<Rightarrow> R_ok)"
proof -
  note g = get_contents [OF assms, of db Meta_Info_Cf]
  show "read_i64 E k db =
      (case C db Meta_Info_Cf k of None \<Rightarrow> Some (- 1) | Some v \<Rightarrow> extract_i64 (se_big E) (slice_key v) 0)"
    using g [of k] by (auto simp: read_i64_def split: option.split)
  show "read_tag E k db = (case C db Meta_Info_Cf k of None \<Rightarrow> -1 | Some v \<Rightarrow> 0)"
    using g [of k] by (auto simp: read_tag_def split: option.split)
  show "get_watt_stats_version E r w db =
      (case C db Meta_Info_Cf (watt_stats_version_key (se_big E) r w) of None \<Rightarrow> R_not_found | Some v \<Rightarrow> R_ok)"
    using g [of "watt_stats_version_key (se_big E) r w"]
    by (auto simp: get_watt_stats_version_def split: option.split)
qed

lemma read_info_contents:
  assumes "rocks_ok (se_rocks E) C" and "rocks_readable (se_rocks E)"
  shows "read_applied_index E r db = (case C db Meta_Info_Cf (own_prefix r @ [1]) of None \<Rightarrow> Some (- 1, - 1)
      | Some v \<Rightarrow> (case extract_i64 (se_big E) (slice_key v) 0 of None \<Rightarrow> None
          | Some a \<Rightarrow> if length v = 16 then map_option (Pair a) (extract_i64 (se_big E) (slice_key v) 8) else Some (a, a)))"
    and "read_pre_commit_key E r t db = (case C db Meta_Info_Cf (own_prefix r @ 6 # be_bytes 8 t) of None \<Rightarrow> Some None
      | Some v \<Rightarrow> (case extract_i64 (se_big E) (slice_key v) 0 of None \<Rightarrow> None
          | Some n \<Rightarrow> map_option (\<lambda>a. Some (n, a)) (extract_i64 (se_big E) (slice_key v) 8)))"
    and "read_region_info E parse r db = (case C db Meta_Info_Cf (own_prefix r @ [5]) of None \<Rightarrow> None | Some v \<Rightarrow> parse v)"
    and "read_olap_info E parse' active r i db =
      (case C db Meta_Info_Cf (own_prefix r @ [14]) of None \<Rightarrow> Some (active i) | Some v \<Rightarrow> parse' v)"
  using get_contents [OF assms, of db Meta_Info_Cf "own_prefix r @ [1]"]
    get_contents [OF assms, of db Meta_Info_Cf "own_prefix r @ 6 # be_bytes 8 t"]
    get_contents [OF assms, of db Meta_Info_Cf "own_prefix r @ [5]"]
    get_contents [OF assms, of db Meta_Info_Cf "own_prefix r @ [14]"]
  unfolding read_applied_index_def read_pre_commit_key_def read_region_info_def read_olap_info_def key_forms
  by (auto split: option.split)

lemma info_prefix: "meta_info_prefix big r = own_prefix r"
  by (simp add: meta_info_prefix_def append_char_def append_enc key_append_def mut_key_empty_def
      META_IDENTIFY_def own_prefix_def)





section \<open>Regions\<close>

lemma mw_run_others:
  assumes ok: "rocks_ok (se_rocks E) C"
  shows "list_all (\<lambda>(r', _). cf \<noteq> Meta_Info_Cf \<or> \<not> own r' k) calls \<Longrightarrow> C (mw_run E calls db) cf k = C db cf k"
proof (induction calls arbitrary: db)
  case (Cons rc calls)
  obtain r' call where rc: "rc = (r', call)" by force
  have "only_own r' (C db) (C (snd (mw_call E r' call db)))"
    using mw_call_others [OF ok, of r' call] unfolding keeps_others_def by blast
  then have "C (snd (mw_call E r' call db)) cf k = C db cf k"
    using Cons.prems unfolding only_own_def rc by auto
  then show ?case using Cons by (simp add: rc)
qed simp

text \<open>
  (C13) Regions do not disturb each other. Whatever operations run on other regions, in
  any order and with any outcome, every row under the prefix of a region stays as it is, and
  no operation changes another column family.
\<close>

theorem meta_region_isolation:
  assumes "rocks_ok (se_rocks E) C" and "list_all (\<lambda>(r', _). r' \<noteq> r) calls" and "cf \<noteq> Meta_Info_Cf"
  shows "C (mw_run E calls db) Meta_Info_Cf (meta_info_prefix (se_big E) r @ s) =
      C db Meta_Info_Cf (meta_info_prefix (se_big E) r @ s) \<and>
    C (mw_run E calls db) cf k = C db cf k"
  using assms by (auto simp: info_prefix list_all_iff intro!: mw_run_others [OF assms(1)])

theorem meta_region_isolation_witness:
  "rocks_ok mem_rocks mem_contents \<and>
   mem_contents (mw_run mem_store [(7, Write_Learner_Key True), (9, Clear_All_Meta_Info)] [((Meta_Info_Cf, meta_info_prefix False 8 @ [12]), [1])])
     Meta_Info_Cf (meta_info_prefix False 8 @ [12]) = Some [1] \<and>
   mem_contents (mw_run mem_store [(7, Write_Learner_Key True), (9, Clear_All_Meta_Info)] [((Meta_Info_Cf, meta_info_prefix False 8 @ [12]), [1])])
     Data_Cf [5] = None"
  using meta_region_isolation [of mem_store mem_contents 8 "[(7, Write_Learner_Key True), (9, Clear_All_Meta_Info)]" Data_Cf
      "[((Meta_Info_Cf, meta_info_prefix False 8 @ [12]), [1])]" "[12]" "[5]"] mem_rocks_ok
  by (simp add: mem_contents_def [of "[_]"])

section \<open>Prepared transactions\<close>

text \<open>
  (C11) Recovery of the prepared transactions. On a store that starts without rows of the
  kind for a region, after any sequence of operations on any regions \<open>parse_txn_log_indexs\<close>
  answers exactly the abstract map of the transactions begun and not yet committed, rolled back or cleared,
  each with the index of its first log entry. Clearing leaves a transaction with the
  largest id.
\<close>

theorem prepared_txns_recovered:
  assumes "rocks_ok (se_rocks E) C" and "rocks_up (se_rocks E)"
    and "\<And>s. C db Meta_Info_Cf (log_index_key_prefix (se_big E) r @ s) = None"
  shows "parse_txn_log_indexs E r Map.empty (mw_run E calls db) = Some (txn_run r calls Map.empty)"
proof -
  have "log_rows (log_view r (C db)) Map.empty"
    using assms(3) by (simp add: log_rows_def log_view_def key_forms)
  from txns.view_run [OF assms(1,2) this] show ?thesis unfolding txn_run_def
    by (rule parse_txn_log_indexs_rows [OF assms(1) rocks_up_readable [OF assms(2)]])
qed

theorem prepared_txns_recovered_witness:
  "rocks_ok mem_rocks mem_contents \<and> rocks_up mem_rocks \<and>
   parse_txn_log_indexs mem_store 7 Map.empty
     (mw_run mem_store [(7, Write_Meta_Begin_Index 3 2 40), (8, Write_Meta_Begin_Index 4 3 41), (7, Write_Meta_Begin_Index 5 4 42),
        (7, Write_Meta_After_Commit 10 6 6 40 False)] []) = Some [42 \<mapsto> 5]"
  using prepared_txns_recovered [of mem_store mem_contents "[]" 7 "[(7, Write_Meta_Begin_Index 3 2 40), (8, Write_Meta_Begin_Index 4 3 41),
      (7, Write_Meta_Begin_Index 5 4 42), (7, Write_Meta_After_Commit 10 6 6 40 False)]"] mem_rocks_ok mem_rocks_up
  by (simp add: mem_contents_def txn_run_def fun_upd_twist)

text \<open>
  The bookkeeping of a commit. What \<open>write_pre_commit\<close> writes is read back until
  \<open>write_meta_after_commit\<close>, which removes it; then the applied index, the data index and the
  number of lines are those of the commit, and the tag of a rollback is set exactly if it was asked for
  or was there before.
\<close>

theorem commit_read_back:
  assumes "rocks_ok (se_rocks E) C" and "rocks_up (se_rocks E)" and "a \<noteq> 0" and "a' \<noteq> 0"
    and "write_pre_commit E r t n a db = (ret1, db1)"
    and "write_meta_after_commit E r n' a' d t rollback db1 = (ret2, db2)"
  shows "ret1 = 0 \<and> ret2 = 0 \<and> read_pre_commit_key E r t db1 = Some (Some (n, a)) \<and>
    read_pre_commit_key E r t db2 = Some None \<and> read_applied_index E r db2 = Some (a', d) \<and>
    read_num_table_lines E r db2 = Some n' \<and>
    read_transcation_rollbacked_tag E r t db2 = (if rollback then 0 else read_transcation_rollbacked_tag E r t db)"
proof -
  note rd = rocks_up_readable [OF assms(2)]
  note reads = read_contents [OF assms(1) rd] read_info_contents [OF assms(1) rd]
  have w: "(ret1, db1) = put_meta E (own_prefix r @ 6 # be_bytes 8 t) (be_bytes 8 (encode_i64 n) @ be_bytes 8 (encode_i64 a)) db"
    using assms(3,5) by (simp add: write_pre_commit_def key_forms append_enc region_key_data)
  have c1: "ret1 = 0" "C db1 = apply_op (W_put Meta_Info_Cf (own_prefix r @ 6 # be_bytes 8 t)
      (be_bytes 8 (encode_i64 n) @ be_bytes 8 (encode_i64 a))) (C db)"
    using put_meta_up [OF assms(1,2)] w by (metis fst_conv, metis snd_conv)
  note b = write_batch_up [OF assms(1,2), of _ db1]
  have c2: "ret2 = fst (write_meta_after_commit E r n' a' d t rollback db1)"
    "db2 = snd (write_meta_after_commit E r n' a' d t rollback db1)" using assms(6) by simp_all
  show ?thesis
    using assms(4) unfolding c2
    by (simp add: reads c1 b write_meta_after_commit_def key_forms value_forms
        read_num_table_lines_def read_transcation_rollbacked_tag_def)
qed

theorem commit_read_back_witness:
  "rocks_ok mem_rocks mem_contents \<and> rocks_up mem_rocks \<and>
   read_applied_index mem_store 7 (snd (write_meta_after_commit mem_store 7 101 6 5 40 True (snd (write_pre_commit mem_store 7 40 100 5 [])))) = Some (6, 5) \<and>
   read_transcation_rollbacked_tag mem_store 7 40 (snd (write_meta_after_commit mem_store 7 101 6 5 40 True (snd (write_pre_commit mem_store 7 40 100 5 [])))) = 0"
  using commit_read_back [of mem_store mem_contents 5 6 7 40 100 "[]" "fst (write_pre_commit mem_store 7 40 100 5 [])"
      "snd (write_pre_commit mem_store 7 40 100 5 [])" 101 5 True
      "fst (write_meta_after_commit mem_store 7 101 6 5 40 True (snd (write_pre_commit mem_store 7 40 100 5 [])))"
      "snd (write_meta_after_commit mem_store 7 101 6 5 40 True (snd (write_pre_commit mem_store 7 40 100 5 [])))"] mem_rocks_ok mem_rocks_up
  by simp

section \<open>Clearing\<close>



text \<open>
  (C33) \<open>clear_rollup_batch_version\<close> returns exactly if version 1 of the region is not there,
  and then it has nothing to clear; otherwise it reads version 1 forever. No version is ever removed.
\<close>

theorem clear_rollup_batch_version_stuck:
  assumes "rocks_ok (se_rocks E) C" and "rocks_readable (se_rocks E)"
  shows "clear_rollup_batch_version E r db =
    (if C db Meta_Info_Cf (watt_stats_version_key (se_big E) r 1) = None then Some (0, db) else None)"
proof (cases "C db Meta_Info_Cf (watt_stats_version_key (se_big E) r 1)")
  case None
  then have "find_batch_version E r 1 db = Some (Inr 1)"
    by (subst find_batch_version.simps) (simp add: read_contents(3) [OF assms])
  then show ?thesis using None by (simp add: clear_rollup_batch_version_def)
next
  case (Some v)
  have "get_watt_stats_version E' r' w db' \<noteq> R_ok" if "find_batch_version E' r' w db' = Some y" for E' r' w db' y
    by (rule find_batch_version.raw_induct [OF _ that]) (auto split: rocks_status.splits)
  then have "find_batch_version E r 1 db = None"
    using Some by (metis not_None_eq option.simps(5) read_contents(3) [OF assms])
  then show ?thesis using Some by (simp add: clear_rollup_batch_version_def)
qed

theorem clear_rollup_batch_version_stuck_witness:
  "rocks_ok mem_rocks mem_contents \<and> rocks_readable mem_rocks \<and>
   clear_rollup_batch_version mem_store 7 [] = Some (0, []) \<and>
   clear_rollup_batch_version mem_store 7 [((Meta_Info_Cf, watt_stats_version_key False 7 1), [])] = None"
  using clear_rollup_batch_version_stuck [of mem_store mem_contents 7 "[]"] mem_rocks_ok rocks_up_readable [OF mem_rocks_up]
    clear_rollup_batch_version_stuck [of mem_store mem_contents 7 "[((Meta_Info_Cf, watt_stats_version_key False 7 1), [])]"]
  by (simp add: mem_contents_def)

end
