(* ===== verification/MetaWriterSnapshots.thy ===== *)
theory MetaWriterSnapshots
  imports MetaWriterProperties
begin

text \<open>
  The regions that were installing a snapshot when the store stopped: the shape of all rows under
  the first identifier, and the scan \<open>parse_doing_snapshot\<close> over them.
\<close>

section \<open>The abstract set\<close>

fun snap_step :: "64 word \<Rightarrow> mw_op \<Rightarrow> 64 word set \<Rightarrow> 64 word set" where
  "snap_step r Write_Doing_Snapshot S = insert r S"
| "snap_step r Clear_Doing_Snapshot S = S - {r}"
| "snap_step r Clear_All_Meta_Info S = S - {r}"
| "snap_step r _ S = S"

definition snap_run :: "(64 word \<times> mw_op) list \<Rightarrow> 64 word set \<Rightarrow> 64 word set" where
  "snap_run = abs_run snap_step"

section \<open>The rows\<close>

definition shaped :: "bytes \<Rightarrow> bool" where
  "shaped k \<longleftrightarrow> (take 1 k = [1] \<longrightarrow> (\<exists>r i s. k = own_prefix r @ i # s \<and> (i = 7 \<longrightarrow> s = [])))"

definition snap_rows :: "contents \<Rightarrow> 64 word set \<Rightarrow> bool" where
  "snap_rows c S \<longleftrightarrow> (\<forall>k v. c Meta_Info_Cf k = Some v \<longrightarrow> shaped k) \<and>
     (\<forall>r. r \<in> S \<longleftrightarrow> c Meta_Info_Cf (own_prefix r @ [7]) \<noteq> None)"

lemma own_prefix_eq [simp]: "own_prefix r @ x = own_prefix r' @ y \<longleftrightarrow> r = r' \<and> x = y"
  by (simp add: append_eq_append_conv)

lemma snap_rows_put:
  assumes "snap_rows c S" and "i = 7 \<Longrightarrow> s = []"
  shows "snap_rows (apply_op (W_put Meta_Info_Cf (own_prefix r @ i # s) v) c) (if i = 7 then insert r S else S)"
proof -
  have "shaped (own_prefix r @ i # s)" using assms(2) unfolding shaped_def by blast
  then show ?thesis using assms by (auto simp: snap_rows_def)
qed

lemma snap_rows_delete:
  "snap_rows c S \<Longrightarrow>
   snap_rows (apply_op (W_delete Meta_Info_Cf (own_prefix r @ i # s)) c) (if i = 7 \<and> s = [] then S - {r} else S)"
  by (auto simp: snap_rows_def)

lemma snap_rows_range:
  assumes "snap_rows c S" and "i \<noteq> 7"
  shows "snap_rows (apply_op (W_delete_range Meta_Info_Cf (own_prefix r @ i # x) (own_prefix r @ i # y)) c) S"
proof -
  have "\<not> (own_prefix r @ i # x \<le> own_prefix r' @ [7] \<and> own_prefix r' @ [7] < own_prefix r @ i # y)" for r'
    using range_rows [of r i x "own_prefix r' @ [7]" y] assms(2) by auto
  then show ?thesis using assms(1) by (auto simp: snap_rows_def)
qed

lemma snap_rows_puts:
  assumes "snap_rows c S" and "i \<noteq> 7"
  shows "snap_rows (apply_op (W_put Meta_Info_Cf (own_prefix r @ i # s) v) c) S"
    and "snap_rows (apply_op (W_delete Meta_Info_Cf (own_prefix r @ i # s)) c) S"
  using snap_rows_put [OF assms(1), of i s r v] snap_rows_delete [OF assms(1), of r i s] assms(2) by simp_all

lemma snap_rows_seven:
  assumes "snap_rows c S"
  shows "snap_rows (apply_op (W_put Meta_Info_Cf (own_prefix r @ [7]) v) c) (insert r S)"
    and "snap_rows (apply_op (W_delete Meta_Info_Cf (own_prefix r @ [7])) c) (S - {r})"
  using snap_rows_put [OF assms, of 7 "[]" r v] snap_rows_delete [OF assms, of r 7 "[]"]
  by (simp_all del: apply_op.simps)

lemma snap_rows_txn_ranges: "snap_rows c S \<Longrightarrow> snap_rows (fold apply_op (txn_ranges r) c) S"
  by (simp add: txn_ranges_def snap_rows_range del: apply_op.simps)

lemma snap_call:
  assumes ok: "rocks_ok (se_rocks E) C" and up: "rocks_up (se_rocks E)" and rows: "snap_rows (C db) S"
  shows "snap_rows (C (snd (mw_call E r call db))) (snap_step r call S)"
proof -
  note u = put_meta_up [OF ok up] write_batch_up [OF ok up] clear_meta_up [OF ok up]
  show ?thesis
    by (cases call)
       (simp_all add: mw_put_defs mw_batch_defs mw_range_defs clear_range_write u key_forms Let_def
         snap_rows_puts snap_rows_range snap_rows_txn_ranges snap_rows_seven rows del: apply_op.simps split: option.split)
qed

interpretation snaps: store_view E C snap_rows snap_step for E C
  by unfold_locales (rule snap_call)

section \<open>The scan\<close>

lemma extract_identify: "extract_char (slice_key (own_prefix r @ i # s)) 9 1 = Some [i]"
  by (simp add: extract_char_def key_read_def slice_key_def)

lemma doing_snapshot_loop_rows:
  assumes "\<forall>(k, v) \<in> set kvs. \<exists>r i s. k = own_prefix r @ i # s \<and> (i = 7 \<longrightarrow> s = [])"
  shows "doing_snapshot_loop big kvs S = Some (S \<union> {r. \<exists>v. (own_prefix r @ [7], v) \<in> set kvs})"
  using assms
proof (induction kvs arbitrary: S)
  case (Cons kv kvs)
  then obtain r i s v where kv: "kv = (own_prefix r @ i # s, v)" and s: "i = 7 \<Longrightarrow> s = []"
    by (cases kv) auto
  have IH: "doing_snapshot_loop big kvs S' = Some (S' \<union> {r. \<exists>v. (own_prefix r @ [7], v) \<in> set kvs})" for S'
    using Cons by simp
  show ?case
    using extract_identify [of r i s] s
    by (cases "i = 7") (auto simp: kv IH DOING_SNAPSHOT_IDENTIFY_def read_forms(4) [unfolded One_nat_def])
qed simp

lemma parse_doing_snapshot_rows:
  assumes ok: "rocks_ok (se_rocks E) C" and rd: "rocks_readable (se_rocks E)" and rows: "snap_rows (C db) S"
  shows "parse_doing_snapshot E {} db = Some S"
proof -
  obtain kvs where it: "rk_iterate (se_rocks E) db Meta_Info_Cf 1 [1] = (kvs, R_ok)"
    using rocks_readable_iterate [OF rd] .
  note i = rocks_iterate [OF ok it, unfolded iterates_def]
  have "\<exists>r i s. k = own_prefix r @ i # s \<and> (i = 7 \<longrightarrow> s = [])" if "(k, v) \<in> set kvs" for k v
  proof -
    have "C db Meta_Info_Cf k = Some v" and "take 1 k = [1]" using i that by auto
    then show ?thesis using rows unfolding snap_rows_def shaped_def by blast
  qed
  then have l: "doing_snapshot_loop (se_big E) kvs {} = Some ({} \<union> {r. \<exists>v. (own_prefix r @ [7], v) \<in> set kvs})"
    by (intro doing_snapshot_loop_rows) blast
  have "(own_prefix r @ [7], v) \<in> set kvs \<longleftrightarrow> C db Meta_Info_Cf (own_prefix r @ [7]) = Some v" for r v
    using i by (simp add: own_prefix_def)
  then have "{r. \<exists>v. (own_prefix r @ [7], v) \<in> set kvs} = S" using rows by (auto simp: snap_rows_def)
  then show ?thesis using l unfolding parse_doing_snapshot_def scan_def META_IDENTIFY_def it by simp
qed

text \<open>
  (C12) Recovery of interrupted snapshots. On a store that starts with no meta information, after any sequence of
  operations on any regions \<open>parse_doing_snapshot\<close> answers exactly the regions that began to install
  a snapshot and have neither finished it nor been dropped.
\<close>

theorem interrupted_snapshots_recovered:
  assumes "rocks_ok (se_rocks E) C" and "rocks_up (se_rocks E)" and "C db Meta_Info_Cf = Map.empty"
  shows "parse_doing_snapshot E {} (mw_run E calls db) = Some (snap_run calls {})"
proof -
  have "snap_rows (C db) {}" using assms(3) by (simp add: snap_rows_def)
  from snaps.view_run [OF assms(1,2) this] show ?thesis unfolding snap_run_def
    by (rule parse_doing_snapshot_rows [OF assms(1) rocks_up_readable [OF assms(2)]])
qed

theorem interrupted_snapshots_recovered_witness:
  "rocks_ok mem_rocks mem_contents \<and> rocks_up mem_rocks \<and>
   parse_doing_snapshot mem_store {} (mw_run mem_store [(7, Write_Doing_Snapshot), (8, Write_Doing_Snapshot),
     (7, Clear_Doing_Snapshot), (9, Update_Num_Table_Lines 3)] []) = Some {8}"
  using interrupted_snapshots_recovered [of mem_store mem_contents "[]" "[(7, Write_Doing_Snapshot), (8, Write_Doing_Snapshot),
      (7, Clear_Doing_Snapshot), (9, Update_Num_Table_Lines 3)]"] mem_rocks_ok mem_rocks_up
  by (simp add: mem_contents_def fun_eq_iff insert_Diff_if snap_run_def)

end
