(* ===== verification/RaftMetaStorage.thy ===== *)
theory RaftMetaStorage
  imports TableKeys RaftLogStorage
begin

text \<open>
  The term and the vote of a Raft node, \<^verbatim>\<open>MyRaftMetaStorage\<close> in
  \<^verbatim>\<open>src/raft/my_raft_meta_storage.cpp\<close>: one row of the Raft log column family per region, and a
  copy in memory. Peers and the message \<^verbatim>\<open>StablePBMeta\<close> are braft's, the parameter \<open>braft\<close>.
\<close>

section \<open>State and environment\<close>

text \<open>
  \<open>br_parse\<close> is \<^verbatim>\<open>PeerId::parse\<close>, with its answer and the peer it leaves behind; the message is its
  term and the text of its vote.
\<close>

record 'p braft =
  br_no_peer :: 'p
  br_to_string :: "'p \<Rightarrow> bytes"
  br_parse :: "bytes \<Rightarrow> 'p \<Rightarrow> int \<times> 'p"
  br_meta_ser :: "64 word \<times> bytes \<Rightarrow> bytes"
  br_meta_parse :: "bytes \<Rightarrow> 64 word \<times> bytes"

record ('db, 'p) raft_meta_env =
  re_big :: bool
  re_rocks :: "'db rocks"
  re_braft :: "'p braft"

record 'p raft_meta =
  rm_is_inited :: bool
  rm_region_id :: "64 word"
  rm_term :: "64 word"
  rm_votedfor :: 'p

definition RAFT_META_IDENTIFY :: byte where
  "RAFT_META_IDENTIFY = 3"

section \<open>Operations\<close>

definition parse_my_raft_meta_uri :: "string \<Rightarrow> string option" where
  "parse_my_raft_meta_uri uri =
     (case string_find ''id='' uri of
        None \<Rightarrow> None
      | Some pos \<Rightarrow> if pos = 0 then None else Some (drop (pos + 3) uri))"

definition new_raft_meta :: "('db, 'p) raft_meta_env \<Rightarrow> 64 word \<Rightarrow> 'p raft_meta" where
  "new_raft_meta E region_id =
     \<lparr>rm_is_inited = False, rm_region_id = region_id, rm_term = 1, rm_votedfor = br_no_peer (re_braft E)\<rparr>"

text \<open>\<open>lexical_cast\<close> is boost's conversion, which throws on other strings, and \<open>has_handle\<close> says
  whether the column family is open; \<^term>\<open>None\<close> is the null pointer or the exception.\<close>

definition new_meta_instance ::
  "('db, 'p) raft_meta_env \<Rightarrow> (string \<Rightarrow> 64 word option) \<Rightarrow> bool \<Rightarrow> string \<Rightarrow> 'p raft_meta option" where
  "new_meta_instance E lexical_cast has_handle uri =
     (case parse_my_raft_meta_uri uri of
        None \<Rightarrow> None
      | Some string_region_id \<Rightarrow>
          (case lexical_cast string_region_id of
             None \<Rightarrow> None
           | Some region_id \<Rightarrow> if has_handle then Some (new_raft_meta E region_id) else None))"

definition raft_meta_key :: "bool \<Rightarrow> 64 word \<Rightarrow> bytes" where
  "raft_meta_key big region_id = mk_data (append_u8 big RAFT_META_IDENTIFY (append_i64 big region_id mut_key_empty))"

definition load_meta :: "('db, 'p) raft_meta_env \<Rightarrow> 'p raft_meta \<Rightarrow> 'db \<Rightarrow> int \<times> 'p raft_meta" where
  "load_meta E st db =
     (case rk_get (re_rocks E) db Raft_Log_Cf (raft_meta_key (re_big E) (rm_region_id st)) of (status, value_str) \<Rightarrow>
        if status = R_ok then
          (case br_meta_parse (re_braft E) value_str of (term, votedfor) \<Rightarrow>
            (case br_parse (re_braft E) votedfor (rm_votedfor st) of (ret, peer) \<Rightarrow>
               (ret, st\<lparr>rm_term := term, rm_votedfor := peer\<rparr>)))
        else (0, st))"

definition save_meta :: "('db, 'p) raft_meta_env \<Rightarrow> 'p raft_meta \<Rightarrow> 'db \<Rightarrow> int \<times> 'db" where
  "save_meta E st db =
     (case rk_put (re_rocks E) db Raft_Log_Cf (raft_meta_key (re_big E) (rm_region_id st))
             (br_meta_ser (re_braft E) (rm_term st, br_to_string (re_braft E) (rm_votedfor st))) of
        (status, db') \<Rightarrow> (if status \<noteq> R_ok then -1 else 0, db'))"

definition set_term :: "('db, 'p) raft_meta_env \<Rightarrow> 64 word \<Rightarrow> 'p raft_meta \<Rightarrow> 'db \<Rightarrow> int \<times> 'p raft_meta \<times> 'db" where
  "set_term E term st db =
     (if rm_is_inited st then
        (let st' = st\<lparr>rm_term := term\<rparr> in case save_meta E st' db of (ret, db') \<Rightarrow> (ret, st', db'))
      else (-1, st, db))"

definition get_term_meta :: "'p raft_meta \<Rightarrow> 64 word" where
  "get_term_meta st = (if rm_is_inited st then rm_term st else - 1)"

definition set_votedfor :: "('db, 'p) raft_meta_env \<Rightarrow> 'p \<Rightarrow> 'p raft_meta \<Rightarrow> 'db \<Rightarrow> int \<times> 'p raft_meta \<times> 'db" where
  "set_votedfor E peer_id st db =
     (if rm_is_inited st then
        (let st' = st\<lparr>rm_votedfor := peer_id\<rparr> in case save_meta E st' db of (ret, db') \<Rightarrow> (ret, st', db'))
      else (-1, st, db))"

text \<open>\<^term>\<open>None\<close> is the answer -1, with the caller's peer unchanged.\<close>

definition get_votedfor :: "'p raft_meta \<Rightarrow> 'p option" where
  "get_votedfor st = (if rm_is_inited st then Some (rm_votedfor st) else None)"

definition set_term_and_votedfor ::
  "('db, 'p) raft_meta_env \<Rightarrow> 64 word \<Rightarrow> 'p \<Rightarrow> 'p raft_meta \<Rightarrow> 'db \<Rightarrow> int \<times> 'p raft_meta \<times> 'db" where
  "set_term_and_votedfor E term peer_id st db =
     (if rm_is_inited st then
        (let st' = st\<lparr>rm_term := term, rm_votedfor := peer_id\<rparr> in
         case save_meta E st' db of (ret, db') \<Rightarrow> (ret, st', db'))
      else (-1, st, db))"

text \<open>The operations that answer a status: whether it is OK.\<close>

definition init_meta :: "('db, 'p) raft_meta_env \<Rightarrow> 'p raft_meta \<Rightarrow> 'db \<Rightarrow> bool \<times> 'p raft_meta" where
  "init_meta E st db =
     (if rm_is_inited st then (True, st)
      else case load_meta E st db of (ret, st') \<Rightarrow>
        if ret = 0 then (True, st'\<lparr>rm_is_inited := True\<rparr>) else (False, st'))"

definition set_term_and_votedfor_group ::
  "('db, 'p) raft_meta_env \<Rightarrow> 64 word \<Rightarrow> 'p \<Rightarrow> 'p raft_meta \<Rightarrow> 'db \<Rightarrow> bool \<times> 'p raft_meta \<times> 'db" where
  "set_term_and_votedfor_group E term peer_id st db =
     (case set_term_and_votedfor E term peer_id st db of (ret, st', db') \<Rightarrow> (\<not> ret < 0, st', db'))"

definition get_term_and_votedfor :: "'p raft_meta \<Rightarrow> (64 word \<times> 'p) option" where
  "get_term_and_votedfor st = (if rm_is_inited st then Some (rm_term st, rm_votedfor st) else None)"

section \<open>What survives a restart\<close>

text \<open>The documented behaviour of braft: what is printed or serialised is parsed back.\<close>

definition braft_ok :: "'p braft \<Rightarrow> bool" where
  "braft_ok B \<longleftrightarrow> (\<forall>m. br_meta_parse B (br_meta_ser B m) = m) \<and> (\<forall>p q. br_parse B (br_to_string B p) q = (0, p))"

text \<open>The calls that change the term or the vote.\<close>

datatype 'p vote_call = Set_Term "64 word" | Set_Votedfor 'p | Set_Term_And_Votedfor "64 word" 'p

fun meta_call :: "('db, 'p) raft_meta_env \<Rightarrow> 'p vote_call \<Rightarrow> 'p raft_meta \<Rightarrow> 'db \<Rightarrow> int \<times> 'p raft_meta \<times> 'db" where
  "meta_call E (Set_Term t) = set_term E t"
| "meta_call E (Set_Votedfor p) = set_votedfor E p"
| "meta_call E (Set_Term_And_Votedfor t p) = set_term_and_votedfor E t p"

fun meta_effect :: "'p vote_call \<Rightarrow> 64 word \<times> 'p \<Rightarrow> 64 word \<times> 'p" where
  "meta_effect (Set_Term t) (_, q) = (t, q)"
| "meta_effect (Set_Votedfor p) (u, _) = (u, p)"
| "meta_effect (Set_Term_And_Votedfor t p) _ = (t, p)"

definition meta_row :: "('db, 'p) raft_meta_env \<Rightarrow> 64 word \<times> 'p \<Rightarrow> bytes" where
  "meta_row E m = br_meta_ser (re_braft E) (fst m, br_to_string (re_braft E) (snd m))"

lemma meta_call_result:
  assumes ok: "rocks_ok (re_rocks E) C" and "rm_is_inited st" and call: "meta_call E call st db = (ret, st', db')"
  shows "rm_is_inited st'" and "rm_region_id st' = rm_region_id st"
    and "(rm_term st', rm_votedfor st') = meta_effect call (rm_term st, rm_votedfor st)"
    and "ret = 0 \<or> ret = -1"
    and "C db' = (if ret = 0 then (C db)(Raft_Log_Cf := (C db Raft_Log_Cf)(raft_meta_key (re_big E) (rm_region_id st) \<mapsto>
      meta_row E (meta_effect call (rm_term st, rm_votedfor st)))) else C db)"
  using call assms(2)
  by (cases call; auto simp: set_term_def set_votedfor_def set_term_and_votedfor_def save_meta_def meta_row_def Let_def
      dest!: rocks_put [OF ok] split: prod.splits if_splits)+

lemma init_row:
  assumes ok: "rocks_ok (re_rocks E) C" and "rocks_readable (re_rocks E)" and "braft_ok (re_braft E)"
    and "C db Raft_Log_Cf (raft_meta_key (re_big E) r) = Some (meta_row E (t, p))"
  shows "init_meta E (new_raft_meta E r) db = (True, \<lparr>rm_is_inited = True, rm_region_id = r, rm_term = t, rm_votedfor = p\<rparr>)"
  using rocks_up_get(1) [OF assms(1,2,4)] assms(3)
  by (simp add: init_meta_def load_meta_def new_raft_meta_def meta_row_def braft_ok_def)

text \<open>A braft with numbers as peers.\<close>

definition num_braft :: "64 word braft" where
  "num_braft = \<lparr>br_no_peer = 0, br_to_string = be_bytes 8, br_parse = (\<lambda>s q. (0, be_word s)),
     br_meta_ser = (\<lambda>(t, s). be_bytes 8 t @ s), br_meta_parse = (\<lambda>b. (be_word (take 8 b), drop 8 b))\<rparr>"

lemma num_braft_ok: "braft_ok num_braft"
  by (simp add: braft_ok_def num_braft_def be_bytes_inverse split: prod.split)

text \<open>
  (C14) What a node has promised survives a restart. After a call that sets the term, the vote or both
  answers 0, a new instance on the same store initialises with the term and the vote of the
  call; after one that fails it does so with what was stored before, although the old
  instance already answers the new values.
\<close>

theorem raft_meta_survives_restart:
  assumes "rocks_ok (re_rocks E) C" and "rocks_readable (re_rocks E)" and "braft_ok (re_braft E)"
    and "rm_is_inited st" and "meta_call E call st db = (ret, st', db')"
    and "C db Raft_Log_Cf (raft_meta_key (re_big E) (rm_region_id st)) = Some (meta_row E (rm_term st, rm_votedfor st))"
    and "init_meta E (new_raft_meta E (rm_region_id st)) db' = (good, fresh)"
  shows "get_term_and_votedfor st' = Some (meta_effect call (rm_term st, rm_votedfor st)) \<and> good \<and>
    get_term_and_votedfor fresh = (if ret = 0 then get_term_and_votedfor st' else get_term_and_votedfor st)"
proof -
  note c = meta_call_result [OF assms(1,4,5)]
  obtain t p where m: "meta_effect call (rm_term st, rm_votedfor st) = (t, p)" by force
  have "C db' Raft_Log_Cf (raft_meta_key (re_big E) (rm_region_id st)) =
      Some (meta_row E (if ret = 0 then (t, p) else (rm_term st, rm_votedfor st)))"
    using c(5) assms(6) m by simp
  from init_row [OF assms(1-3), of db' _ "fst (if ret = 0 then (t, p) else (rm_term st, rm_votedfor st))"
      "snd (if ret = 0 then (t, p) else (rm_term st, rm_votedfor st))"] this
  show ?thesis using c assms(4,7) m by (auto simp: get_term_and_votedfor_def split: if_splits)
qed

theorem raft_meta_survives_restart_witness:
  "\<exists>st db ret st' db' good fresh. rocks_ok mem_rocks mem_contents \<and> braft_ok num_braft \<and>
     meta_call \<lparr>re_big = False, re_rocks = mem_rocks, re_braft = num_braft\<rparr> (Set_Votedfor 9) st db = (ret, st', db') \<and>
     init_meta \<lparr>re_big = False, re_rocks = mem_rocks, re_braft = num_braft\<rparr>
       (new_raft_meta \<lparr>re_big = False, re_rocks = mem_rocks, re_braft = num_braft\<rparr> 7) db' = (good, fresh) \<and>
     ret = 0 \<and> get_term_and_votedfor fresh = Some (4, 9)"
proof -
  let ?E = "\<lparr>re_big = False, re_rocks = mem_rocks, re_braft = num_braft\<rparr>"
  let ?st = "\<lparr>rm_is_inited = True, rm_region_id = 7, rm_term = 4, rm_votedfor = 8\<rparr> :: 64 word raft_meta"
  let ?db = "[((Raft_Log_Cf, raft_meta_key False 7), meta_row ?E (4, 8))]"
  obtain ret st' db' where c: "meta_call ?E (Set_Votedfor 9) ?st ?db = (ret, st', db')" by (cases "meta_call ?E (Set_Votedfor 9) ?st ?db")
  obtain good fresh where i: "init_meta ?E (new_raft_meta ?E 7) db' = (good, fresh)" by force
  have "ret = 0" using c by (auto simp: set_votedfor_def save_meta_def mem_rocks_def)
  with raft_meta_survives_restart [of ?E mem_contents ?st "Set_Votedfor 9" ?db ret st' db' good fresh]
    mem_rocks_ok rocks_up_readable [OF mem_rocks_up] num_braft_ok c i
  show ?thesis by (intro exI [of _ ?st] exI [of _ ?db] exI [of _ ret] exI [of _ st'] exI [of _ db'] exI [of _ good] exI [of _ fresh])
    (simp add: mem_contents_def)
qed

text \<open>
  (C34) A failed read forgets the vote. If the database fails to read the row, \<open>init\<close> is OK with term 1
  and no vote, whatever the store holds; the vote given next then replaces the stored one in term 1.
\<close>

theorem raft_meta_read_error_forgets_vote:
  assumes "rocks_ok (re_rocks E) C" and "fst (rk_get (re_rocks E) db Raft_Log_Cf (raft_meta_key (re_big E) r)) = R_error"
    and "init_meta E (new_raft_meta E r) db = (good, st)" and "set_votedfor E p st db = (ret, st', db')"
  shows "good \<and> get_term_and_votedfor st = Some (1, br_no_peer (re_braft E)) \<and>
    (ret = 0 \<longrightarrow> C db' Raft_Log_Cf (raft_meta_key (re_big E) r) = Some (meta_row E (1, p)))"
proof -
  have st: "good" "st = \<lparr>rm_is_inited = True, rm_region_id = r, rm_term = 1, rm_votedfor = br_no_peer (re_braft E)\<rparr>"
    using assms(2,3) by (auto simp: init_meta_def load_meta_def new_raft_meta_def split: prod.splits)
  have "meta_call E (Set_Votedfor p) st db = (ret, st', db')" using assms(4) by simp
  from meta_call_result(5) [OF assms(1) _ this] st show ?thesis by (simp add: get_term_and_votedfor_def)
qed

theorem raft_meta_read_error_forgets_vote_witness:
  "\<exists>E db good st ret st' db'. rocks_ok (re_rocks E) mem_contents \<and>
     mem_contents db Raft_Log_Cf (raft_meta_key (re_big E) 7) = Some (meta_row E (4, 8 :: 64 word)) \<and>
     init_meta E (new_raft_meta E 7) db = (good, st) \<and> set_votedfor E 9 st db = (ret, st', db') \<and>
     good \<and> get_term_and_votedfor st = Some (1, 0) \<and>
     mem_contents db' Raft_Log_Cf (raft_meta_key (re_big E) 7) = Some (meta_row E (1, 9))"
proof -
  let ?R = "mem_rocks\<lparr>rk_get := \<lambda>_ _ _. (R_error, [])\<rparr>"
  let ?E = "\<lparr>re_big = False, re_rocks = ?R, re_braft = num_braft\<rparr>"
  let ?db = "[((Raft_Log_Cf, raft_meta_key False 7), meta_row ?E (4, 8 :: 64 word))]"
  have ok: "rocks_ok ?R mem_contents" using mem_rocks_ok by (simp add: rocks_ok_def)
  obtain good st where i: "init_meta ?E (new_raft_meta ?E 7) ?db = (good, st)" by force
  obtain ret st' db' where c: "set_votedfor ?E 9 st ?db = (ret, st', db')" by (cases "set_votedfor ?E 9 st ?db")
  have a: "good \<and> get_term_and_votedfor st = Some (1, 0) \<and>
      (ret = 0 \<longrightarrow> mem_contents db' Raft_Log_Cf (raft_meta_key False 7) = Some (meta_row ?E (1, 9)))"
    using raft_meta_read_error_forgets_vote [of ?E mem_contents ?db 7 good st 9 ret st' db'] ok i c
    by (simp add: num_braft_def)
  then have "ret = 0" using c
    by (auto simp: set_votedfor_def save_meta_def mem_rocks_def get_term_and_votedfor_def split: if_splits)
  with a ok i c show ?thesis
    by (intro exI [of _ ?E] exI [of _ ?db] exI [of _ good] exI [of _ st] exI [of _ ret] exI [of _ st'] exI [of _ db'])
      (simp add: mem_contents_def)
qed

end
