(* ===== verification/LruCache.thy ===== *)
theory LruCache
  imports Prelude "HOL-Library.AList"
begin

text \<open>
  The cache of recently used items, \<^verbatim>\<open>Cache\<close> in \<^verbatim>\<open>include/common/lru_cache.hpp\<close>. Nodes are shared
  between the map and the linked list, so they live in a heap: the map holds their addresses and the
  list is the sequence of addresses from head to tail. Using an address that has been deleted is undefined: \<^term>\<open>None\<close>.
  The abstract cache is the list of its items, least recently used first.
\<close>

section \<open>The cache\<close>

record ('k, 'v) lru_node =
  ln_value :: 'v
  ln_key :: 'k

record ('k, 'v) cache =
  ca_heap :: "nat \<rightharpoonup> ('k, 'v) lru_node"
  ca_next :: nat
  ca_lru_list :: "nat list"
  ca_lru_map :: "('k \<times> nat) list"
  ca_total_count :: int
  ca_hit_count :: int
  ca_len_threshold :: int

definition new_cache :: "('k, 'v) cache" where
  "new_cache = \<lparr>ca_heap = Map.empty, ca_next = 0, ca_lru_list = [], ca_lru_map = [],
     ca_total_count = 0, ca_hit_count = 0, ca_len_threshold = 10000\<rparr>"

definition cache_init :: "int \<Rightarrow> ('k, 'v) cache \<Rightarrow> ('k, 'v) cache" where
  "cache_init len_threshold c = c\<lparr>ca_len_threshold := len_threshold\<rparr>"

definition cache_check :: "'k \<Rightarrow> ('k, 'v) cache \<Rightarrow> int" where
  "cache_check key c = (if map_of (ca_lru_map c) key \<noteq> None then 0 else -1)"

text \<open>\<^term>\<open>Some v\<close> is the answer 0 with the value, \<^term>\<open>None\<close> the answer -1.\<close>

definition cache_find :: "'k \<Rightarrow> ('k, 'v) cache \<Rightarrow> ('v option \<times> ('k, 'v) cache) option" where
  "cache_find key c =
     (let c = c\<lparr>ca_total_count := ca_total_count c + 1\<rparr> in
      case map_of (ca_lru_map c) key of
        None \<Rightarrow> Some (None, c)
      | Some node \<Rightarrow>
          (let c = c\<lparr>ca_hit_count := ca_hit_count c + 1\<rparr> in
           case ca_heap c node of
             None \<Rightarrow> None
           | Some n \<Rightarrow> Some (Some (ln_value n), c\<lparr>ca_lru_list := removeAll node (ca_lru_list c) @ [node]\<rparr>)))"

text \<open>The loop that evicts from the head, over the list that is left.\<close>

fun cache_evict :: "nat list \<Rightarrow> ('k, 'v) cache \<Rightarrow> ('k, 'v) cache option" where
  "cache_evict [] c = Some (c\<lparr>ca_lru_list := []\<rparr>)"
| "cache_evict (head # rest) c =
     (if int (length (ca_lru_map c)) \<ge> ca_len_threshold c then
        (case ca_heap c head of
           None \<Rightarrow> None
         | Some n \<Rightarrow> cache_evict rest
             (c\<lparr>ca_lru_map := AList.delete (ln_key n) (ca_lru_map c), ca_heap := (ca_heap c)(head := None)\<rparr>))
      else Some (c\<lparr>ca_lru_list := head # rest\<rparr>))"

text \<open>A new node has no key and no value until the loop is over.\<close>

definition cache_add :: "('k, 'v) lru_node \<Rightarrow> 'k \<Rightarrow> 'v \<Rightarrow> ('k, 'v) cache \<Rightarrow> ('k, 'v) cache option" where
  "cache_add blank key value c =
     (let (node, c1) =
        (case map_of (ca_lru_map c) key of
           Some node \<Rightarrow> (node, c\<lparr>ca_lru_list := removeAll node (ca_lru_list c)\<rparr>)
         | None \<Rightarrow> (ca_next c, c\<lparr>ca_heap := (ca_heap c)(ca_next c \<mapsto> blank), ca_next := ca_next c + 1,
                       ca_lru_map := (key, ca_next c) # ca_lru_map c\<rparr>))
      in
      case cache_evict (ca_lru_list c1) c1 of
        None \<Rightarrow> None
      | Some c2 \<Rightarrow>
          (case ca_heap c2 node of
             None \<Rightarrow> None
           | Some n \<Rightarrow> Some (c2\<lparr>ca_heap := (ca_heap c2)(node \<mapsto> n\<lparr>ln_value := value, ln_key := key\<rparr>),
                               ca_lru_list := ca_lru_list c2 @ [node]\<rparr>)))"

definition cache_del :: "'k \<Rightarrow> ('k, 'v) cache \<Rightarrow> ('k, 'v) cache option" where
  "cache_del key c =
     (case map_of (ca_lru_map c) key of
        None \<Rightarrow> Some c
      | Some node \<Rightarrow>
          (case ca_heap c node of
             None \<Rightarrow> None
           | Some n \<Rightarrow> Some (c\<lparr>ca_lru_list := removeAll node (ca_lru_list c),
                               ca_lru_map := AList.delete (ln_key n) (ca_lru_map c),
                               ca_heap := (ca_heap c)(node := None)\<rparr>)))"

section \<open>The abstract cache\<close>

text \<open>Adding keeps, beside the new item, the \<open>threshold - 2\<close> items used last.\<close>

definition lru_keep :: "int \<Rightarrow> ('k \<times> 'v) list \<Rightarrow> ('k \<times> 'v) list" where
  "lru_keep threshold xs = drop (length xs - nat (threshold - 2)) xs"

definition lru_add :: "int \<Rightarrow> 'k \<Rightarrow> 'v \<Rightarrow> ('k \<times> 'v) list \<Rightarrow> ('k \<times> 'v) list" where
  "lru_add threshold key value xs = lru_keep threshold (AList.delete key xs) @ [(key, value)]"

definition lru_find :: "'k \<Rightarrow> ('k \<times> 'v) list \<Rightarrow> 'v option \<times> ('k \<times> 'v) list" where
  "lru_find key xs =
     (case map_of xs key of None \<Rightarrow> (None, xs) | Some v \<Rightarrow> (Some v, AList.delete key xs @ [(key, v)]))"

section \<open>The refinement\<close>

text \<open>The items of a list of addresses.\<close>

definition item :: "('k, 'v) cache \<Rightarrow> nat \<Rightarrow> 'k \<times> 'v" where
  "item c i = (case ca_heap c i of Some n \<Rightarrow> (ln_key n, ln_value n))"

text \<open>
  \<open>linked c is\<close>: the addresses \<open>is\<close> are those of live nodes with distinct keys. The map of the
  cache is the one of the list, with one more entry while a node is being added.
\<close>

definition linked :: "('k, 'v) cache \<Rightarrow> nat list \<Rightarrow> bool" where
  "linked c is \<longleftrightarrow> distinct is \<and> (\<forall>i \<in> set is. ca_heap c i \<noteq> None \<and> i < ca_next c) \<and>
     distinct (map (fst \<circ> item c) is)"

definition map_rel :: "('k, 'v) cache \<Rightarrow> nat list \<Rightarrow> ('k \<times> nat) set \<Rightarrow> bool" where
  "map_rel c is extra \<longleftrightarrow> distinct (map fst (ca_lru_map c)) \<and>
     set (ca_lru_map c) = (\<lambda>i. (fst (item c i), i)) ` set is \<union> extra"

definition cache_rel :: "('k, 'v) cache \<Rightarrow> ('k \<times> 'v) list \<Rightarrow> bool" where
  "cache_rel c xs \<longleftrightarrow> linked c (ca_lru_list c) \<and> map_rel c (ca_lru_list c) {} \<and> xs = map (item c) (ca_lru_list c)"

lemma set_delete: "set (AList.delete k m) = {p \<in> set m. fst p \<noteq> k}"
  by (auto simp: AList.delete_eq)

lemma delete_absent: "k \<notin> fst ` set m \<Longrightarrow> AList.delete k m = m"
  by (induction m) auto

lemma distinct_delete: "distinct (map fst m) \<Longrightarrow> distinct (map fst (AList.delete k m))"
  by (simp add: distinct_map_filter AList.delete_eq case_prod_unfold)

lemma length_lru_map:
  assumes "linked c is" and "map_rel c is extra" and "finite extra" and "extra \<inter> (\<lambda>i. (fst (item c i), i)) ` set is = {}"
  shows "length (ca_lru_map c) = length is + card extra"
proof -
  have "distinct (ca_lru_map c)" using assms(2) by (simp add: map_rel_def distinct_map)
  then have "length (ca_lru_map c) = card (set (ca_lru_map c))" by (simp add: distinct_card)
  also have "\<dots> = card ((\<lambda>i. (fst (item c i), i)) ` set is) + card extra"
    using assms(2) card_Un_disjoint [OF _ assms(3), of "(\<lambda>i. (fst (item c i), i)) ` set is"] assms(4)
    by (simp add: map_rel_def Int_commute)
  also have "card ((\<lambda>i. (fst (item c i), i)) ` set is) = length is"
    using assms(1) by (subst card_image) (simp_all add: linked_def distinct_card inj_on_def)
  finally show ?thesis .
qed

lemma lru_keep_Nil [simp]: "lru_keep threshold [] = []"
  by (simp add: lru_keep_def)

lemma lru_keep_Cons:
  "lru_keep threshold (x # xs) =
     (if int (length xs) + 2 \<ge> threshold then lru_keep threshold xs else x # xs)"
  by (auto simp: lru_keep_def drop_Cons' nat_le_iff le_nat_iff Suc_diff_le not_le Suc_le_eq)

lemma length_lru_keep: "int (length (lru_keep threshold xs)) \<le> max 0 (threshold - 2)"
  by (simp add: lru_keep_def)

text \<open>One turn of the loop.\<close>

lemma linked_tail:
  assumes "linked c (head # rest)" and "map_rel c (head # rest) {(key, node)}" and "node \<notin> set (head # rest)"
    and "key \<notin> (fst \<circ> item c) ` set (head # rest)" and "ca_heap c head = Some n"
    and "c' = c\<lparr>ca_lru_map := AList.delete (ln_key n) (ca_lru_map c), ca_heap := (ca_heap c)(head := None)\<rparr>"
  shows "linked c' rest" and "map_rel c' rest {(key, node)}" and "i \<in> set rest \<Longrightarrow> item c' i = item c i"
    and "ca_heap c' node = ca_heap c node"
proof -
  have h: "item c head = (ln_key n, ln_value n)" using assms(5) by (simp add: item_def)
  have it: "item c' i = item c i" if "i \<in> set rest" for i
    using that assms(1,6) by (auto simp: item_def linked_def)
  then show "i \<in> set rest \<Longrightarrow> item c' i = item c i" .
  show "linked c' rest" using assms(1,6) it by (auto simp: linked_def distinct_map inj_on_def)
  show "ca_heap c' node = ca_heap c node" using assms(3,6) by simp
  have "set (AList.delete (ln_key n) (ca_lru_map c)) = (\<lambda>i. (fst (item c i), i)) ` set rest \<union> {(key, node)}"
    using assms(1,2,4) h by (auto simp: set_delete map_rel_def linked_def image_iff)
  moreover have "(\<lambda>i. (fst (item c' i), i)) ` set rest = (\<lambda>i. (fst (item c i), i)) ` set rest"
    using it by (auto intro!: image_cong)
  ultimately show "map_rel c' rest {(key, node)}"
    using assms(2,6) by (simp add: map_rel_def distinct_delete)
qed

text \<open>The loop keeps the items used last.\<close>

lemma cache_evict_keep:
  assumes "linked c is" and "map_rel c is {(key, node)}" and "node \<notin> set is" and "key \<notin> (fst \<circ> item c) ` set is"
  shows "\<exists>c' is'. cache_evict is c = Some c' \<and> ca_lru_list c' = is' \<and> linked c' is' \<and> map_rel c' is' {(key, node)} \<and>
    set is' \<subseteq> set is \<and> map (item c') is' = lru_keep (ca_len_threshold c) (map (item c) is) \<and>
    ca_heap c' node = ca_heap c node \<and> ca_next c' = ca_next c \<and> ca_len_threshold c' = ca_len_threshold c"
  using assms
proof (induction "is" arbitrary: c)
  case Nil
  then show ?case by (simp add: linked_def map_rel_def)
next
  case (Cons head rest)
  then obtain n where n: "ca_heap c head = Some n" by (auto simp: linked_def)
  have len: "length (ca_lru_map c) = length rest + 2"
    using length_lru_map [OF Cons.prems(1,2)] Cons.prems(3) by auto
  show ?case
  proof (cases "int (length rest) + 2 \<ge> ca_len_threshold c")
    case True
    define c1 where "c1 = c\<lparr>ca_lru_map := AList.delete (ln_key n) (ca_lru_map c), ca_heap := (ca_heap c)(head := None)\<rparr>"
    note t = linked_tail [OF Cons.prems n c1_def]
    have k: "key \<notin> (fst \<circ> item c1) ` set rest" and m: "map (item c1) rest = map (item c) rest"
      using Cons.prems(4) t(3) by auto
    obtain c' is' where "cache_evict rest c1 = Some c'" "ca_lru_list c' = is'" "linked c' is'" "map_rel c' is' {(key, node)}"
      "set is' \<subseteq> set rest" "map (item c') is' = lru_keep (ca_len_threshold c1) (map (item c1) rest)"
      "ca_heap c' node = ca_heap c1 node" "ca_next c' = ca_next c1" "ca_len_threshold c' = ca_len_threshold c1"
      using Cons.IH [OF t(1,2) _ k] Cons.prems(3) by auto
    moreover have "cache_evict (head # rest) c = cache_evict rest c1"
      using True len by (simp add: n c1_def)
    moreover have "ca_next c1 = ca_next c" "ca_len_threshold c1 = ca_len_threshold c" by (simp_all add: c1_def)
    ultimately show ?thesis
      using True t(4) m by (auto simp: lru_keep_Cons simp del: cache_evict.simps)
  next
    case False
    let ?c = "c\<lparr>ca_lru_list := head # rest\<rparr>"
    have "item ?c = item c" by (simp add: item_def fun_eq_iff)
    then show ?thesis
      using False len Cons.prems by (simp add: lru_keep_Cons linked_def map_rel_def)
  qed
qed

section \<open>Every operation refines its abstract one\<close>

lemma cache_rel_map:
  assumes "cache_rel c xs"
  shows "map_of (ca_lru_map c) k = Some i \<longleftrightarrow> i \<in> set (ca_lru_list c) \<and> fst (item c i) = k"
    and "map_of xs k = (case map_of (ca_lru_map c) k of None \<Rightarrow> None | Some i \<Rightarrow> Some (snd (item c i)))"
proof -
  have d: "distinct (map fst (ca_lru_map c))" "distinct (map fst xs)"
    using assms by (auto simp: cache_rel_def map_rel_def linked_def comp_def)
  show i: "map_of (ca_lru_map c) k = Some i \<longleftrightarrow> i \<in> set (ca_lru_list c) \<and> fst (item c i) = k" for i
    using d(1) assms by (auto simp: cache_rel_def map_rel_def)
  show "map_of xs k = (case map_of (ca_lru_map c) k of None \<Rightarrow> None | Some i \<Rightarrow> Some (snd (item c i)))"
  proof (cases "map_of (ca_lru_map c) k")
    case None
    then have "\<forall>i \<in> set (ca_lru_list c). fst (item c i) \<noteq> k" using i by (metis option.distinct(1))
    then have "k \<notin> fst ` set xs" using assms by (auto simp: cache_rel_def)
    then have "map_of xs k = None" by (simp add: map_of_eq_None_iff)
    then show ?thesis using None by simp
  next
    case (Some i')
    then have "(k, snd (item c i')) \<in> set xs" using i [of i'] assms by (force simp: cache_rel_def image_iff)
    then show ?thesis using Some d(2) by simp
  qed
qed

lemma removeAll_items:
  assumes "linked c is" and "i \<in> set is"
  shows "map (item c) (removeAll i is) = AList.delete (fst (item c i)) (map (item c) is)"
proof -
  have "j = i \<longleftrightarrow> fst (item c j) = fst (item c i)" if "j \<in> set is" for j
    using assms that by (auto simp: linked_def distinct_map inj_on_def)
  then have "filter (\<lambda>j. i \<noteq> j) is = filter (\<lambda>j. fst (item c j) \<noteq> fst (item c i)) is"
    by (intro filter_cong) auto
  then show ?thesis
    by (simp add: removeAll_filter_not_eq AList.delete_eq filter_map comp_def case_prod_unfold eq_commute)
qed

text \<open>Only the heap, the next address and the map matter, and the addresses up to their order.\<close>

lemma linked_cong:
  assumes "linked c is" and "map_rel c is extra" and "set js = set is" and "distinct js"
    and "ca_heap c' = ca_heap c" and "ca_next c' = ca_next c" and "ca_lru_map c' = ca_lru_map c"
  shows "linked c' js" and "map_rel c' js extra" and "item c' = item c"
proof -
  show it: "item c' = item c" using assms(5) by (simp add: item_def fun_eq_iff)
  show "linked c' js" using assms it by (simp add: linked_def distinct_map)
  show "map_rel c' js extra" using assms it by (simp add: map_rel_def)
qed

lemma cache_find_refines:
  assumes rel: "cache_rel c xs"
  shows "\<exists>c'. cache_find k c = Some (fst (lru_find k xs), c') \<and> cache_rel c' (snd (lru_find k xs)) \<and>
    ca_len_threshold c' = ca_len_threshold c"
proof (cases "map_of (ca_lru_map c) k")
  case None
  then show ?thesis
    using rel cache_rel_map(2) [OF rel, of k]
    by (auto simp: cache_find_def lru_find_def cache_rel_def linked_def map_rel_def item_def [abs_def] comp_def)
next
  case (Some i)
  then have i: "i \<in> set (ca_lru_list c)" "fst (item c i) = k" using cache_rel_map(1) [OF rel] by auto
  then obtain n where n: "ca_heap c i = Some n" using rel by (auto simp: cache_rel_def linked_def)
  then have it: "item c i = (k, ln_value n)" using i by (simp add: item_def)
  let ?c = "c\<lparr>ca_total_count := ca_total_count c + 1, ca_hit_count := ca_hit_count c + 1,
    ca_lru_list := removeAll i (ca_lru_list c) @ [i]\<rparr>"
  have s: "item ?c = item c" by (simp add: item_def fun_eq_iff)
  have "linked c (ca_lru_list c)" using rel by (simp add: cache_rel_def)
  from removeAll_items [OF this i(1)] have
    m: "map (item c) (removeAll i (ca_lru_list c) @ [i]) = AList.delete k xs @ [(k, ln_value n)]"
    using rel it i by (simp add: cache_rel_def)
  have "set (removeAll i (ca_lru_list c) @ [i]) = set (ca_lru_list c)" "distinct (removeAll i (ca_lru_list c) @ [i])"
    using rel i by (auto simp: cache_rel_def linked_def distinct_removeAll)
  note l = linked_cong [where c' = ?c, OF _ _ this]
  have "cache_rel ?c (AList.delete k xs @ [(k, ln_value n)])"
    using l [of c "{}"] rel m s by (simp add: cache_rel_def)
  then show ?thesis
    using Some n it cache_rel_map(2) [OF rel, of k] by (simp add: cache_find_def lru_find_def Let_def)
qed

lemma linked_removeAll:
  assumes "linked c is" and "map_rel c is {}" and "i \<in> set is"
  shows "linked c (removeAll i is)" and "map_rel c (removeAll i is) {(fst (item c i), i)}"
    and "fst (item c i) \<notin> (fst \<circ> item c) ` set (removeAll i is)"
  using assms by (auto simp: linked_def map_rel_def distinct_removeAll distinct_map inj_on_def)

text \<open>After the loop the node gets its key and value and goes to the tail.\<close>

lemma append_node:
  assumes "linked c is" and "map_rel c is {(key, node)}" and "node \<notin> set is" and "key \<notin> (fst \<circ> item c) ` set is"
    and "node < ca_next c" and "ln_key n = key" and "c' = c\<lparr>ca_heap := (ca_heap c)(node \<mapsto> n), ca_lru_list := is @ [node]\<rparr>"
  shows "cache_rel c' (map (item c) is @ [(key, ln_value n)])"
proof -
  have it: "item c' i = (if i = node then (key, ln_value n) else item c i)" for i
    using assms(6,7) by (simp add: item_def)
  then have m: "map (item c') is = map (item c) is" using assms(3) by auto
  have f: "map (fst \<circ> item c') is = map (fst \<circ> item c) is" unfolding map_map [symmetric] m ..
  have "(fst \<circ> item c') node = key" using it [of node] by simp
  then have "distinct (map (fst \<circ> item c') (is @ [node]))"
    using assms(1,4) unfolding map_append f linked_def by (simp del: comp_apply)
  then have "linked c' (is @ [node])"
    using assms(1,3,5,7) by (auto simp: linked_def)
  moreover have "(\<lambda>i. (fst (item c' i), i)) ` set is = (\<lambda>i. (fst (item c i), i)) ` set is"
    using it assms(3) by (auto intro!: image_cong)
  then have "map_rel c' (is @ [node]) {}"
    using assms(2,7) it by (simp add: map_rel_def)
  ultimately show ?thesis using m it assms(7) by (simp add: cache_rel_def)
qed

lemma cache_add_from:
  assumes "linked c is" and "map_rel c is {(key, node)}" and "node \<notin> set is" and "key \<notin> (fst \<circ> item c) ` set is"
    and "node < ca_next c" and "ca_heap c node = Some n"
  shows "\<exists>c2. cache_evict is c = Some c2 \<and> ca_heap c2 node = Some n \<and> ca_len_threshold c2 = ca_len_threshold c \<and>
    cache_rel (c2\<lparr>ca_heap := (ca_heap c2)(node \<mapsto> n\<lparr>ln_value := v, ln_key := key\<rparr>), ca_lru_list := ca_lru_list c2 @ [node]\<rparr>)
      (lru_keep (ca_len_threshold c) (map (item c) is) @ [(key, v)])"
proof -
  obtain c2 is' where e: "cache_evict is c = Some c2" "ca_lru_list c2 = is'" "linked c2 is'" "map_rel c2 is' {(key, node)}"
    "set is' \<subseteq> set is" "map (item c2) is' = lru_keep (ca_len_threshold c) (map (item c) is)"
    "ca_heap c2 node = ca_heap c node" "ca_next c2 = ca_next c" "ca_len_threshold c2 = ca_len_threshold c"
    using cache_evict_keep [OF assms(1-4)] by blast
  have "set (lru_keep (ca_len_threshold c) (map (item c) is)) \<subseteq> item c ` set is"
    using set_drop_subset by (fastforce simp: lru_keep_def)
  then have "item c2 ` set is' \<subseteq> item c ` set is" using e(6) by (metis list.set_map)
  then have "key \<notin> (fst \<circ> item c2) ` set is'" using assms(4) by force
  from append_node [OF e(3,4) _ this _ _ refl, of "n\<lparr>ln_value := v, ln_key := key\<rparr>"] e assms(3,5,6)
  show ?thesis by (intro exI [of _ c2] conjI) (auto simp del: cache_evict.simps)
qed

lemma cache_add_refines:
  assumes rel: "cache_rel c xs"
  shows "\<exists>c'. cache_add blank k v c = Some c' \<and> cache_rel c' (lru_add (ca_len_threshold c) k v xs) \<and>
    ca_len_threshold c' = ca_len_threshold c"
proof (cases "map_of (ca_lru_map c) k")
  case (Some i)
  then have i: "i \<in> set (ca_lru_list c)" "fst (item c i) = k" using cache_rel_map(1) [OF rel] by auto
  have l: "linked c (ca_lru_list c)" "map_rel c (ca_lru_list c) {}" "xs = map (item c) (ca_lru_list c)"
    using rel by (simp_all add: cache_rel_def)
  obtain n where n: "ca_heap c i = Some n" and "i < ca_next c" using l(1) i(1) by (auto simp: linked_def)
  let ?is = "removeAll i (ca_lru_list c)" and ?c = "c\<lparr>ca_lru_list := removeAll i (ca_lru_list c)\<rparr>"
  note r = linked_removeAll [OF l(1,2) i(1)]
  have "distinct ?is" using r(1) by (simp add: linked_def)
  note g = linked_cong [where c' = ?c, OF r(1,2) refl this, simplified]
  have "k \<notin> (fst \<circ> item ?c) ` set ?is" using r(3) g(3) i(2) by simp
  from cache_add_from [OF g(1,2) [unfolded i(2)] _ this, of n v] n \<open>i < ca_next c\<close>
  obtain c2 where "cache_evict ?is ?c = Some c2" "ca_heap c2 i = Some n" "ca_len_threshold c2 = ca_len_threshold c"
    "cache_rel (c2\<lparr>ca_heap := (ca_heap c2)(i \<mapsto> n\<lparr>ln_value := v, ln_key := k\<rparr>), ca_lru_list := ca_lru_list c2 @ [i]\<rparr>)
      (lru_keep (ca_len_threshold c) (map (item ?c) ?is) @ [(k, v)])"
    by auto
  moreover have "map (item ?c) ?is = AList.delete k xs"
    using removeAll_items [OF l(1) i(1)] g(3) i(2) l(3) by simp
  ultimately show ?thesis using Some by (simp add: cache_add_def lru_add_def del: cache_evict.simps)
next
  case None
  have l: "linked c (ca_lru_list c)" "map_rel c (ca_lru_list c) {}" "xs = map (item c) (ca_lru_list c)"
    using rel by (simp_all add: cache_rel_def)
  let ?is = "ca_lru_list c"
  define c1 where "c1 = c\<lparr>ca_heap := (ca_heap c)(ca_next c \<mapsto> blank), ca_next := ca_next c + 1,
    ca_lru_map := (k, ca_next c) # ca_lru_map c\<rparr>"
  have fresh: "ca_next c \<notin> set ?is" using l(1) by (auto simp: linked_def)
  then have it: "\<forall>i \<in> set ?is. item c1 i = item c i" by (auto simp: item_def c1_def)
  have k: "k \<notin> (fst \<circ> item c) ` set ?is" using None cache_rel_map(1) [OF rel, of k] by auto
  have "linked c1 ?is" using l(1) it by (auto simp: linked_def c1_def distinct_map inj_on_def less_Suc_eq)
  moreover have "(\<lambda>i. (fst (item c1 i), i)) ` set ?is = (\<lambda>i. (fst (item c i), i)) ` set ?is"
    using it by (auto intro!: image_cong)
  then have "map_rel c1 ?is {(k, ca_next c)}"
    using l(2) None by (auto simp: map_rel_def c1_def map_of_eq_None_iff)
  moreover have "k \<notin> (fst \<circ> item c1) ` set ?is" using k it by auto
  moreover have "ca_next c < ca_next c1" "ca_heap c1 (ca_next c) = Some blank" "ca_len_threshold c1 = ca_len_threshold c"
    "ca_lru_list c1 = ?is" by (simp_all add: c1_def)
  moreover have "map (item c1) ?is = xs" using it l(3) by simp
  moreover have "AList.delete k xs = xs" using k l(3) by (intro delete_absent) auto
  moreover have "cache_add blank k v c = (case cache_evict ?is c1 of None \<Rightarrow> None
      | Some c2 \<Rightarrow> (case ca_heap c2 (ca_next c) of None \<Rightarrow> None
          | Some n \<Rightarrow> Some (c2\<lparr>ca_heap := (ca_heap c2)(ca_next c \<mapsto> n\<lparr>ln_value := v, ln_key := k\<rparr>),
              ca_lru_list := ca_lru_list c2 @ [ca_next c]\<rparr>)))"
    using None by (simp add: cache_add_def c1_def del: cache_evict.simps)
  ultimately show ?thesis
    using fresh cache_add_from [of c1 ?is k "ca_next c" blank v]
    by (auto simp: lru_add_def simp del: cache_evict.simps)
qed

lemma except_extra:
  "k \<notin> g ` S \<Longrightarrow> {p \<in> (\<lambda>i. (g i, i)) ` S \<union> {(k, j)}. fst p \<noteq> k} = (\<lambda>i. (g i, i)) ` S"
  by auto

lemma cache_del_refines:
  assumes rel: "cache_rel c xs"
  shows "\<exists>c'. cache_del k c = Some c' \<and> cache_rel c' (AList.delete k xs) \<and> ca_len_threshold c' = ca_len_threshold c"
proof (cases "map_of (ca_lru_map c) k")
  case None
  then have "map_of xs k = None" using cache_rel_map(2) [OF rel, of k] by simp
  then have "AList.delete k xs = xs" by (intro delete_absent) (simp add: map_of_eq_None_iff)
  then show ?thesis using None rel by (simp add: cache_del_def)
next
  case (Some i)
  then have i: "i \<in> set (ca_lru_list c)" "fst (item c i) = k" using cache_rel_map(1) [OF rel] by auto
  have l: "linked c (ca_lru_list c)" "map_rel c (ca_lru_list c) {}" "xs = map (item c) (ca_lru_list c)"
    using rel by (simp_all add: cache_rel_def)
  obtain n where n: "ca_heap c i = Some n" using l(1) i(1) by (auto simp: linked_def)
  then have key: "ln_key n = k" using i(2) by (simp add: item_def)
  let ?is = "removeAll i (ca_lru_list c)"
  define c' where "c' = c\<lparr>ca_lru_list := ?is, ca_lru_map := AList.delete k (ca_lru_map c), ca_heap := (ca_heap c)(i := None)\<rparr>"
  note r = linked_removeAll [OF l(1,2) i(1)]
  have it: "\<forall>j \<in> set ?is. item c' j = item c j" by (auto simp: item_def c'_def)
  have "linked c' ?is" using r(1) it by (auto simp: linked_def c'_def distinct_map inj_on_def)
  moreover have "(\<lambda>i. (fst (item c' i), i)) ` set ?is = (\<lambda>i. (fst (item c i), i)) ` set ?is"
    using it by (auto intro!: image_cong)
  moreover have "set (AList.delete k (ca_lru_map c)) = (\<lambda>i. (fst (item c i), i)) ` set ?is"
  proof -
    have "k \<notin> (\<lambda>i. fst (item c i)) ` set ?is" using r(3) i(2) by (simp add: comp_def)
    from except_extra [OF this, of i] r(2) i(2) show ?thesis unfolding map_rel_def set_delete by (simp only:)
  qed
  moreover have "ca_lru_map c' = AList.delete k (ca_lru_map c)" by (simp add: c'_def)
  ultimately have "linked c' ?is" and "map_rel c' ?is {}"
    using r(2) by (simp_all add: map_rel_def distinct_delete)
  moreover have "map (item c') ?is = AList.delete k xs"
    using removeAll_items [OF l(1) i(1)] it i(2) l(3) by (metis map_cong)
  ultimately have "cache_rel c' (AList.delete k xs)" by (simp add: cache_rel_def c'_def)
  then show ?thesis using Some n key by (simp add: cache_del_def c'_def)
qed

section \<open>Runs\<close>

datatype ('k, 'v) cache_op = Find 'k | Add 'k 'v | Del 'k

text \<open>The answers to the calls of \<open>find\<close>, and the cache reached.\<close>

fun cache_run :: "('k, 'v) lru_node \<Rightarrow> ('k, 'v) cache_op list \<Rightarrow> ('k, 'v) cache \<Rightarrow> ('v option list \<times> ('k, 'v) cache) option" where
  "cache_run blank [] c = Some ([], c)"
| "cache_run blank (Find k # ops) c =
     (case cache_find k c of None \<Rightarrow> None
      | Some (a, c') \<Rightarrow> map_option (\<lambda>(as, c''). (a # as, c'')) (cache_run blank ops c'))"
| "cache_run blank (Add k v # ops) c =
     (case cache_add blank k v c of None \<Rightarrow> None | Some c' \<Rightarrow> cache_run blank ops c')"
| "cache_run blank (Del k # ops) c =
     (case cache_del k c of None \<Rightarrow> None | Some c' \<Rightarrow> cache_run blank ops c')"

fun lru_run :: "int \<Rightarrow> ('k, 'v) cache_op list \<Rightarrow> ('k \<times> 'v) list \<Rightarrow> 'v option list \<times> ('k \<times> 'v) list" where
  "lru_run threshold [] xs = ([], xs)"
| "lru_run threshold (Find k # ops) xs =
     (case lru_find k xs of (a, xs') \<Rightarrow> case lru_run threshold ops xs' of (as, ys) \<Rightarrow> (a # as, ys))"
| "lru_run threshold (Add k v # ops) xs = lru_run threshold ops (lru_add threshold k v xs)"
| "lru_run threshold (Del k # ops) xs = lru_run threshold ops (AList.delete k xs)"

lemma cache_run_refines:
  "cache_rel c xs \<Longrightarrow> \<exists>c'. cache_run blank ops c = Some (fst (lru_run (ca_len_threshold c) ops xs), c') \<and>
     cache_rel c' (snd (lru_run (ca_len_threshold c) ops xs))"
proof (induction ops arbitrary: c xs)
  case (Cons oper ops)
  show ?case
  proof (cases oper)
    case (Find k)
    from cache_find_refines [OF Cons.prems, of k] obtain c' where
      "cache_find k c = Some (fst (lru_find k xs), c')" "cache_rel c' (snd (lru_find k xs))" "ca_len_threshold c' = ca_len_threshold c"
      by blast
    with Cons.IH [OF this(2)] Find show ?thesis by (auto split: prod.splits)
  next
    case (Add k v)
    from cache_add_refines [OF Cons.prems, of blank k v] obtain c' where
      "cache_add blank k v c = Some c'" "cache_rel c' (lru_add (ca_len_threshold c) k v xs)" "ca_len_threshold c' = ca_len_threshold c"
      by blast
    with Cons.IH [OF this(2)] Add show ?thesis by simp
  next
    case (Del k)
    from cache_del_refines [OF Cons.prems, of k] obtain c' where
      "cache_del k c = Some c'" "cache_rel c' (AList.delete k xs)" "ca_len_threshold c' = ca_len_threshold c"
      by blast
    with Cons.IH [OF this(2)] Del show ?thesis by simp
  qed
qed simp

lemma length_delete: "length (AList.delete k xs) \<le> length xs"
  by (simp add: AList.delete_eq)

lemma length_find: "length (snd (lru_find k xs)) \<le> length xs"
proof (cases "map_of xs k")
  case (Some v)
  then have "(k, v) \<in> set xs" by (rule map_of_SomeD)
  then have "length (AList.delete k xs) < length xs"
    by (auto simp: AList.delete_eq intro!: length_filter_less)
  then show ?thesis using Some by (simp add: lru_find_def)
qed (simp add: lru_find_def)

lemma length_lru_run:
  "int (length xs) \<le> max 1 (threshold - 1) \<Longrightarrow> int (length (snd (lru_run threshold ops xs))) \<le> max 1 (threshold - 1)"
proof (induction ops arbitrary: xs)
  case (Cons oper ops)
  show ?case
  proof (cases oper)
    case (Find k)
    have "int (length (snd (lru_find k xs))) \<le> max 1 (threshold - 1)"
      using length_find [of k xs] Cons.prems by linarith
    from Cons.IH [OF this] Find show ?thesis by (auto split: prod.splits)
  next
    case (Add k v)
    have "int (length (lru_add threshold k v xs)) \<le> max 1 (threshold - 1)"
      using length_lru_keep [of threshold "AList.delete k xs"] by (simp add: lru_add_def)
    from Cons.IH [OF this] Add show ?thesis by simp
  next
    case (Del k)
    have "int (length (AList.delete k xs)) \<le> max 1 (threshold - 1)"
      using length_delete [of k xs] Cons.prems by linarith
    from Cons.IH [OF this] Del show ?thesis by simp
  qed
qed simp

text \<open>
  (C27) The cache is a cache of the least recently used kind. Any sequence of \<open>find\<close>, \<open>add\<close> and
  \<open>del\<close> on a new cache uses no deleted node and gives the answers of the abstract cache, in which
  a hit or an addition makes an item the last and an addition keeps, beside the new item, the items used last. The
  map has as many entries as the abstract cache, at most one less than the threshold, or one.
\<close>

theorem cache_refines_lru:
  "\<exists>c. cache_run blank ops (cache_init threshold new_cache) = Some (fst (lru_run threshold ops []), c) \<and>
     int (length (ca_lru_map c)) = int (length (snd (lru_run threshold ops []))) \<and>
     int (length (ca_lru_map c)) \<le> max 1 (threshold - 1)"
proof -
  have "cache_rel (cache_init threshold new_cache) []"
    by (simp add: cache_rel_def linked_def map_rel_def cache_init_def new_cache_def)
  from cache_run_refines [OF this, of blank ops] obtain c where
    c: "cache_run blank ops (cache_init threshold new_cache) = Some (fst (lru_run threshold ops []), c)"
      "cache_rel c (snd (lru_run threshold ops []))"
    by (auto simp: cache_init_def)
  have "length (ca_lru_map c) = length (ca_lru_list c)"
    using c(2) length_lru_map [of c "ca_lru_list c" "{}"] by (simp add: cache_rel_def)
  also have "\<dots> = length (snd (lru_run threshold ops []))" using c(2) by (metis cache_rel_def length_map)
  finally show ?thesis using c(1) length_lru_run [of "[]" threshold ops] by auto
qed

end
