(* ===== verification/Loops.thy ===== *)
theory Loops
  imports Main
begin

text \<open>
  Loops of the code that need not end.  A loop body is a step function that
  answers the next state (\<^const>\<open>Inl\<close>) or leaves the loop with a result
  (\<^const>\<open>Inr\<close>).  Running it is a partial function in which not returning is
  \<^const>\<open>None\<close>, and \<^verbatim>\<open>run_loop_rule\<close> is the total correctness rule: an
  invariant that every step keeps and a well-founded relation that every step
  descends give the result.
\<close>

partial_function (option) run_loop :: "('s \<Rightarrow> 's + 'r) \<Rightarrow> 's \<Rightarrow> 'r option" where
  "run_loop body s = (case body s of Inl s' \<Rightarrow> run_loop body s' | Inr r \<Rightarrow> Some r)"

declare run_loop.simps [code]

lemma run_loop_Inl: "body s = Inl s' \<Longrightarrow> run_loop body s = run_loop body s'"
  by (subst run_loop.simps) simp

lemma run_loop_Inr: "body s = Inr r \<Longrightarrow> run_loop body s = Some r"
  by (subst run_loop.simps) simp

lemma run_loop_rule:
  assumes "wf R" and "I s"
    and next_state: "\<And>s s'. I s \<Longrightarrow> body s = Inl s' \<Longrightarrow> I s' \<and> (s', s) \<in> R"
    and final: "\<And>s r. I s \<Longrightarrow> body s = Inr r \<Longrightarrow> post r"
  shows "\<exists>r. run_loop body s = Some r \<and> post r"
  using \<open>wf R\<close> \<open>I s\<close>
proof (induction s rule: wf_induct_rule)
  case (less s)
  show ?case
  proof (cases "body s")
    case (Inl s')
    with next_state [OF less.prems Inl] less.IH show ?thesis
      by (simp add: run_loop_Inl [of body s, OF Inl])
  next
    case (Inr r)
    with final [OF less.prems Inr] show ?thesis
      by (simp add: run_loop_Inr [of body s, OF Inr])
  qed
qed

text \<open>A loop that follows another through an abstraction of its states and results.\<close>

lemma run_loop_forth:
  assumes step: "\<And>s. body2 (f s) = map_sum f g (body1 s)" and "run_loop body1 s = Some r"
  shows "run_loop body2 (f s) = Some (g r)"
proof -
  have "b = body1 \<longrightarrow> run_loop body2 (f s) = Some (g r)" if "run_loop b s = Some r" for b s r
  proof (rule run_loop.raw_induct [OF _ that])
    fix loop b s r
    assume IH: "\<And>b s r. loop b s = Some r \<Longrightarrow> b = body1 \<longrightarrow> run_loop body2 (f s) = Some (g r)"
      and eq: "(case b s of Inl s' \<Rightarrow> loop b s' | Inr r \<Rightarrow> Some r) = Some r"
    show "b = body1 \<longrightarrow> run_loop body2 (f s) = Some (g r)"
      using IH eq step [of s] by (cases "b s") (auto simp: run_loop_Inl run_loop_Inr)
  qed
  with assms(2) show ?thesis by blast
qed

lemma run_loop_back:
  assumes step: "\<And>s. body2 (f s) = map_sum f g (body1 s)" and "run_loop body2 (f s) = Some r"
  shows "\<exists>r'. run_loop body1 s = Some r'"
proof -
  have "\<forall>s. b = body2 \<longrightarrow> t = f s \<longrightarrow> (\<exists>r'. run_loop body1 s = Some r')"
    if "run_loop b t = Some r" for b t r
  proof (rule run_loop.raw_induct [OF _ that])
    fix loop b t r
    assume IH: "\<And>b t r. loop b t = Some r \<Longrightarrow> \<forall>s. b = body2 \<longrightarrow> t = f s \<longrightarrow> (\<exists>r'. run_loop body1 s = Some r')"
      and eq: "(case b t of Inl s' \<Rightarrow> loop b s' | Inr r \<Rightarrow> Some r) = Some r"
    show "\<forall>s. b = body2 \<longrightarrow> t = f s \<longrightarrow> (\<exists>r'. run_loop body1 s = Some r')"
    proof (intro allI impI)
      fix s assume "b = body2" "t = f s"
      then show "\<exists>r'. run_loop body1 s = Some r'"
        using IH eq step [of s] by (cases "body1 s") (auto simp: run_loop_Inl run_loop_Inr)
    qed
  qed
  with assms(2) show ?thesis by blast
qed

lemma run_loop_map:
  assumes "\<And>s. body2 (f s) = map_sum f g (body1 s)"
  shows "run_loop body2 (f s) = map_option g (run_loop body1 s)"
proof (cases "run_loop body1 s")
  case None
  with run_loop_back [of body2 f g body1 s, OF assms] show ?thesis
    by (cases "run_loop body2 (f s)") auto
next
  case (Some r)
  with run_loop_forth [of body2 f g body1 s r, OF assms] show ?thesis by simp
qed

end
