(* ===== verification/LikePredicate.thy ===== *)
theory LikePredicate
  imports Prelude Loops "HOL-Library.Sublist"
begin

text \<open>
  The LIKE predicate (\<^verbatim>\<open>include/expr/predicate.h\<close> and
  \<^verbatim>\<open>src/expr/predicate.cpp\<close>): the three character sets that cut a string into
  code points, the matching loop \<^verbatim>\<open>like\<close> with its single backtracking point,
  the choice of the character set in \<^verbatim>\<open>like_one\<close>, the alternatives of
  \<^verbatim>\<open>EXACT_LIKE\<close>, the literal prefix \<^verbatim>\<open>hit_index\<close> reads off a pattern, and the
  rewriting of a LIKE filter into comparisons by
  \<^verbatim>\<open>ExprNode::like_node_optimize\<close> (\<^verbatim>\<open>src/expr/expr_node.cpp\<close>).  A slice is a
  byte string; the empty slice is the code's failure value.
\<close>

section \<open>Character sets\<close>

definition under_score :: bytes where "under_score = [0x5F]"
definition percent :: bytes where "percent = [0x25]"
definition escape_char :: byte where "escape_char = 0x5C"

definition binary_next_code_point :: "bytes \<Rightarrow> nat \<Rightarrow> bytes" where
  "binary_next_code_point str idx = take 1 (drop idx str)"

fun continuation_bytes :: "bytes \<Rightarrow> nat" where
  "continuation_bytes [] = 0"
| "continuation_bytes (b # bs) =
     (if b AND 0xC0 = 0x80 then Suc (continuation_bytes bs) else 0)"

definition utf8_get_char_size :: "bytes \<Rightarrow> nat \<Rightarrow> nat" where
  "utf8_get_char_size str idx = 1 + continuation_bytes (drop (idx + 1) str)"

definition utf8_next_code_point :: "bytes \<Rightarrow> nat \<Rightarrow> bytes" where
  "utf8_next_code_point str idx =
     (if idx \<ge> length str then []
      else if (str ! idx) AND 0x80 = 0 then take 1 (drop idx str)
      else if (str ! idx) AND 0xE0 = 0xC0 then
        (if utf8_get_char_size str idx \<noteq> 2 then [] else take 2 (drop idx str))
      else if (str ! idx) AND 0xF0 = 0xE0 then
        (if utf8_get_char_size str idx \<noteq> 3 then [] else take 3 (drop idx str))
      else if (str ! idx) AND 0xF0 = 0xF0 then
        (if utf8_get_char_size str idx \<noteq> 4 then [] else take 4 (drop idx str))
      else [])"

definition in_range :: "byte \<Rightarrow> byte \<Rightarrow> byte \<Rightarrow> bool" where
  "in_range mn ch mx \<longleftrightarrow> ch \<ge> mn \<and> ch \<le> mx"

definition gbk_next_code_point :: "bytes \<Rightarrow> nat \<Rightarrow> bytes" where
  "gbk_next_code_point str idx =
     (if idx \<ge> length str then []
      else if (str ! idx) AND 0x80 = 0 then take 1 (drop idx str)
      else if idx + 1 < length str \<and> in_range 0x81 (str ! idx) 0xFE \<and>
          (in_range 0x40 (str ! (idx + 1)) 0x7E \<or> in_range 0x80 (str ! (idx + 1)) 0xFE)
        then take 2 (drop idx str)
      else [])"

section \<open>The matching loop\<close>

text \<open>
  The four positions of the loop.  \<^verbatim>\<open>npx\<close> is the last percent sign met and
  \<^verbatim>\<open>ntx\<close> where in the target to resume after it; zero means there is none.
\<close>

record like_pos =
  tx :: nat
  px :: nat
  ntx :: nat
  npx :: nat

definition point_offset :: "bytes \<Rightarrow> nat" where
  "point_offset t_point = (if length t_point > 0 then length t_point else 1)"

definition like_backtrack :: "bytes \<Rightarrow> like_pos \<Rightarrow> like_pos + bool option" where
  "like_backtrack target s =
     (if ntx s > 0 \<and> ntx s \<le> length target
      then Inl (s\<lparr>px := npx s, tx := ntx s\<rparr>)
      else Inr (Some False))"

definition like_literal ::
  "(bytes \<Rightarrow> nat \<Rightarrow> bytes) \<Rightarrow> bytes \<Rightarrow> bytes \<Rightarrow> like_pos \<Rightarrow> like_pos + bool option" where
  "like_literal next_code_point target p_point s =
     (if tx s < length target
      then let t_point = next_code_point target (tx s) in
        if length t_point = 0 then Inr None
        else if p_point = t_point
          then Inl (s\<lparr>px := px s + length p_point, tx := tx s + length t_point\<rparr>)
        else like_backtrack target s
      else like_backtrack target s)"

definition like_step ::
  "(bytes \<Rightarrow> nat \<Rightarrow> bytes) \<Rightarrow> bytes \<Rightarrow> bytes \<Rightarrow> like_pos \<Rightarrow> like_pos + bool option" where
  "like_step next_code_point target pattern s =
     (if \<not> (tx s < length target \<or> px s < length pattern) then Inr (Some True)
      else if px s < length pattern
      then let p_point = next_code_point pattern (px s) in
        if length p_point = 0 then Inr None
        else if p_point = under_score
        then (if tx s < length target
              then Inl (s\<lparr>px := px s + 1,
                          tx := tx s + point_offset (next_code_point target (tx s))\<rparr>)
              else like_backtrack target s)
        else if p_point = percent
        then let t_offset = (if tx s < length target
                             then point_offset (next_code_point target (tx s)) else 1) in
          Inl (s\<lparr>npx := px s, ntx := tx s + t_offset, px := px s + 1\<rparr>)
        else if p_point = [escape_char] \<and> px s + 1 < length pattern
        then let p_point = next_code_point pattern (px s + 1) in
          if length p_point = 0 then Inr None
          else like_literal next_code_point target p_point (s\<lparr>px := px s + 1\<rparr>)
        else like_literal next_code_point target p_point s
      else like_backtrack target s)"

definition like_start :: like_pos where
  "like_start = \<lparr>tx = 0, px = 0, ntx = 0, npx = 0\<rparr>"

definition like ::
  "(bytes \<Rightarrow> nat \<Rightarrow> bytes) \<Rightarrow> bytes \<Rightarrow> bytes \<Rightarrow> bool option option" where
  "like next_code_point target pattern =
     run_loop (like_step next_code_point target pattern) like_start"

datatype charset = UTF8 | GBK | CS_UNKNOWN

definition like_binary :: "bytes \<Rightarrow> bytes \<Rightarrow> bool option" where
  "like_binary target pattern =
     map_option (\<lambda>like_ret. case like_ret of Some b \<Rightarrow> b | None \<Rightarrow> False)
       (like binary_next_code_point target pattern)"

definition like_one :: "bytes \<Rightarrow> bytes \<Rightarrow> charset \<Rightarrow> bool option" where
  "like_one target pattern cs =
     (case cs of
        GBK \<Rightarrow>
          (case like gbk_next_code_point target pattern of
             None \<Rightarrow> None
           | Some (Some b) \<Rightarrow> Some b
           | Some None \<Rightarrow> like_binary target pattern)
      | UTF8 \<Rightarrow>
          (case like utf8_next_code_point target pattern of
             None \<Rightarrow> None
           | Some (Some b) \<Rightarrow> Some b
           | Some None \<Rightarrow> like_binary target pattern)
      | CS_UNKNOWN \<Rightarrow> like_binary target pattern)"

section \<open>The predicate\<close>

text \<open>
  The value of an operand after \<^verbatim>\<open>cast_to(STRING)\<close>, which leaves a NULL as it
  is: its \<^verbatim>\<open>str_val\<close> is then the empty string.
\<close>

definition str_val :: "bytes option \<Rightarrow> bytes" where
  "str_val v = (case v of None \<Rightarrow> [] | Some s \<Rightarrow> s)"

record like_predicate =
  lp_pattern :: bytes
  lp_patterns :: "bytes list"
  lp_const_pattern :: bool
  lp_charset :: charset

text \<open>\<^verbatim>\<open>boost::split\<close> at every occurrence of the separator.\<close>

fun split_at_byte :: "byte \<Rightarrow> bytes \<Rightarrow> bytes list" where
  "split_at_byte c [] = [[]]"
| "split_at_byte c (b # bs) =
     (if b = c then [] # split_at_byte c bs
      else case split_at_byte c bs of w # ws \<Rightarrow> (b # w) # ws | [] \<Rightarrow> [[b]])"

definition exact_pattern :: "bool \<Rightarrow> bool \<Rightarrow> bytes \<Rightarrow> bytes" where
  "exact_pattern is_prefix is_postfix p =
     (if length p > 0
      then let p = (if is_prefix \<and> hd p \<noteq> 0x25 then 0x25 # p else p) in
        if is_postfix \<and> last p \<noteq> 0x25 then p @ [0x25] else p
      else p)"

definition reset_pattern :: "like_predicate \<Rightarrow> bytes \<Rightarrow> like_predicate" where
  "reset_pattern lp pattern = lp\<lparr>lp_pattern := pattern\<rparr>"

text \<open>
  \<^verbatim>\<open>open_by_pattern\<close>: \<^verbatim>\<open>ret\<close> is what \<^verbatim>\<open>ExprNode::open\<close> returned, and the
  pattern operand is given when it has no slots, that is when it is constant.
\<close>

definition open_by_pattern ::
  "like_predicate \<Rightarrow> int \<Rightarrow> nat \<Rightarrow> bool \<Rightarrow> bytes option \<Rightarrow> int \<times> like_predicate" where
  "open_by_pattern lp ret children_size exact const_pattern =
     (if ret < 0 then (ret, lp)
      else if children_size < 2 then (-1, lp)
      else case const_pattern of
        None \<Rightarrow> (0, lp\<lparr>lp_const_pattern := False\<rparr>)
      | Some pattern \<Rightarrow>
          let lp = reset_pattern lp pattern;
              split_pattern = split_at_byte 0x7C pattern;
              is_prefix = (length (hd split_pattern) > 0 \<and> hd (hd split_pattern) = 0x25);
              is_postfix = (length (last split_pattern) > 0 \<and> last (last split_pattern) = 0x25)
          in if exact \<and> length split_pattern > 1
             then (0, lp\<lparr>lp_patterns := map (exact_pattern is_prefix is_postfix) split_pattern\<rparr>)
             else (0, lp))"

fun like_any :: "bytes \<Rightarrow> bytes list \<Rightarrow> charset \<Rightarrow> bool option" where
  "like_any target [] cs = Some False"
| "like_any target (p # ps) cs =
     (case like_one target p cs of
        None \<Rightarrow> None
      | Some True \<Rightarrow> Some True
      | Some False \<Rightarrow> like_any target ps cs)"

definition get_value_by_pattern ::
  "like_predicate \<Rightarrow> bytes option \<Rightarrow> bytes \<Rightarrow> (like_predicate \<times> bool) option" where
  "get_value_by_pattern lp child0 row_pattern =
     (let lp = (if \<not> lp_const_pattern lp then reset_pattern lp row_pattern else lp);
          target = str_val child0
      in map_option (Pair lp)
        (if \<not> lp_const_pattern lp \<or> length (lp_patterns lp) = 0
         then like_one target (lp_pattern lp) (lp_charset lp)
         else like_any target (lp_patterns lp) (lp_charset lp)))"

section \<open>The literal prefix of a pattern\<close>

fun hit_scan :: "bool \<Rightarrow> bytes \<Rightarrow> bytes \<Rightarrow> bool \<times> bytes" where
  "hit_scan is_escaped [] prefix_value = (True, prefix_value)"
| "hit_scan is_escaped (c # cs) prefix_value =
     (if \<not> is_escaped \<and> c = 0x25 then (False, prefix_value)
      else if \<not> is_escaped \<and> c = 0x5F then (False, prefix_value)
      else if \<not> is_escaped \<and> c = escape_char then hit_scan True cs prefix_value
      else hit_scan False cs (prefix_value @ [c]))"

text \<open>
  \<^verbatim>\<open>hit_index\<close> answers \<^verbatim>\<open>is_eq\<close>, \<^verbatim>\<open>is_prefix\<close> and \<^verbatim>\<open>prefix_value\<close>; the
  first character of an empty \<^verbatim>\<open>std::string\<close> reads as a zero byte.
\<close>

definition hit_index :: "bytes \<Rightarrow> bool \<times> bool \<times> bytes" where
  "hit_index pattern =
     (let c = (case pattern of [] \<Rightarrow> 0 | c # cs \<Rightarrow> c);
          is_prefix = (c \<noteq> 0x25 \<and> c \<noteq> 0x5F);
          (is_eq, prefix_value) = hit_scan False pattern []
      in (is_eq, is_prefix, prefix_value))"

section \<open>Rewriting a LIKE filter into comparisons\<close>

text \<open>
  The filters on one string slot: a LIKE whose pattern is constant or not, and
  the comparisons \<^verbatim>\<open>eq_string_string\<close>, \<^verbatim>\<open>ge_string_string\<close> and
  \<^verbatim>\<open>lt_string_string\<close> with a literal.
\<close>

datatype str_filter =
    Like_Filter bool "bytes option"
  | Eq_Filter bytes
  | Ge_Filter bytes
  | Lt_Filter bytes

definition eq_string_string :: "bytes option \<Rightarrow> bytes option \<Rightarrow> bool option" where
  "eq_string_string x y = (case (x, y) of (Some a, Some b) \<Rightarrow> Some (a = b) | _ \<Rightarrow> None)"

definition ge_string_string :: "bytes option \<Rightarrow> bytes option \<Rightarrow> bool option" where
  "ge_string_string x y = (case (x, y) of (Some a, Some b) \<Rightarrow> Some (a \<ge> b) | _ \<Rightarrow> None)"

definition lt_string_string :: "bytes option \<Rightarrow> bytes option \<Rightarrow> bool option" where
  "lt_string_string x y = (case (x, y) of (Some a, Some b) \<Rightarrow> Some (a < b) | _ \<Rightarrow> None)"

text \<open>The least string above every string with the prefix, as the code computes it.\<close>

definition prefix_end :: "bytes \<Rightarrow> bytes" where
  "prefix_end p =
     (case dropWhile (\<lambda>c. c = 255) (rev p) of
        [] \<Rightarrow> []
      | c # cs \<Rightarrow> rev ((c + 1) # cs))"

definition like_node_optimize ::
  "bool \<Rightarrow> str_filter \<Rightarrow> str_filter \<times> str_filter list \<times> bool" where
  "like_node_optimize slot_is_string root =
     (case root of
        Like_Filter exact pattern_child \<Rightarrow>
          if \<not> slot_is_string then (root, [], False)
          else (case pattern_child of
             None \<Rightarrow> (root, [], False)
           | Some old_val \<Rightarrow>
               let (is_eq, is_prefix, prefix_value) = hit_index old_val in
               if \<not> is_prefix \<or> length old_val > length prefix_value + 1
                 then (root, [], False)
               else if is_eq then (Eq_Filter prefix_value, [], True)
               else (Ge_Filter prefix_value, [Lt_Filter (prefix_end prefix_value)], True))
      | _ \<Rightarrow> (root, [], False))"

text \<open>
  The loop of \<^verbatim>\<open>FilterNode::expr_optimize\<close> over the conjuncts: each is rewritten
  in place, and the upper bounds are pushed behind them.
\<close>

definition optimize_conjuncts :: "bool \<Rightarrow> str_filter list \<Rightarrow> str_filter list" where
  "optimize_conjuncts slot_is_string conjuncts =
     map (\<lambda>f. fst (like_node_optimize slot_is_string f)) conjuncts @
     concat (map (\<lambda>f. fst (snd (like_node_optimize slot_is_string f))) conjuncts)"

text \<open>
  The value of a filter on a row whose slot holds \<^verbatim>\<open>v\<close>, the LIKE opened by
  \<^verbatim>\<open>open_by_pattern\<close>; a filter node keeps a row when every conjunct is
  neither NULL nor false (\<^verbatim>\<open>FilterNode::need_copy\<close>).
\<close>

definition like_filter_value ::
  "charset \<Rightarrow> bool \<Rightarrow> bytes option \<Rightarrow> bytes \<Rightarrow> bytes option \<Rightarrow> bool option" where
  "like_filter_value cs exact pattern_child row_pattern v =
     map_option snd (get_value_by_pattern
       (snd (open_by_pattern \<lparr>lp_pattern = [], lp_patterns = [], lp_const_pattern = True,
                              lp_charset = cs\<rparr> 0 2 exact pattern_child)) v row_pattern)"

definition filter_value :: "charset \<Rightarrow> bytes \<Rightarrow> bytes option \<Rightarrow> str_filter \<Rightarrow> bool option" where
  "filter_value cs row_pattern v f =
     (case f of
        Like_Filter exact p \<Rightarrow> like_filter_value cs exact p row_pattern v
      | Eq_Filter s \<Rightarrow> eq_string_string v (Some s)
      | Ge_Filter s \<Rightarrow> ge_string_string v (Some s)
      | Lt_Filter s \<Rightarrow> lt_string_string v (Some s))"

fun need_copy :: "bool option list \<Rightarrow> bool" where
  "need_copy [] = True"
| "need_copy (value # vs) = (if value = None \<or> value = Some False then False else need_copy vs)"

end
