(* ===== verification/LikeMatch.thy ===== *)
theory LikeMatch
  imports LikePredicate
begin

text \<open>
  What LIKE means, and that the loop computes it.  A pattern is cut into code
  points and read as wildcards and literals (\<^verbatim>\<open>tokens\<close>), a target into code
  points, and \<^verbatim>\<open>wild\<close> is the textbook matching relation between the two.  The
  loop keeps a single backtracking point, the last percent sign; the invariant
  shows that this loses nothing.  The locale \<^verbatim>\<open>char_cut\<close> is the contract of a
  character set; \<^verbatim>\<open>LikeProperties\<close> interprets it on the three of the code.
\<close>

section \<open>The meaning of a pattern\<close>

datatype token = Any | One | Lit bytes

fun tokens :: "bytes list \<Rightarrow> token list" where
  "tokens [] = []"
| "tokens [p] =
     [if p = under_score then One else if p = percent then Any else Lit p]"
| "tokens (p # q # ps) =
     (if p = under_score then One # tokens (q # ps)
      else if p = percent then Any # tokens (q # ps)
      else if p = [escape_char] then Lit q # tokens ps
      else Lit p # tokens (q # ps))"

fun wild :: "token list \<Rightarrow> bytes list \<Rightarrow> bool" where
  "wild [] ts \<longleftrightarrow> ts = []"
| "wild (Any # ps) [] \<longleftrightarrow> wild ps []"
| "wild (Any # ps) (t # ts) \<longleftrightarrow> wild ps (t # ts) \<or> wild (Any # ps) ts"
| "wild (One # ps) [] \<longleftrightarrow> False"
| "wild (One # ps) (t # ts) \<longleftrightarrow> wild ps ts"
| "wild (Lit p # ps) [] \<longleftrightarrow> False"
| "wild (Lit p # ps) (t # ts) \<longleftrightarrow> p = t \<and> wild ps ts"

function code_points :: "(bytes \<Rightarrow> nat \<Rightarrow> bytes) \<Rightarrow> bytes \<Rightarrow> nat \<Rightarrow> bytes list option" where
  "code_points ncp str idx =
     (if idx \<ge> length str then Some []
      else let p = ncp str idx in
        if p = [] then None else map_option ((#) p) (code_points ncp str (idx + length p)))"
  by pat_completeness auto
termination
  by (relation "measure (\<lambda>(ncp, str, idx). length str - idx)")
    (auto intro!: diff_less_mono2 simp flip: length_greater_0_conv)

declare code_points.simps [simp del]

lemma wild_Any: "wild (Any # ps) ts \<longleftrightarrow> (\<exists>k \<le> length ts. wild ps (drop k ts))"
proof (induction ts)
  case Nil
  show ?case by simp
next
  case (Cons t ts)
  have "(\<exists>k \<le> length (t # ts). wild ps (drop k (t # ts))) \<longleftrightarrow>
      wild ps (t # ts) \<or> (\<exists>k \<le> length ts. wild ps (drop k ts))"
    by (metis Suc_le_mono drop0 drop_Suc_Cons length_Cons not0_implies_Suc zero_le)
  with Cons.IH show ?case by simp
qed

lemma wild_Any_drop:
  assumes "wild (Any # ps) (drop k ts)" shows "wild (Any # ps) ts"
proof (cases "k \<le> length ts")
  case True
  from assms obtain j where "j \<le> length (drop k ts)" and "wild ps (drop j (drop k ts))"
    unfolding wild_Any by blast
  with True show ?thesis
    unfolding wild_Any drop_drop by (intro exI [of _ "j + k"]) simp
next
  case False
  with assms have "wild ps []" by simp
  then show ?thesis unfolding wild_Any by (intro exI [of _ "length ts"]) simp
qed

lemma wild_append:
  "wild (A @ ps) ts \<Longrightarrow> Any \<notin> set A \<Longrightarrow> wild ps (drop (length A) ts)"
proof (induction A arbitrary: ts)
  case Nil
  then show ?case by simp
next
  case (Cons a A)
  then show ?case by (cases a; cases ts) auto
qed

text \<open>
  An alternative that the loop drops: a match that moves the last percent sign
  further right moves the rest of the pattern past the next percent sign too.
\<close>

lemma wild_later_percent:
  assumes "wild (Any # A @ Any # B) nts" and "Any \<notin> set A"
  shows "wild (Any # B) (drop (length A) (t # nts))"
proof -
  from assms(1) obtain k where "wild (A @ Any # B) (drop k nts)"
    unfolding wild_Any [of "A @ Any # B"] by blast
  then have "wild (Any # B) (drop (length A) (drop k nts))"
    using assms(2) by (rule wild_append)
  also have "drop (length A) (drop k nts) = drop (Suc k) (drop (length A) (t # nts))"
    by (simp add: add.commute)
  finally show ?thesis by (rule wild_Any_drop)
qed

section \<open>The loop ends\<close>

text \<open>
  \<^verbatim>\<open>like_inv\<close> says where the backtracking point stands; the measure descends
  through the percent sign reached, the resumption point, whether the loop has
  just been reset, and the pattern left.
\<close>

definition like_inv ::
  "(bytes \<Rightarrow> nat \<Rightarrow> bytes) \<Rightarrow> bytes \<Rightarrow> bytes \<Rightarrow> like_pos \<Rightarrow> bool" where
  "like_inv ncp target pattern s \<longleftrightarrow>
     (if ntx s = 0 then npx s = 0
      else npx s < length pattern \<and> ncp pattern (npx s) = percent \<and>
        (px s = npx s \<and> tx s = ntx s \<and> ntx s \<le> length target \<or> npx s < px s))"

definition like_order :: "bytes \<Rightarrow> bytes \<Rightarrow> (like_pos \<times> like_pos) set" where
  "like_order target pattern = measures
     [\<lambda>s. length pattern - npx s,
      \<lambda>s. length target + 1 - ntx s,
      \<lambda>s. if ntx s > 0 \<and> px s = npx s \<and> tx s = ntx s then 0 else 1,
      \<lambda>s. length pattern - px s]"

lemma wf_like_order: "wf (like_order target pattern)"
  by (simp add: like_order_def)

lemma point_offset_pos [simp]: "0 < point_offset p"
  by (simp add: point_offset_def)

lemmas like_step_defs = like_step_def like_backtrack_def like_literal_def Let_def

lemma percent_noteq [simp]: "percent \<noteq> under_score" "under_score \<noteq> percent" "percent \<noteq> []" "under_score \<noteq> []"
  "percent \<noteq> [escape_char]" "under_score \<noteq> [escape_char]"
  by (simp_all add: percent_def under_score_def escape_char_def)

lemma length_special [simp]: "length under_score = 1" "length percent = 1"
  by (simp_all add: percent_def under_score_def)

lemma tokens_special [simp]:
  "tokens (under_score # ps) = One # tokens ps"
  "tokens (percent # ps) = Any # tokens ps"
  by (cases ps; simp)+

lemma like_inv_start: "like_inv ncp target pattern like_start"
  by (simp add: like_inv_def like_start_def)

text \<open>The ways on to the next round, shared by the proofs about the loop.\<close>

definition literal_point ::
  "(bytes \<Rightarrow> nat \<Rightarrow> bytes) \<Rightarrow> bytes \<Rightarrow> nat \<Rightarrow> nat \<times> bytes" where
  "literal_point ncp pattern i =
     (if ncp pattern i = [escape_char] \<and> i + 1 < length pattern
      then (i + 1, ncp pattern (i + 1)) else (i, ncp pattern i))"

lemma like_step_next:
  assumes "like_step ncp target pattern s = Inl s'"
  obtains
    (Backtrack) "0 < ntx s" "ntx s \<le> length target" "s' = s\<lparr>px := npx s, tx := ntx s\<rparr>"
      "px s < length pattern \<Longrightarrow> ncp pattern (px s) \<noteq> percent"
  | (Under) "px s < length pattern" "ncp pattern (px s) = under_score" "tx s < length target"
      "s' = s\<lparr>px := px s + 1, tx := tx s + point_offset (ncp target (tx s))\<rparr>"
  | (Percent) "px s < length pattern" "ncp pattern (px s) = percent"
      "s' = s\<lparr>npx := px s,
        ntx := tx s + (if tx s < length target then point_offset (ncp target (tx s)) else 1),
        px := px s + 1\<rparr>"
  | (Literal) i p where "px s < length pattern" "ncp pattern (px s) \<notin> {[], under_score, percent}"
      "literal_point ncp pattern (px s) = (i, p)" "p \<noteq> []" "tx s < length target"
      "ncp target (tx s) = p" "s' = s\<lparr>px := i + length p, tx := tx s + length p\<rparr>"
  using assms unfolding like_step_defs literal_point_def
  by (auto split: if_splits)

lemma like_inv_step:
  assumes inv: "like_inv ncp target pattern s" and step: "like_step ncp target pattern s = Inl s'"
  shows "like_inv ncp target pattern s' \<and> (s', s) \<in> like_order target pattern"
  using step
proof (cases rule: like_step_next)
  case Backtrack
  then show ?thesis using inv by (auto simp: like_inv_def like_order_def)
next
  case Under
  then show ?thesis using inv by (auto simp: like_inv_def like_order_def split: if_splits)
next
  case Percent
  define off where
    "off = (if tx s < length target then point_offset (ncp target (tx s)) else 1)"
  have "0 < off" by (simp add: off_def)
  moreover have "s' = s\<lparr>npx := px s, ntx := tx s + off, px := px s + 1\<rparr>"
    using Percent(3) by (simp only: off_def)
  ultimately show ?thesis
    using inv Percent(1,2) by (auto simp: like_inv_def like_order_def split: if_splits)
next
  case (Literal i p)
  then have i: "px s \<le> i" and p: "0 < length p"
    by (auto simp: literal_point_def split: if_splits)
  then have "px s < i + length p" by linarith
  moreover from this have "length pattern - (i + length p) < length pattern - px s"
    using Literal(1) by (rule diff_less_mono2)
  ultimately show ?thesis
    using inv Literal by (auto simp: like_inv_def like_order_def split: if_splits)
qed

lemma like_returns: "\<exists>r. like ncp target pattern = Some r"
  unfolding like_def
  using run_loop_rule [where I = "like_inv ncp target pattern" and post = "\<lambda>_. True",
      OF wf_like_order like_inv_start like_inv_step] by blast

section \<open>The loop matches\<close>

text \<open>
  What the loop needs of a character set: a code point is a piece of the string
  at its index.  A string is well-formed in the character set when it can be cut
  into code points from its start.
\<close>

locale char_cut =
  fixes ncp :: "bytes \<Rightarrow> nat \<Rightarrow> bytes"
  assumes ncp_prefix: "idx < length str \<Longrightarrow> prefix (ncp str idx) (drop idx str)"
begin

lemma ncp_length: "idx < length str \<Longrightarrow> idx + length (ncp str idx) \<le> length str"
  using prefix_length_le [OF ncp_prefix, of idx str] by simp

lemma code_points_Nil [simp]:
  "code_points ncp str idx = Some [] \<longleftrightarrow> length str \<le> idx"
  by (subst code_points.simps) (simp add: Let_def)

lemma code_points_end [simp]: "length str \<le> idx \<Longrightarrow> code_points ncp str idx = Some []"
  by simp

lemma code_points_Cons:
  "code_points ncp str idx = Some (p # ps) \<longleftrightarrow>
     idx < length str \<and> p = ncp str idx \<and> p \<noteq> [] \<and>
     code_points ncp str (idx + length p) = Some ps"
  by (subst code_points.simps) (auto simp: Let_def)

lemma code_points_next:
  assumes "code_points ncp str idx = Some ps" and "idx < length str"
  obtains ps' where "ps = ncp str idx # ps'" and "ncp str idx \<noteq> []"
    and "code_points ncp str (idx + length (ncp str idx)) = Some ps'"
  using assms by (cases ps) (auto simp: code_points_Cons)

lemma like_backtrack_px [simp]: "like_backtrack target (s\<lparr>px := i\<rparr>) = like_backtrack target s"
  by (simp add: like_backtrack_def)

lemma literal_tokens:
  assumes "code_points ncp pattern i = Some (p # ps)" and "p \<noteq> under_score" "p \<noteq> percent"
    and "literal_point ncp pattern i = (j, q)"
  obtains qs where "tokens (p # ps) = Lit q # tokens qs" and "q \<noteq> []"
    and "code_points ncp pattern (j + length q) = Some qs"
proof (cases ps)
  case Nil
  with assms show thesis
    by (intro that [of "[]"]) (auto simp: code_points_Cons literal_point_def split: if_splits)
next
  case (Cons p' ps')
  with assms show thesis
    by (intro that [of "if p = [escape_char] then ps' else ps"])
      (auto simp: code_points_Cons literal_point_def split: if_splits)
qed

lemma like_step_literal:
  assumes "px s < length pattern" and "ncp pattern (px s) \<notin> {[], under_score, percent}"
    and "literal_point ncp pattern (px s) = (i, p)" and "p \<noteq> []"
  shows "like_step ncp target pattern s = like_literal ncp target p (s\<lparr>px := i\<rparr>)"
  using assms by (auto simp: like_step_def literal_point_def Let_def split: if_splits)

text \<open>One round of the loop on well-formed strings.\<close>

lemma like_step_decoded:
  assumes ps: "code_points ncp pattern (px s) = Some ps"
    and ts: "code_points ncp target (tx s) = Some ts"
  obtains
    (Done) "ps = []" "ts = []" "like_step ncp target pattern s = Inr (Some True)"
  | (Stuck) "\<not> wild (tokens ps) ts"
      "like_step ncp target pattern s = like_backtrack target s"
  | (Advance) tok qs t ts' i j where "tok \<noteq> Any" "tokens ps = tok # tokens qs" "ts = t # ts'"
      "wild (tokens ps) ts \<longleftrightarrow> wild (tokens qs) ts'"
      "like_step ncp target pattern s = Inl (s\<lparr>px := i, tx := j\<rparr>)"
      "code_points ncp pattern i = Some qs" "code_points ncp target j = Some ts'"
  | (Percent) qs off where "tokens ps = Any # tokens qs" "0 < off"
      "like_step ncp target pattern s =
         Inl (s\<lparr>npx := px s, ntx := tx s + off, px := px s + 1\<rparr>)"
      "code_points ncp pattern (px s + 1) = Some qs"
      "code_points ncp target (tx s + off) = Some (tl ts)"
      "tx s + off \<le> length target \<longleftrightarrow> ts \<noteq> []"
proof (cases ps)
  case Nil
  with ps have "length pattern \<le> px s" by simp
  with ts Nil show thesis
    by (cases ts) (auto simp: like_step_def code_points_Cons intro: Done Stuck)
next
  case (Cons p ps')
  with ps have px: "px s < length pattern" and p: "ncp pattern (px s) = p" "p \<noteq> []"
    and ps': "code_points ncp pattern (px s + length p) = Some ps'"
    by (auto simp: code_points_Cons)
  consider "p = under_score" | "p = percent" | "p \<notin> {[], under_score, percent}"
    using p by blast
  then show thesis
  proof cases
    case 1
    show thesis
    proof (cases ts)
      case Nil
      with 1 px p ts show thesis by (intro Stuck) (auto simp: Cons like_step_def)
    next
      case ts': (Cons t ts')
      with 1 px p ps' ts show thesis
        by (intro Advance [where i = "px s + 1" and j = "tx s + length t"])
          (auto simp: Cons like_step_def point_offset_def code_points_Cons)
    qed
  next
    case 2
    define off where "off = (if tx s < length target then point_offset (ncp target (tx s)) else 1)"
    from 2 px p ps' ts show thesis
      by (intro Percent [of ps' off]; cases ts)
        (auto simp: Cons like_step_def point_offset_def code_points_Cons off_def
          dest: ncp_length)
  next
    case 3
    obtain i q where iq: "literal_point ncp pattern (px s) = (i, q)" by fastforce
    obtain qs where qs: "tokens ps = Lit q # tokens qs" "q \<noteq> []"
      "code_points ncp pattern (i + length q) = Some qs"
      using literal_tokens [OF ps [unfolded Cons] _ _ iq] 3 Cons by blast
    have step: "like_step ncp target pattern s = like_literal ncp target q (s\<lparr>px := i\<rparr>)"
      using like_step_literal [OF px _ iq] 3 p qs(2) by simp
    show thesis
    proof (cases ts)
      case Nil
      with ts qs(1) step show thesis by (intro Stuck) (auto simp: like_literal_def)
    next
      case ts': (Cons t ts')
      show thesis
      proof (cases "q = t")
        case True
        then show thesis using ts ts' qs step
          by (intro Advance [where i = "i + length q" and j = "tx s + length t"])
            (auto simp: like_literal_def code_points_Cons Let_def)
      next
        case False
        then show thesis using ts ts' qs step
          by (intro Stuck) (auto simp: like_literal_def code_points_Cons Let_def)
      qed
    qed
  qed
qed

definition alternative :: "bytes \<Rightarrow> bytes \<Rightarrow> like_pos \<Rightarrow> bool" where
  "alternative target pattern s \<longleftrightarrow> 0 < ntx s \<and> ntx s \<le> length target \<and>
     (\<exists>nps nts. code_points ncp pattern (npx s) = Some nps \<and>
        code_points ncp target (ntx s) = Some nts \<and> wild (tokens nps) nts)"

definition reset_ok ::
  "bytes \<Rightarrow> bytes \<Rightarrow> like_pos \<Rightarrow> bytes list \<Rightarrow> bytes list \<Rightarrow> bool" where
  "reset_ok target pattern s ps ts \<longleftrightarrow> (0 < ntx s \<and> ntx s \<le> length target \<longrightarrow>
     (\<exists>nps nts. code_points ncp pattern (npx s) = Some nps \<and>
        code_points ncp target (ntx s) = Some nts \<and>
        (ps = nps \<and> ts = nts \<or>
         (\<exists>A t. tokens nps = Any # A @ tokens ps \<and> Any \<notin> set A \<and>
            ts = drop (length A) (t # nts)))))"

definition match_inv :: "bytes \<Rightarrow> bytes \<Rightarrow> bool \<Rightarrow> like_pos \<Rightarrow> bool" where
  "match_inv target pattern b s \<longleftrightarrow>
     (\<exists>ps ts. code_points ncp pattern (px s) = Some ps \<and>
        code_points ncp target (tx s) = Some ts \<and>
        (b \<longleftrightarrow> wild (tokens ps) ts \<or> alternative target pattern s) \<and>
        reset_ok target pattern s ps ts)"

lemma match_inv_backtrack:
  assumes "\<not> wild (tokens ps) ts"
    and "code_points ncp pattern (px s) = Some ps" "code_points ncp target (tx s) = Some ts"
    and "b \<longleftrightarrow> wild (tokens ps) ts \<or> alternative target pattern s"
    and "reset_ok target pattern s ps ts"
  shows "like_backtrack target s = Inr r \<Longrightarrow> r = Some b"
    and "like_backtrack target s = Inl s' \<Longrightarrow> match_inv target pattern b s'"
  using assms
  by (auto simp: like_backtrack_def alternative_def match_inv_def reset_ok_def split: if_splits)

lemma match_inv_start:
  assumes "code_points ncp pattern 0 = Some ps" "code_points ncp target 0 = Some ts"
  shows "match_inv target pattern (wild (tokens ps) ts) like_start"
  using assms by (simp add: match_inv_def like_start_def alternative_def reset_ok_def)

lemma reset_ok_advance:
  assumes "reset_ok target pattern s ps ts" and "like_inv ncp target pattern s"
    and "code_points ncp pattern (px s) = Some ps"
    and "tok \<noteq> Any" "tokens ps = tok # tokens qs" "ts = t # ts'"
  shows "reset_ok target pattern (s\<lparr>px := i, tx := j\<rparr>) qs ts'"
  unfolding reset_ok_def
proof (intro impI, simp)
  assume n: "0 < ntx s \<and> ntx s \<le> length target"
  with assms(1) obtain nps nts where nps: "code_points ncp pattern (npx s) = Some nps"
    "code_points ncp target (ntx s) = Some nts" and
    alt: "ps = nps \<and> ts = nts \<or>
      (\<exists>A t. tokens nps = Any # A @ tokens ps \<and> Any \<notin> set A \<and> ts = drop (length A) (t # nts))"
    unfolding reset_ok_def by blast
  have "hd (tokens nps) = Any"
    using n nps(1) assms(2) by (cases nps) (auto simp: like_inv_def code_points_Cons)
  with alt assms(4-6) obtain A u where A: "tokens nps = Any # A @ tokens ps" "Any \<notin> set A"
    "ts = drop (length A) (u # nts)" by auto
  then have "tokens nps = Any # (A @ [tok]) @ tokens qs" "Any \<notin> set (A @ [tok])"
    using assms(4,5) by simp_all
  moreover have "ts' = drop (length (A @ [tok])) (u # nts)"
    using A(3) assms(6) by (metis drop_Suc length_append_singleton list.sel(3) tl_drop)
  ultimately show "\<exists>nps. code_points ncp pattern (npx s) = Some nps \<and>
      (\<exists>nts. code_points ncp target (ntx s) = Some nts \<and>
        (qs = nps \<and> ts' = nts \<or> (\<exists>A. tokens nps = Any # A @ tokens qs \<and> Any \<notin> set A \<and>
          (\<exists>t. ts' = drop (length A) (t # nts)))))"
    using nps by blast
qed

lemma alternative_dropped:
  assumes "alternative target pattern s" and "reset_ok target pattern s ps ts"
    and "tokens ps = Any # tokens qs"
  shows "wild (tokens ps) ts"
  using assms wild_later_percent [of _ "tokens qs"]
  by (auto simp: alternative_def reset_ok_def)

lemma wild_Any_tl: "wild (Any # ps) ts \<longleftrightarrow> wild ps ts \<or> ts \<noteq> [] \<and> wild (Any # ps) (tl ts)"
  by (cases ts) simp_all

lemma match_inv_step:
  assumes "match_inv target pattern b s" and inv: "like_inv ncp target pattern s"
    and step: "like_step ncp target pattern s = Inl s'"
  shows "match_inv target pattern b s'"
proof -
  from assms(1) obtain ps ts where ps: "code_points ncp pattern (px s) = Some ps"
    and ts: "code_points ncp target (tx s) = Some ts"
    and b: "b \<longleftrightarrow> wild (tokens ps) ts \<or> alternative target pattern s"
    and reset: "reset_ok target pattern s ps ts"
    unfolding match_inv_def by blast
  from ps ts show ?thesis
  proof (cases rule: like_step_decoded)
    case Done
    with step show ?thesis by simp
  next
    case Stuck
    with step show ?thesis using match_inv_backtrack(2) [OF _ ps ts b reset] by simp
  next
    case (Advance tok qs t ts' i j)
    have "reset_ok target pattern (s\<lparr>px := i, tx := j\<rparr>) qs ts'"
      using reset inv ps Advance(1-3) by (rule reset_ok_advance)
    moreover have "alternative target pattern (s\<lparr>px := i, tx := j\<rparr>) = alternative target pattern s"
      by (simp add: alternative_def)
    ultimately show ?thesis using Advance b step by (auto simp: match_inv_def)
  next
    case (Percent qs off)
    have s': "s' = s\<lparr>npx := px s, ntx := tx s + off, px := px s + 1\<rparr>"
      using Percent(3) step by simp
    have "alternative target pattern s' \<longleftrightarrow> ts \<noteq> [] \<and> wild (tokens ps) (tl ts)"
      using Percent(2,5,6) ps by (auto simp: s' alternative_def)
    moreover have "b \<longleftrightarrow> wild (tokens ps) ts"
      using b alternative_dropped [OF _ reset Percent(1)] by blast
    moreover have "wild (tokens ps) ts \<longleftrightarrow>
        wild (tokens qs) ts \<or> ts \<noteq> [] \<and> wild (tokens ps) (tl ts)"
      unfolding Percent(1) by (rule wild_Any_tl)
    ultimately have "b \<longleftrightarrow> wild (tokens qs) ts \<or> alternative target pattern s'" by blast
    moreover have "reset_ok target pattern s' qs ts"
      using Percent ps by (auto simp: s' reset_ok_def intro!: exI [of _ "[]"] exI [of _ "hd ts"])
    ultimately show ?thesis using Percent(4) ts by (auto simp: match_inv_def s')
  qed
qed

lemma match_inv_final:
  assumes "match_inv target pattern b s" and "like_step ncp target pattern s = Inr r"
  shows "r = Some b"
proof -
  from assms(1) obtain ps ts where ps: "code_points ncp pattern (px s) = Some ps"
    and ts: "code_points ncp target (tx s) = Some ts"
    and b: "b \<longleftrightarrow> wild (tokens ps) ts \<or> alternative target pattern s"
    and reset: "reset_ok target pattern s ps ts"
    unfolding match_inv_def by blast
  from ps ts show ?thesis
  proof (cases rule: like_step_decoded)
    case Stuck
    with assms(2) show ?thesis using match_inv_backtrack(1) [OF _ ps ts b reset] by simp
  qed (use assms(2) b in auto)
qed

lemma like_wild:
  assumes "code_points ncp pattern 0 = Some ps" "code_points ncp target 0 = Some ts"
  shows "like ncp target pattern = Some (Some (wild (tokens ps) ts))"
proof -
  define I where "I s \<longleftrightarrow> like_inv ncp target pattern s \<and>
    match_inv target pattern (wild (tokens ps) ts) s" for s
  have "\<exists>r. run_loop (like_step ncp target pattern) like_start = Some r \<and>
      r = Some (wild (tokens ps) ts)"
  proof (rule run_loop_rule [where I = I, OF wf_like_order])
    show "I like_start"
      using like_inv_start match_inv_start [OF assms] by (simp add: I_def)
  next
    fix s s' assume "I s" and "like_step ncp target pattern s = Inl s'"
    then show "I s' \<and> (s', s) \<in> like_order target pattern"
      using like_inv_step match_inv_step unfolding I_def by blast
  next
    fix s r assume "I s" and "like_step ncp target pattern s = Inr r"
    then show "r = Some (wild (tokens ps) ts)"
      using match_inv_final unfolding I_def by blast
  qed
  then show ?thesis by (auto simp: like_def)
qed

end

end
