(* ===== verification/LikeProperties.thy ===== *)
theory LikeProperties
  imports LikeMatch
begin

text \<open>
  The three character sets as instances of \<^verbatim>\<open>char_cut\<close>, what \<^verbatim>\<open>like_one\<close> answers,
  and when the rewriting of a LIKE filter into comparisons keeps the same rows.
\<close>

section \<open>The three character sets\<close>

text \<open>
  Beyond being cut into pieces, a string is cut the same way wherever a code
  point stands: the first byte of a code point gives its length.
\<close>

locale char_code = char_cut +
  fixes point_len :: "byte \<Rightarrow> nat"
  assumes point_length: "ncp str idx \<noteq> [] \<Longrightarrow> length (ncp str idx) = point_len (hd (ncp str idx))"
begin

definition point_ok :: "bytes \<Rightarrow> bool" where
  "point_ok p \<longleftrightarrow> p \<noteq> [] \<and> length p = point_len (hd p)"

lemma code_points_ok:
  "code_points ncp str idx = Some ps \<Longrightarrow>
     list_all point_ok ps \<and> concat ps = drop idx str"
proof (induction ps arbitrary: idx)
  case Nil
  then show ?case by simp
next
  case (Cons p ps)
  then have idx: "idx < length str" and p: "p = ncp str idx" "p \<noteq> []"
    and IH: "list_all point_ok ps \<and> concat ps = drop (length p) (drop idx str)"
    by (auto simp: code_points_Cons add.commute)
  from ncp_prefix [OF idx] p(1) obtain zs where "drop idx str = p @ zs"
    by (auto simp: prefix_def)
  moreover have "point_ok p"
    using p point_length [of str idx] by (simp add: point_ok_def)
  ultimately show ?case using IH by simp
qed

lemma points_prefix:
  "list_all point_ok ps \<Longrightarrow> list_all point_ok ts \<Longrightarrow>
     prefix (concat ps) (concat ts) \<longleftrightarrow> prefix ps ts"
proof (induction ps arbitrary: ts)
  case Nil
  then show ?case by simp
next
  case (Cons p ps)
  show ?case
  proof (cases ts)
    case Nil
    with Cons.prems show ?thesis by (simp add: point_ok_def)
  next
    case ts: (Cons t ts')
    have "p = t" if "prefix (p @ xs) (t @ ys)" for xs ys
    proof -
      have "hd p = hd t"
        using that Cons.prems ts by (cases p; cases t) (auto simp: point_ok_def)
      then have "length p = length t"
        using Cons.prems ts by (simp add: point_ok_def)
      with that show ?thesis by (auto simp: prefix_def)
    qed
    moreover have "prefix (concat ps) (concat ts') \<longleftrightarrow> prefix ps ts'"
      using Cons.IH [of ts'] Cons.prems ts by simp
    ultimately show ?thesis using ts
      by (metis concat.simps(2) Cons_prefix_Cons same_prefix_prefix)
  qed
qed

lemma points_eq:
  assumes "list_all point_ok ps" and "list_all point_ok ts"
  shows "concat ps = concat ts \<longleftrightarrow> ps = ts"
  using points_prefix [OF assms] points_prefix [OF assms(2,1)]
  by (metis prefix_order.antisym prefix_order.refl)

end

text \<open>
  In the binary and the UTF-8 character set an ASCII byte is a code point of its
  own wherever it stands; GBK does not have this property.
\<close>

locale ascii_code = char_code +
  assumes ascii: "c \<in> set (ncp str idx) \<Longrightarrow> c < 0x80 \<Longrightarrow> ncp str idx = [c]"

definition utf8_point_len :: "byte \<Rightarrow> nat" where
  "utf8_point_len c = (if c AND 0x80 = 0 then 1 else if c AND 0xE0 = 0xC0 then 2
     else if c AND 0xF0 = 0xE0 then 3 else 4)"

definition gbk_point_len :: "byte \<Rightarrow> nat" where
  "gbk_point_len c = (if c AND 0x80 = 0 then 1 else 2)"

lemma continuation_bytes_length: "continuation_bytes bs \<le> length bs"
  by (induction bs) auto

lemma continuation_bytes_set:
  "c \<in> set (take (continuation_bytes bs) bs) \<Longrightarrow> c AND 0xC0 = 0x80"
  by (induction bs) (auto split: if_splits)

lemma drop_nth: "idx < length str \<Longrightarrow> drop idx str = str ! idx # drop (Suc idx) str"
  by (simp add: Cons_nth_drop_Suc)

lemma utf8_take:
  assumes "utf8_get_char_size str idx = n" and "idx < length str"
  obtains qs where "take n (drop idx str) = str ! idx # qs" and "length qs = n - 1"
    and "list_all (\<lambda>c. c AND 0xC0 = 0x80) qs"
proof
  let ?bs = "drop (Suc idx) str"
  have n: "n = Suc (continuation_bytes ?bs)"
    using assms(1) by (simp add: utf8_get_char_size_def)
  show "take n (drop idx str) = str ! idx # take (continuation_bytes ?bs) ?bs"
    using assms(2) by (simp add: n drop_nth)
  show "length (take (continuation_bytes ?bs) ?bs) = n - 1"
    using n continuation_bytes_length [of ?bs] by simp
  show "list_all (\<lambda>c. c AND 0xC0 = 0x80) (take (continuation_bytes ?bs) ?bs)"
    by (auto simp: list_all_iff dest: continuation_bytes_set)
qed

text \<open>A code point of each character set: its first byte, its length, the bytes after it.\<close>

lemma utf8_point:
  assumes "utf8_next_code_point str idx \<noteq> []"
  obtains qs where "idx < length str" "utf8_next_code_point str idx = str ! idx # qs"
    "prefix (str ! idx # qs) (drop idx str)" "length qs = utf8_point_len (str ! idx) - 1"
    "list_all (\<lambda>c. c AND 0xC0 = 0x80) qs" "qs = [] \<or> (str ! idx) AND 0x80 \<noteq> 0"
proof (cases "(str ! idx) AND 0x80 = 0")
  case True
  moreover have "idx < length str"
    using assms by (auto simp: utf8_next_code_point_def split: if_splits)
  ultimately show thesis
    by (intro that [of "[]"]) (simp_all add: utf8_next_code_point_def drop_nth utf8_point_len_def)
next
  case False
  have idx: "idx < length str"
    using assms by (auto simp: utf8_next_code_point_def split: if_splits)
  let ?n = "utf8_point_len (str ! idx)"
  have n: "utf8_get_char_size str idx = ?n"
    and eq: "utf8_next_code_point str idx = take ?n (drop idx str)"
    using False assms idx
    by (auto simp: utf8_next_code_point_def utf8_point_len_def split: if_splits)
  obtain qs where qs: "take ?n (drop idx str) = str ! idx # qs" "length qs = ?n - 1"
    "list_all (\<lambda>c. c AND 0xC0 = 0x80) qs"
    by (rule utf8_take [OF n idx])
  have "prefix (str ! idx # qs) (drop idx str)"
    unfolding qs(1) [symmetric] by (rule take_is_prefix)
  with idx eq qs False show thesis by (intro that [of qs]) simp_all
qed

lemma gbk_point:
  assumes "gbk_next_code_point str idx \<noteq> []"
  obtains qs where "idx < length str" "gbk_next_code_point str idx = str ! idx # qs"
    "prefix (str ! idx # qs) (drop idx str)" "length qs = gbk_point_len (str ! idx) - 1"
proof
  show "idx < length str"
    using assms by (auto simp: gbk_next_code_point_def split: if_splits)
  then show "gbk_next_code_point str idx =
      str ! idx # take (gbk_point_len (str ! idx) - 1) (drop (Suc idx) str)"
    and "prefix (str ! idx # take (gbk_point_len (str ! idx) - 1) (drop (Suc idx) str)) (drop idx str)"
    and "length (take (gbk_point_len (str ! idx) - 1) (drop (Suc idx) str)) =
      gbk_point_len (str ! idx) - 1"
    using assms
    by (auto simp: gbk_next_code_point_def gbk_point_len_def drop_nth take_is_prefix
        split: if_splits)
qed

lemma point_len_pos: "0 < utf8_point_len c" "0 < gbk_point_len c"
  by (simp_all add: utf8_point_len_def gbk_point_len_def)

lemma high_bit_not_ascii:
  assumes "c AND 0x80 \<noteq> 0" shows "\<not> c < (0x80 :: byte)"
proof
  assume "c < 0x80"
  then have "unat c < 128" by (simp add: word_less_nat_alt)
  then have "\<not> bit (unat c) 7" by (simp add: bit_iff_odd)
  then have "\<not> bit c 7" by (simp add: bit_unsigned_iff)
  with assms and_exp_eq_0_iff_not_bit [of c 7] show False by simp
qed

lemma continuation_not_ascii:
  assumes "c AND 0xC0 = 0x80" shows "\<not> c < (0x80 :: byte)"
proof (rule high_bit_not_ascii)
  have "c AND 0x80 = (c AND 0xC0) AND 0x80" by (simp add: and.assoc)
  also have "\<dots> = 0x80" unfolding assms by simp
  finally show "c AND 0x80 \<noteq> 0" by simp
qed

interpretation binary: ascii_code binary_next_code_point "\<lambda>_. 1"
proof unfold_locales
  show "idx < length str \<Longrightarrow> prefix (binary_next_code_point str idx) (drop idx str)" for idx str
    by (simp add: binary_next_code_point_def take_is_prefix)
  show "binary_next_code_point str idx \<noteq> [] \<Longrightarrow> length (binary_next_code_point str idx) = 1"
    for idx str by (simp add: binary_next_code_point_def)
  show "c \<in> set (binary_next_code_point str idx) \<Longrightarrow> c < 0x80 \<Longrightarrow>
      binary_next_code_point str idx = [c]" for c idx str
    by (cases "drop idx str") (simp_all add: binary_next_code_point_def)
qed

interpretation utf8: ascii_code utf8_next_code_point utf8_point_len
proof unfold_locales
  show "prefix (utf8_next_code_point str idx) (drop idx str)" if "idx < length str" for idx str
  proof (cases "utf8_next_code_point str idx = []")
    case False
    then show ?thesis by (rule utf8_point) simp
  qed simp
  show "length (utf8_next_code_point str idx) = utf8_point_len (hd (utf8_next_code_point str idx))"
    if "utf8_next_code_point str idx \<noteq> []" for idx str
    using that point_len_pos(1) [of "str ! idx"] by (elim utf8_point) simp
  show "utf8_next_code_point str idx = [c]"
    if c: "c \<in> set (utf8_next_code_point str idx)" "c < 0x80" for c str idx
  proof -
    from c(1) have "utf8_next_code_point str idx \<noteq> []" by auto
    then obtain qs where qs: "utf8_next_code_point str idx = str ! idx # qs"
      "list_all (\<lambda>c. c AND 0xC0 = 0x80) qs" "qs = [] \<or> (str ! idx) AND 0x80 \<noteq> 0"
      by (rule utf8_point)
    have "c \<notin> set qs" using qs(2) c(2) continuation_not_ascii by (auto simp: list_all_iff)
    with c(1) qs(1) have "c = str ! idx" by simp
    with qs(3) c(2) high_bit_not_ascii have "qs = []" by blast
    with qs(1) \<open>c = str ! idx\<close> show ?thesis by simp
  qed
qed

interpretation gbk: char_code gbk_next_code_point gbk_point_len
proof unfold_locales
  show "prefix (gbk_next_code_point str idx) (drop idx str)" if "idx < length str" for idx str
  proof (cases "gbk_next_code_point str idx = []")
    case False
    then show ?thesis by (rule gbk_point) simp
  qed simp
  show "length (gbk_next_code_point str idx) = gbk_point_len (hd (gbk_next_code_point str idx))"
    if "gbk_next_code_point str idx \<noteq> []" for idx str
    using that point_len_pos(2) [of "str ! idx"] by (elim gbk_point) simp
qed

section \<open>What LIKE answers\<close>

definition charset_points :: "charset \<Rightarrow> bytes \<Rightarrow> bytes list option" where
  "charset_points cs str =
     (case cs of
        UTF8 \<Rightarrow> code_points utf8_next_code_point str 0
      | GBK \<Rightarrow> code_points gbk_next_code_point str 0
      | CS_UNKNOWN \<Rightarrow> code_points binary_next_code_point str 0)"

lemma binary_points_from:
  "code_points binary_next_code_point str idx = Some (map (\<lambda>b. [b]) (drop idx str))"
proof (induction "length str - idx" arbitrary: idx)
  case 0
  then show ?case by simp
next
  case (Suc n)
  then have "idx < length str" by simp
  then show ?case
    using Suc(1) [of "Suc idx"] Suc(2)
    by (simp add: binary.code_points_Cons binary_next_code_point_def drop_nth)
qed

lemma binary_points: "charset_points CS_UNKNOWN str = Some (map (\<lambda>b. [b]) str)"
  by (simp add: charset_points_def binary_points_from)

lemma like_binary_total: "\<exists>b. like_binary target pattern = Some b"
  using like_returns [of binary_next_code_point target pattern] by (auto simp: like_binary_def)

lemma like_one_returns: "\<exists>b. like_one target pattern cs = Some b"
  using like_binary_total [of target pattern]
    like_returns [of gbk_next_code_point target pattern]
    like_returns [of utf8_next_code_point target pattern]
  by (auto simp: like_one_def split: charset.splits option.splits)

lemma like_one_points:
  assumes "charset_points cs pattern = Some ps" and "charset_points cs target = Some ts"
  shows "like_one target pattern cs = Some (wild (tokens ps) ts)"
  using assms binary.like_wild [of pattern ps target ts] utf8.like_wild [of pattern ps target ts]
    gbk.like_wild [of pattern ps target ts]
  by (cases cs) (simp_all add: like_one_def like_binary_def charset_points_def)

lemma like_any_returns: "\<exists>b. like_any target ps cs = Some b"
proof (induction ps)
  case (Cons p ps)
  obtain b where "like_one target p cs = Some b" using like_one_returns by blast
  with Cons show ?case by (cases b) auto
qed auto

section \<open>The range of a prefix\<close>

lemma max_byte: "d \<le> (255 :: byte)"
  using unsigned_less [where 'a = nat, of d] by (simp add: word_le_nat_alt)

lemma replicate_max_le: "replicate n 255 \<le> (x :: bytes) \<longleftrightarrow> prefix (replicate n 255) x"
proof (induction n arbitrary: x)
  case 0
  show ?case by simp
next
  case (Suc n)
  show ?case
  proof (cases x)
    case (Cons d ds)
    have "\<not> 255 < d" unfolding not_less by (rule max_byte)
    then show ?thesis using Suc [of ds] Cons by (simp add: conj_commute eq_commute)
  qed simp
qed

lemma dropWhile_replicate:
  "c \<noteq> a \<Longrightarrow> dropWhile (\<lambda>x. x = a) (replicate n a @ c # xs) = c # xs"
  by (induction n) simp_all

lemma prefix_end_snoc:
  "c \<noteq> 255 \<Longrightarrow> prefix_end (q @ c # replicate n 255) = q @ [c + 1]"
  by (simp add: prefix_end_def dropWhile_replicate)

lemma max_byte_tail:
  assumes "prefix_end p \<noteq> []"
  obtains q c n where "p = q @ c # replicate n 255" and "c \<noteq> 255"
proof -
  define P where "P = (\<lambda>c :: byte. c = 255)"
  define n where "n = length (takeWhile P (rev p))"
  from assms obtain c cs where d: "dropWhile P (rev p) = c # cs"
    by (auto simp: prefix_end_def P_def split: list.splits)
  then have "\<not> P c" using hd_dropWhile [of P "rev p"] by simp
  have "\<forall>x \<in> set (takeWhile P (rev p)). x = 255"
    using set_takeWhileD [of _ P "rev p"] by (auto simp: P_def)
  then have "takeWhile P (rev p) = replicate n 255"
    using replicate_eqI [of "takeWhile P (rev p)" n 255] by (auto simp: n_def)
  then have "rev p = replicate n 255 @ c # cs"
    using takeWhile_dropWhile_id [of P "rev p"] d by simp
  then have "rev (rev p) = rev (replicate n 255 @ c # cs)" by (rule arg_cong)
  then have "p = rev cs @ c # replicate n 255" by simp
  with \<open>\<not> P c\<close> show thesis by (intro that [of "rev cs" c n]) (simp_all add: P_def)
qed

lemma succ_byte:
  assumes "c \<noteq> 255" shows "d < c + 1 \<longleftrightarrow> d \<le> (c :: byte)"
proof -
  have "unat c \<noteq> unat (255 :: byte)" using assms unsigned_word_eqI by blast
  then have "unat c \<noteq> 255" by simp
  with unsigned_less [where 'a = nat, of c] have "unat (c + 1) = unat c + 1"
    by (simp add: unat_word_ariths)
  then show ?thesis by (simp add: word_less_nat_alt word_le_nat_alt less_Suc_eq_le)
qed

lemma prefix_range:
  assumes "prefix_end p \<noteq> []"
  shows "p \<le> x \<and> x < prefix_end p \<longleftrightarrow> prefix p x"
proof -
  obtain q c n where p: "p = q @ c # replicate n 255" and c: "c \<noteq> 255"
    using assms by (rule max_byte_tail)
  have "q @ c # replicate n 255 \<le> x \<and> x < q @ [c + 1] \<longleftrightarrow> prefix (q @ c # replicate n 255) x"
  proof (induction q arbitrary: x)
    case Nil
    show ?case
    proof (cases x)
      case (Cons d ds)
      have "d < c + 1 \<longleftrightarrow> \<not> c < d" unfolding not_less by (rule succ_byte [OF c])
      then show ?thesis
        using less_imp_neq [of c d] by (auto simp: Cons replicate_max_le)
    qed simp
  next
    case (Cons a q)
    show ?case
    proof (cases x)
      case x: (Cons d ds)
      with Cons [of ds] show ?thesis
        using less_asym [of a d] less_imp_neq [of a d] less_imp_neq [of d a] by auto
    qed simp
  qed
  with p c show ?thesis by (simp add: prefix_end_snoc)
qed

section \<open>The literal prefix of a pattern\<close>

lemma wild_literals: "wild (map Lit ls) ts \<longleftrightarrow> ls = ts"
proof (induction ls arbitrary: ts)
  case (Cons l ls)
  then show ?case by (cases ts) auto
qed auto

lemma wild_Any_only: "wild [Any] ts"
  by (induction ts) simp_all

lemma wild_literals_Any: "wild (map Lit ls @ [Any]) ts \<longleftrightarrow> prefix ls ts"
proof (induction ls arbitrary: ts)
  case Nil
  show ?case by (simp add: wild_Any_only)
next
  case (Cons l ls)
  then show ?case by (cases ts) auto
qed

lemma hit_scan_plain:
  "set p \<inter> {0x25, 0x5F, escape_char} = {} \<Longrightarrow>
     hit_scan False (p @ bs) acc = hit_scan False bs (acc @ p)"
  by (induction p arbitrary: acc) auto

lemma escape_noteq [simp]: "[escape_char] \<noteq> percent" "[escape_char] \<noteq> under_score"
  "escape_char \<noteq> 0x25" "escape_char \<noteq> 0x5F"
  by (simp_all add: percent_def under_score_def escape_char_def)

definition ascii_point :: "bytes \<Rightarrow> bool" where
  "ascii_point p \<longleftrightarrow> p \<noteq> [] \<and> (\<forall>c \<in> set p. c < 0x80 \<longrightarrow> p = [c])"

lemma ascii_point_special:
  assumes "ascii_point p" and "p \<notin> {under_score, percent, [escape_char]}"
  shows "set p \<inter> {0x25, 0x5F, escape_char} = {}"
proof -
  have "c \<notin> {0x25, 0x5F, escape_char}" if "c \<in> set p" for c
  proof
    assume c: "c \<in> {0x25, 0x5F, escape_char}"
    then have "c < 0x80" by (auto simp: escape_char_def)
    with assms(1) that have "p = [c]" by (simp add: ascii_point_def)
    with assms(2) c show False by (auto simp: under_score_def percent_def)
  qed
  then show ?thesis by blast
qed

lemma hit_scan_point:
  "ascii_point p \<Longrightarrow> p \<notin> {under_score, percent, [escape_char]} \<Longrightarrow>
     hit_scan False (p @ bs) acc = hit_scan False bs (acc @ p)"
  by (intro hit_scan_plain ascii_point_special)

lemma hit_scan_escaped:
  assumes "ascii_point p"
  shows "hit_scan True (p @ bs) acc = hit_scan False bs (acc @ p)"
proof (cases p)
  case (Cons c cs)
  show ?thesis
  proof (cases cs)
    case Nil
    with Cons show ?thesis by simp
  next
    case (Cons d ds)
    with \<open>p = c # cs\<close> have "p \<notin> {under_score, percent, [escape_char]}"
      by (auto simp: under_score_def percent_def)
    from ascii_point_special [OF assms this] \<open>p = c # cs\<close>
    show ?thesis using hit_scan_plain [of cs bs "acc @ [c]"] by auto
  qed
qed (use assms in \<open>simp add: ascii_point_def\<close>)

text \<open>
  On a pattern without a dangling escape the scan reads off exactly the leading
  literals; it stops at the first wildcard.
\<close>

definition scan_split :: "bytes list \<Rightarrow> bytes \<Rightarrow> bytes list \<Rightarrow> bytes list \<Rightarrow> bool" where
  "scan_split ps acc lits rps \<longleftrightarrow> tokens ps = map Lit lits @ tokens rps \<and>
     hit_scan False (concat ps) acc = (rps = [], acc @ concat lits) \<and>
     (rps = [] \<or> hd rps \<in> {under_score, percent}) \<and> suffix rps ps \<and> set lits \<subseteq> set ps \<and>
     length (concat lits) + length (concat rps) \<le> length (concat ps)"

lemma scan_split_stop: "p \<in> {under_score, percent} \<Longrightarrow> scan_split (p # ps) acc [] (p # ps)"
  by (auto simp: scan_split_def under_score_def percent_def)

lemma scan_split_literal:
  assumes "scan_split ps (acc @ l) lits rps" and "tokens ps0 = Lit l # tokens ps"
    and "hit_scan False (concat ps0) acc = hit_scan False (concat ps) (acc @ l)"
    and "suffix ps ps0" and "l \<in> set ps0"
    and "length l + length (concat ps) \<le> length (concat ps0)"
  shows "scan_split ps0 acc (l # lits) rps"
  using assms set_mono_suffix [of ps ps0] suffix_order.trans [of rps ps ps0]
  by (auto simp: scan_split_def)

lemma hit_scan_tokens:
  assumes "list_all ascii_point ps" and "ps = [] \<or> last ps \<noteq> [escape_char]"
  shows "\<exists>lits rps. scan_split ps acc lits rps"
  using assms
proof (induction ps arbitrary: acc rule: tokens.induct)
  case 1
  have "scan_split [] acc [] []" by (simp add: scan_split_def)
  then show ?case by blast
next
  case (2 p)
  have "scan_split [p] acc [p] []" if "p \<notin> {under_score, percent}"
    using 2 that hit_scan_point [of p "[]" acc] by (simp add: scan_split_def)
  then show ?case using scan_split_stop [of p "[]"] by blast
next
  case (3 p q ps)
  consider "p \<in> {under_score, percent}" | "p = [escape_char]"
    | "p \<notin> {under_score, percent, [escape_char]}" by blast
  then show ?case
  proof cases
    case 1
    then show ?thesis using scan_split_stop by blast
  next
    case 2
    with "3.IH"(3) [of "acc @ q"] "3.prems" 2 obtain lits rps
      where "scan_split ps (acc @ q) lits rps" by (auto split: if_splits)
    then have "scan_split (p # q # ps) acc (q # lits) rps"
      using 2 "3.prems"(1)
      by (rule_tac scan_split_literal) (auto simp: hit_scan_escaped intro!: suffix_ConsI le_SucI)
    then show ?thesis by blast
  next
    case 3
    with "3.IH"(4) [of "acc @ p"] "3.prems" obtain lits rps
      where "scan_split (q # ps) (acc @ p) lits rps" by auto
    then have "scan_split (p # q # ps) acc (p # lits) rps"
      using 3 "3.prems"(1) hit_scan_point [of p "q @ concat ps" acc]
      by (rule_tac scan_split_literal) (auto intro!: suffix_ConsI)
    then show ?thesis by blast
  qed
qed

lemma last_concat: "list_all (\<lambda>p. p \<noteq> []) ps \<Longrightarrow> ps \<noteq> [] \<Longrightarrow> last (concat ps) = last (last ps)"
  by (induction ps) (auto simp: last_append list_all_iff)

lemma short_concat:
  assumes "list_all (\<lambda>p. p \<noteq> []) (p # ps)" and "length (concat (p # ps)) \<le> 1"
  shows "ps = []"
proof (cases ps)
  case (Cons q qs)
  with assms show ?thesis by (cases p; cases q) auto
qed simp

context ascii_code
begin

lemma code_points_ascii: "code_points ncp str idx = Some ps \<Longrightarrow> list_all ascii_point ps"
proof (induction ps arbitrary: idx)
  case (Cons p ps)
  then show ?case using ascii by (auto simp: code_points_Cons ascii_point_def)
qed simp

text \<open>
  A pattern that the code rewrites: without a wildcard it matches only its
  unescaped self, and with a single final percent sign it matches what starts
  with the literals before it.
\<close>

lemma rewritten_pattern:
  assumes ps: "code_points ncp pattern 0 = Some ps" and ts: "code_points ncp target 0 = Some ts"
    and hit: "hit_index pattern = (is_eq, is_prefix, pre)" and "length pattern \<le> length pre + 1"
    and last: "if is_eq then pattern = [] \<or> last pattern \<noteq> escape_char else last pattern = 0x25"
  shows "wild (tokens ps) ts \<longleftrightarrow> (if is_eq then target = pre else prefix pre target)"
proof -
  have pat: "concat ps = pattern" "list_all point_ok ps" and tgt: "concat ts = target" "list_all point_ok ts"
    using code_points_ok [OF ps] code_points_ok [OF ts] by simp_all
  have asc: "list_all ascii_point ps" using ps by (rule code_points_ascii)
  then have ne: "list_all (\<lambda>p. p \<noteq> []) ps" by (auto simp: list_all_iff ascii_point_def)
  have scan: "hit_scan False pattern [] = (is_eq, pre)"
    using hit by (auto simp: hit_index_def Let_def split: prod.splits)
  have "ps = [] \<or> last ps \<noteq> [escape_char]"
  proof (cases "ps = []")
    case False
    then have "pattern \<noteq> []" using pat(1) ne by (cases ps) auto
    then have "last pattern \<noteq> escape_char" using last by (auto simp: escape_char_def split: if_splits)
    then show ?thesis using last_concat [OF ne False] pat(1) by auto
  qed simp
  from hit_scan_tokens [OF asc this] obtain lits rps where split: "scan_split ps [] lits rps" by blast
  then have eq: "is_eq = (rps = [])" "pre = concat lits" and tok: "tokens ps = map Lit lits @ tokens rps"
    using scan by (auto simp: scan_split_def pat(1))
  have lits: "list_all point_ok lits"
    using split pat(2) by (auto simp: scan_split_def list_all_iff)
  show ?thesis
  proof (cases "rps = []")
    case True
    then show ?thesis
      using tok eq tgt points_eq [OF lits tgt(2)] by (auto simp: wild_literals)
  next
    case False
    then obtain r rs where r: "rps = r # rs" by (cases rps) auto
    have suf: "suffix rps ps" and len: "length (concat rps) \<le> 1"
      using split assms(4) pat(1) eq(2) by (auto simp: scan_split_def)
    have "list_all (\<lambda>p. p \<noteq> []) rps"
      using ne set_mono_suffix [OF suf] by (auto simp: list_all_iff)
    then have "rps = [r]" using short_concat [of r rs] len r by simp
    with suf have "last ps = r" "ps \<noteq> []" by (auto simp: suffix_def)
    then have "last r = 0x25" using last_concat [OF ne] last eq(1) False pat(1) by simp
    then have "rps = [percent]"
      using split \<open>rps = [r]\<close> by (auto simp: scan_split_def under_score_def percent_def)
    then show ?thesis
      using tok eq tgt points_prefix [OF lits tgt(2)] by (simp add: wild_literals_Any)
  qed
qed

end

section \<open>When the rewriting keeps the rows\<close>



lemma split_none: "c \<notin> set bs \<Longrightarrow> split_at_byte c bs = [bs]"
  by (induction bs) auto

lemma like_filter_value_const:
  "exact \<longrightarrow> 0x7C \<notin> set p \<Longrightarrow>
     like_filter_value cs exact (Some p) rp (Some t) = like_one t p cs"
  by (auto simp: like_filter_value_def open_by_pattern_def get_value_by_pattern_def reset_pattern_def
      str_val_def split_none Let_def option.map_comp comp_def option.map_ident)




section \<open>ASCII strings\<close>

definition plain_ascii :: "bytes \<Rightarrow> bool" where
  "plain_ascii s = list_all (\<lambda>c. c < 0x80 \<and> c \<notin> {0x25, 0x5F, 0x5C}) s"

lemma ascii_high_bit: "c < (0x80 :: byte) \<Longrightarrow> c AND 0x80 = 0"
  using high_bit_not_ascii by blast


lemma ascii_code_points:
  assumes "list_all (\<lambda>c. c < 0x80) s"
  shows "charset_points cs s = Some (map (\<lambda>b. [b]) s)"
proof -
  have asc: "(s ! i) AND 0x80 = 0" if "i < length s" for i
    using assms that by (auto simp: list_all_length intro: ascii_high_bit)
  have "code_points utf8_next_code_point s i = Some (map (\<lambda>b. [b]) (drop i s)) \<and>
      code_points gbk_next_code_point s i = Some (map (\<lambda>b. [b]) (drop i s))" for i
  proof (induction "length s - i" arbitrary: i)
    case 0
    then show ?case by simp
  next
    case (Suc n)
    then have i: "i < length s" by simp
    then show ?case
      using Suc(1) [of "Suc i"] Suc(2) asc [OF i]
      by (simp add: utf8.code_points_Cons gbk.code_points_Cons drop_nth
          utf8_next_code_point_def gbk_next_code_point_def)
  qed
  from this [of 0] show ?thesis
    by (cases cs) (simp_all add: charset_points_def binary_points_from)
qed

lemma tokens_plain:
  "list_all (\<lambda>c. c \<notin> {0x25, 0x5F, 0x5C}) p \<Longrightarrow>
     tokens (map (\<lambda>b. [b]) p @ qs) = map Lit (map (\<lambda>b. [b]) p) @ tokens qs"
proof (induction p)
  case (Cons c p)
  then show ?case
    by (cases "map (\<lambda>b. [b]) p @ qs") (auto simp: under_score_def percent_def escape_char_def)
qed simp

lemma wild_drop_literals: "wild (map Lit ls @ ps) (ls @ ts) \<longleftrightarrow> wild ps ts"
  by (induction ls) simp_all

lemma wild_One_only: "wild [One] ts \<longleftrightarrow> length ts = 1"
  by (cases ts) simp_all

lemma hit_index_one_wildcard:
  assumes "plain_ascii p" "p \<noteq> []" and "w \<in> {0x25, 0x5F}"
  shows "hit_index (p @ [w]) = (False, True, p)"
proof -
  have "set p \<inter> {0x25, 0x5F, escape_char} = {}"
    using assms(1) by (auto simp: plain_ascii_def list_all_iff escape_char_def)
  from hit_scan_plain [OF this, of "[w]" "[]"] assms show ?thesis
    by (cases p) (auto simp: hit_index_def plain_ascii_def)
qed

lemma plain_prefix_end: "plain_ascii p \<Longrightarrow> p \<noteq> [] \<Longrightarrow> prefix_end p \<noteq> []"
  by (cases p rule: rev_cases) (auto simp: prefix_end_def plain_ascii_def)

section \<open>Properties\<close>

text \<open>
  (C4) The LIKE predicate opened on a constant pattern answers, on every target,
  whether the pattern matches: if pattern and target are well-formed in the
  character set of the session, the loop with its single backtracking point
  returns, and its answer is the wildcard match of the code points (an
  underscore for one code point, a percent sign for any number of them, an
  escaped code point for itself).
\<close>

theorem like_value:
  assumes "open_by_pattern lp 0 n False (Some pattern) = (0, lp')" and "lp_patterns lp = []"
    and "lp_const_pattern lp" and "charset_points (lp_charset lp) pattern = Some ps"
    and "charset_points (lp_charset lp) target = Some ts"
  shows "get_value_by_pattern lp' (Some target) row_pattern = Some (lp', wild (tokens ps) ts)"
  using assms like_one_points [of "lp_charset lp" pattern ps target ts]
  by (auto simp: open_by_pattern_def reset_pattern_def get_value_by_pattern_def str_val_def Let_def
      split: if_splits)

text \<open>A witness: in UTF-8 an underscore takes the two bytes of one character.\<close>

theorem like_value_witness:
  "get_value_by_pattern \<lparr>lp_pattern = [0x61, 0x5F, 0x25], lp_patterns = [],
       lp_const_pattern = True, lp_charset = UTF8\<rparr> (Some [0x61, 0xC3, 0xA9]) [] =
     Some (\<lparr>lp_pattern = [0x61, 0x5F, 0x25], lp_patterns = [],
       lp_const_pattern = True, lp_charset = UTF8\<rparr>, True)"
  using like_value [of "\<lparr>lp_pattern = [], lp_patterns = [], lp_const_pattern = True,
      lp_charset = UTF8\<rparr>" 2 "[0x61, 0x5F, 0x25]"
      "\<lparr>lp_pattern = [0x61, 0x5F, 0x25], lp_patterns = [], lp_const_pattern = True,
        lp_charset = UTF8\<rparr>" "[[0x61], [0x5F], [0x25]]" "[0x61, 0xC3, 0xA9]" "[[0x61], [0xC3, 0xA9]]" "[]"]
  by (simp add: open_by_pattern_def reset_pattern_def charset_points_def code_points.simps
      utf8_next_code_point_def utf8_get_char_size_def under_score_def percent_def escape_char_def)



text \<open>
  (C30) A final underscore is rewritten like a final percent sign: for ASCII
  literals \<^verbatim>\<open>p\<close> the filter \<^verbatim>\<open>LIKE 'p_'\<close> keeps, once rewritten, every row that
  starts with \<^verbatim>\<open>p\<close>, while the predicate itself holds only of those with
  exactly one more character.
\<close>

theorem underscore_rewritten_to_prefix:
  assumes "plain_ascii p" and "p \<noteq> []" and "list_all (\<lambda>c. c < 0x80) x"
  shows "need_copy (map (filter_value cs rp (Some (p @ x)))
      (optimize_conjuncts True [Like_Filter False (Some (p @ [0x5F]))])) \<and>
    (need_copy [filter_value cs rp (Some (p @ x)) (Like_Filter False (Some (p @ [0x5F])))]
      \<longleftrightarrow> length x = 1)"
proof (rule conjI)
  show "need_copy (map (filter_value cs rp (Some (p @ x)))
      (optimize_conjuncts True [Like_Filter False (Some (p @ [0x5F]))]))"
    using hit_index_one_wildcard [OF assms(1,2), of "0x5F"]
      prefix_range [OF plain_prefix_end [OF assms(1,2)], of "p @ x"]
    by (simp add: optimize_conjuncts_def like_node_optimize_def filter_value_def
        ge_string_string_def lt_string_string_def)
  have "list_all (\<lambda>c. c < 0x80) (p @ [0x5F])" "list_all (\<lambda>c. c < 0x80) (p @ x)"
    using assms by (auto simp: plain_ascii_def list_all_iff)
  from this [THEN ascii_code_points, of cs]
  have "like_one (p @ x) (p @ [0x5F]) cs =
      Some (wild (tokens (map (\<lambda>b. [b]) p @ [under_score])) (map (\<lambda>b. [b]) p @ map (\<lambda>b. [b]) x))"
    by (subst like_one_points) (simp_all add: under_score_def)
  moreover have "tokens (map (\<lambda>b. [b]) p @ [under_score]) = map Lit (map (\<lambda>b. [b]) p) @ [One]"
    using assms(1) by (subst tokens_plain) (auto simp: plain_ascii_def list_all_iff)
  ultimately show "need_copy [filter_value cs rp (Some (p @ x)) (Like_Filter False (Some (p @ [0x5F])))]
      \<longleftrightarrow> length x = 1"
    by (simp add: filter_value_def like_filter_value_const wild_drop_literals wild_One_only
        del: map_map)
qed

text \<open>A witness: \<^verbatim>\<open>LIKE 'a_'\<close> and the row \<^verbatim>\<open>abc\<close>.\<close>

theorem underscore_rewritten_to_prefix_witness:
  "need_copy (map (filter_value UTF8 [] (Some [0x61, 0x62, 0x63]))
      (optimize_conjuncts True [Like_Filter False (Some [0x61, 0x5F])])) \<and>
   \<not> need_copy [filter_value UTF8 [] (Some [0x61, 0x62, 0x63]) (Like_Filter False (Some [0x61, 0x5F]))]"
  using underscore_rewritten_to_prefix [of "[0x61]" "[0x62, 0x63]" UTF8 "[]"]
  by (simp add: plain_ascii_def)



text \<open>
  (C29) The LIKE predicate always answers, whatever its operands and its
  character set, including strings that are not well-formed in it: the matching
  loop ends on every target and every pattern, and so does the fallback to bytes.
\<close>

theorem like_predicate_total:
  "\<exists>lp' b. get_value_by_pattern lp child0 row_pattern = Some (lp', b) \<and> lp_charset lp' = lp_charset lp"
proof -
  have "like_one t p cs \<noteq> None" "like_any t ps cs \<noteq> None" for t p ps cs
    using like_one_returns [of t p cs] like_any_returns [of t ps cs] by auto
  then show ?thesis
    by (auto simp: get_value_by_pattern_def reset_pattern_def Let_def)
qed

subsection \<open>Other patterns the rewriting changes\<close>

lemma dangling_escape_rewritten:
  "like_one [0x61, 0x5C] [0x61, 0x5C] CS_UNKNOWN = Some True \<and>
   optimize_conjuncts True [Like_Filter False (Some [0x61, 0x5C])] = [Eq_Filter [0x61]]"
proof -
  have "like_one [0x61, 0x5C] [0x61, 0x5C] CS_UNKNOWN = Some True"
    using like_one_points [OF binary_points binary_points, of "[0x61, 0x5C]" "[0x61, 0x5C]"]
    by (simp add: under_score_def percent_def escape_char_def)
  then show ?thesis
    by (simp add: optimize_conjuncts_def like_node_optimize_def hit_index_def escape_char_def)
qed

lemma largest_byte_prefix_rewritten:
  "like_one [0xFF, 0x61] [0xFF, 0x25] CS_UNKNOWN = Some True \<and>
   optimize_conjuncts True [Like_Filter False (Some [0xFF, 0x25])] =
     [Ge_Filter [0xFF], Lt_Filter []] \<and>
   (\<forall>v. filter_value cs rp v (Lt_Filter []) \<noteq> Some True)"
proof -
  have "like_one [0xFF, 0x61] [0xFF, 0x25] CS_UNKNOWN = Some True"
    using like_one_points [OF binary_points binary_points, of "[0xFF, 0x61]" "[0xFF, 0x25]"]
    by (simp add: under_score_def percent_def escape_char_def)
  then show ?thesis
    by (simp add: optimize_conjuncts_def like_node_optimize_def hit_index_def escape_char_def
        prefix_end_def filter_value_def lt_string_string_def split: option.splits)
qed

lemma exact_alternatives_rewritten:
  "filter_value CS_UNKNOWN [] (Some [0x61]) (Like_Filter True (Some [0x61, 0x7C, 0x62])) = Some True \<and>
   optimize_conjuncts True [Like_Filter True (Some [0x61, 0x7C, 0x62])] =
     [Eq_Filter [0x61, 0x7C, 0x62]]"
proof -
  have "like_one [0x61] [0x61] CS_UNKNOWN = Some True"
    using like_one_points [OF binary_points binary_points, of "[0x61]" "[0x61]"]
    by (simp add: under_score_def percent_def escape_char_def)
  then show ?thesis
    by (simp add: optimize_conjuncts_def like_node_optimize_def hit_index_def escape_char_def
        filter_value_def like_filter_value_def open_by_pattern_def get_value_by_pattern_def
        reset_pattern_def exact_pattern_def str_val_def)
qed

lemma null_like_percent:
  "filter_value cs [] None (Like_Filter False (Some [0x25])) = Some True"
proof -
  have "charset_points cs [0x25] = Some [[0x25]]" "charset_points cs [] = Some []"
    by (simp_all add: ascii_code_points)
  from like_one_points [OF this] have "like_one [] [0x25] cs = Some True"
    by (simp add: under_score_def percent_def)
  then show ?thesis
    by (simp add: filter_value_def like_filter_value_def open_by_pattern_def
        get_value_by_pattern_def reset_pattern_def str_val_def)
qed

end
