(* ===== verification/RowCompare.thy ===== *)
theory RowCompare
  imports TableKeys "HOL-Library.Product_Lexorder"
begin

text \<open>
  Comparing values and rows: \<^verbatim>\<open>ExprValue::compare\<close>
  (\<^verbatim>\<open>include/common/expr_value.h\<close>) and \<^verbatim>\<open>MemRowCompare\<close>
  (\<^verbatim>\<open>src/mem_row/mem_row_compare.cpp\<close>), the order of ORDER BY.  A row is any
  type; an order expression is a function from rows to values.  The parameter
  \<^verbatim>\<open>reint\<close> stands for the comparison of two values of different types, which
  reads the union of one of them through a member it was not written with, and
  for the types whose contents \<^typ>\<open>expr_value\<close> leaves out.  The locale \<^verbatim>\<open>row_order\<close> is what
  the sorters need of a row comparison; it holds of rows whose order
  expressions each have one type and no NaN.
\<close>

section \<open>Values\<close>

definition is_null :: "expr_value \<Rightarrow> bool" where
  "is_null v \<longleftrightarrow> value_type v = NULL_TYPE \<or> value_type v = INVALID_TYPE"

definition cmp_by :: "('a \<Rightarrow> 'a \<Rightarrow> bool) \<Rightarrow> 'a \<Rightarrow> 'a \<Rightarrow> int" where
  "cmp_by lt a b = (if lt b a then 1 else if lt a b then -1 else 0)"

definition ev_compare ::
  "(expr_value \<Rightarrow> expr_value \<Rightarrow> int) \<Rightarrow> expr_value \<Rightarrow> expr_value \<Rightarrow> int" where
  "ev_compare reint x y =
     (if value_type x = MAXVALUE_TYPE \<or> value_type y = MAXVALUE_TYPE
      then (if value_type x = MAXVALUE_TYPE \<and> value_type y = MAXVALUE_TYPE then 0
            else if value_type x = MAXVALUE_TYPE then 1 else -1)
      else case x of
         VBool a \<Rightarrow> (case y of VBool b \<Rightarrow> of_bool a - of_bool b | _ \<Rightarrow> reint x y)
      | VInt8 a \<Rightarrow> (case y of VInt8 b \<Rightarrow> sint a - sint b | _ \<Rightarrow> reint x y)
      | VInt16 a \<Rightarrow> (case y of VInt16 b \<Rightarrow> sint a - sint b | _ \<Rightarrow> reint x y)
      | VInt32 a \<Rightarrow> (case y of VInt32 b \<Rightarrow> sint a - sint b | _ \<Rightarrow> reint x y)
      | VTime a \<Rightarrow> (case y of VTime b \<Rightarrow> sint a - sint b | _ \<Rightarrow> reint x y)
      | VInt64 a \<Rightarrow> (case y of VInt64 b \<Rightarrow> cmp_by (\<lambda>a b. sint a < sint b) a b | _ \<Rightarrow> reint x y)
      | VUint8 a \<Rightarrow> (case y of VUint8 b \<Rightarrow> uint a - uint b | _ \<Rightarrow> reint x y)
      | VUint16 a \<Rightarrow> (case y of VUint16 b \<Rightarrow> uint a - uint b | _ \<Rightarrow> reint x y)
      | VUint32 a \<Rightarrow> (case y of VUint32 b \<Rightarrow> uint a - uint b | _ \<Rightarrow> reint x y)
      | VTimestamp a \<Rightarrow> (case y of VTimestamp b \<Rightarrow> uint a - uint b | _ \<Rightarrow> reint x y)
      | VDate a \<Rightarrow> (case y of VDate b \<Rightarrow> uint a - uint b | _ \<Rightarrow> reint x y)
      | VUint64 a \<Rightarrow> (case y of VUint64 b \<Rightarrow> cmp_by (\<lambda>a b. uint a < uint b) a b | _ \<Rightarrow> reint x y)
      | VDatetime a \<Rightarrow> (case y of VDatetime b \<Rightarrow> cmp_by (\<lambda>a b. uint a < uint b) a b | _ \<Rightarrow> reint x y)
      | VFloat a \<Rightarrow> (case y of VFloat b \<Rightarrow> cmp_by f32_less a b | _ \<Rightarrow> reint x y)
      | VDouble a \<Rightarrow> (case y of VDouble b \<Rightarrow> cmp_by f64_less a b | _ \<Rightarrow> reint x y)
      | VString a \<Rightarrow> (case y of VString b \<Rightarrow> cmp_by (<) a b | _ \<Rightarrow> reint x y)
      | VOther t \<Rightarrow> if t = NULL_TYPE then -1 else if t = HEX \<or> t = JSON then reint x y else 0)"

section \<open>Rows\<close>

text \<open>
  The comparer keeps three vectors of equal length; they are walked together.
\<close>

record 'r row_comparer =
  slot_order_exprs :: "('r \<Rightarrow> expr_value) list"
  is_asc :: "bool list"
  is_null_first :: "bool list"

definition need_not_compare :: "'r row_comparer \<Rightarrow> bool" where
  "need_not_compare c \<longleftrightarrow> length (slot_order_exprs c) = 0"

fun compare_keys ::
  "(expr_value \<Rightarrow> expr_value \<Rightarrow> int) \<Rightarrow> (('r \<Rightarrow> expr_value) \<times> bool \<times> bool) list
     \<Rightarrow> 'r \<Rightarrow> 'r \<Rightarrow> int" where
  "compare_keys reint [] left right = 0"
| "compare_keys reint ((expr, asc, null_first) # keys) left right =
     (let left_value = expr left; right_value = expr right in
      if is_null left_value \<and> is_null right_value then compare_keys reint keys left right
      else if is_null left_value then (if null_first then -1 else 1)
      else if is_null right_value then (if null_first then 1 else -1)
      else let comp = ev_compare reint left_value right_value in
        if comp \<noteq> 0 then (if asc then comp else - comp)
        else compare_keys reint keys left right)"

definition order_keys :: "'r row_comparer \<Rightarrow> (('r \<Rightarrow> expr_value) \<times> bool \<times> bool) list" where
  "order_keys c = zip (slot_order_exprs c) (zip (is_asc c) (is_null_first c))"

definition row_compare ::
  "(expr_value \<Rightarrow> expr_value \<Rightarrow> int) \<Rightarrow> 'r row_comparer \<Rightarrow> 'r \<Rightarrow> 'r \<Rightarrow> int" where
  "row_compare reint c = compare_keys reint (order_keys c)"

definition row_less ::
  "(expr_value \<Rightarrow> expr_value \<Rightarrow> int) \<Rightarrow> 'r row_comparer \<Rightarrow> 'r \<Rightarrow> 'r \<Rightarrow> bool" where
  "row_less reint c left right \<longleftrightarrow> row_compare reint c left right < 0"

section \<open>The contract of a row comparison\<close>

locale row_order =
  fixes cmp :: "'r \<Rightarrow> 'r \<Rightarrow> int" and V :: "'r set"
  assumes cmp_anti: "x \<in> V \<Longrightarrow> y \<in> V \<Longrightarrow> cmp x y < 0 \<longleftrightarrow> 0 < cmp y x"
    and cmp_trans: "x \<in> V \<Longrightarrow> y \<in> V \<Longrightarrow> z \<in> V \<Longrightarrow> cmp x y \<le> 0 \<Longrightarrow> cmp y z \<le> 0 \<Longrightarrow> cmp x z \<le> 0"
begin

lemma cmp_refl: "x \<in> V \<Longrightarrow> cmp x x = 0"
  using cmp_anti [of x x] by linarith

lemma cmp_le_iff: "x \<in> V \<Longrightarrow> y \<in> V \<Longrightarrow> cmp x y \<le> 0 \<longleftrightarrow> \<not> cmp y x < 0"
  using cmp_anti [of y x] by linarith

end

section \<open>Values of one type are totally ordered\<close>

text \<open>The key of a value: what its comparison depends on.\<close>

fun ev_key :: "expr_value \<Rightarrow> int \<times> bytes" where
  "ev_key (VBool a) = (of_bool a, [])"
| "ev_key (VInt8 a) = (sint a, [])"
| "ev_key (VInt16 a) = (sint a, [])"
| "ev_key (VInt32 a) = (sint a, [])"
| "ev_key (VInt64 a) = (sint a, [])"
| "ev_key (VUint8 a) = (uint a, [])"
| "ev_key (VUint16 a) = (uint a, [])"
| "ev_key (VUint32 a) = (uint a, [])"
| "ev_key (VUint64 a) = (uint a, [])"
| "ev_key (VFloat a) = (f32_ord a, [])"
| "ev_key (VDouble a) = (f64_ord a, [])"
| "ev_key (VString a) = (0, a)"
| "ev_key (VDatetime a) = (uint a, [])"
| "ev_key (VTimestamp a) = (uint a, [])"
| "ev_key (VDate a) = (uint a, [])"
| "ev_key (VTime a) = (sint a, [])"
| "ev_key (VOther t) = (if t = MAXVALUE_TYPE then 1 else 0, [])"

fun is_nan :: "expr_value \<Rightarrow> bool" where
  "is_nan (VFloat a) = f32_is_nan a"
| "is_nan (VDouble a) = f64_is_nan a"
| "is_nan v = False"

definition kind :: "expr_value \<Rightarrow> primitive_type" where
  "kind v = (case v of VOther t \<Rightarrow> NULL_TYPE | _ \<Rightarrow> value_type v)"

definition typed :: "primitive_type \<Rightarrow> expr_value \<Rightarrow> bool" where
  "typed k v \<longleftrightarrow> is_null v \<or> kind v = k \<and> value_type v \<notin> {HEX, JSON} \<and> \<not> is_nan v"

lemma same_kind:
  assumes "kind x = kind y"
  obtains
  (VBool) a b where "x = VBool a" "y = VBool b"
  | (VInt8) a b where "x = VInt8 a" "y = VInt8 b"
  | (VInt16) a b where "x = VInt16 a" "y = VInt16 b"
  | (VInt32) a b where "x = VInt32 a" "y = VInt32 b"
  | (VInt64) a b where "x = VInt64 a" "y = VInt64 b"
  | (VUint8) a b where "x = VUint8 a" "y = VUint8 b"
  | (VUint16) a b where "x = VUint16 a" "y = VUint16 b"
  | (VUint32) a b where "x = VUint32 a" "y = VUint32 b"
  | (VUint64) a b where "x = VUint64 a" "y = VUint64 b"
  | (VFloat) a b where "x = VFloat a" "y = VFloat b"
  | (VDouble) a b where "x = VDouble a" "y = VDouble b"
  | (VString) a b where "x = VString a" "y = VString b"
  | (VDatetime) a b where "x = VDatetime a" "y = VDatetime b"
  | (VTimestamp) a b where "x = VTimestamp a" "y = VTimestamp b"
  | (VDate) a b where "x = VDate a" "y = VDate b"
  | (VTime) a b where "x = VTime a" "y = VTime b"
  | (VOther) a b where "x = VOther a" "y = VOther b"
  using assms by (cases x; cases y; simp add: kind_def)

lemma ev_compare_simps [simp]:
  "ev_compare reint (VBool a1) (VBool b1) = of_bool a1 - of_bool b1"
  "ev_compare reint (VInt8 a2) (VInt8 b2) = sint a2 - sint b2"
  "ev_compare reint (VInt16 a3) (VInt16 b3) = sint a3 - sint b3"
  "ev_compare reint (VInt32 a4) (VInt32 b4) = sint a4 - sint b4"
  "ev_compare reint (VInt64 a5) (VInt64 b5) = cmp_by (\<lambda>a b. sint a < sint b) a5 b5"
  "ev_compare reint (VUint8 a6) (VUint8 b6) = uint a6 - uint b6"
  "ev_compare reint (VUint16 a7) (VUint16 b7) = uint a7 - uint b7"
  "ev_compare reint (VUint32 a8) (VUint32 b8) = uint a8 - uint b8"
  "ev_compare reint (VUint64 a9) (VUint64 b9) = cmp_by (\<lambda>a b. uint a < uint b) a9 b9"
  "ev_compare reint (VFloat a10) (VFloat b10) = cmp_by f32_less a10 b10"
  "ev_compare reint (VDouble a11) (VDouble b11) = cmp_by f64_less a11 b11"
  "ev_compare reint (VString a12) (VString b12) = cmp_by (<) a12 b12"
  "ev_compare reint (VDatetime a13) (VDatetime b13) = cmp_by (\<lambda>a b. uint a < uint b) a13 b13"
  "ev_compare reint (VTimestamp a14) (VTimestamp b14) = uint a14 - uint b14"
  "ev_compare reint (VDate a15) (VDate b15) = uint a15 - uint b15"
  "ev_compare reint (VTime a16) (VTime b16) = sint a16 - sint b16"
  by (simp_all add: ev_compare_def)

lemma ev_compare_other:
  "ev_compare reint (VOther s) (VOther t) =
     (if s = MAXVALUE_TYPE then (if t = MAXVALUE_TYPE then 0 else 1)
      else if t = MAXVALUE_TYPE then -1
      else if s = NULL_TYPE then -1
      else if s = HEX \<or> s = JSON then reint (VOther s) (VOther t) else 0)"
  by (simp add: ev_compare_def)

lemma ev_compare_key:
  assumes "typed k x" "typed k y" "\<not> is_null x" "\<not> is_null y"
  shows "(ev_compare reint x y < 0 \<longleftrightarrow> ev_key x < ev_key y) \<and>
    (0 < ev_compare reint x y \<longleftrightarrow> ev_key y < ev_key x)"
proof -
  have "kind x = kind y" using assms by (simp add: typed_def)
  then show ?thesis
    using assms
    by (cases rule: same_kind)
      (simp_all add: cmp_by_def typed_def f32_less_def f64_less_def ev_compare_other is_null_def,
        meson less_asym)
qed

section \<open>Rows are totally ordered\<close>

text \<open>Comparing by one order expression; the comparison of rows goes through them in turn.\<close>

definition key_cmp ::
  "(expr_value \<Rightarrow> expr_value \<Rightarrow> int) \<Rightarrow> ('r \<Rightarrow> expr_value) \<times> bool \<times> bool \<Rightarrow> 'r \<Rightarrow> 'r \<Rightarrow> int" where
  "key_cmp reint key l r = compare_keys reint [key] l r"

lemma compare_keys_lex:
  "compare_keys reint (key # keys) l r =
     (if key_cmp reint key l r \<noteq> 0 then key_cmp reint key l r else compare_keys reint keys l r)"
  by (cases key) (simp add: key_cmp_def Let_def)

lemma row_order_lex:
  assumes "row_order c1 V" and "row_order c2 W"
  shows "row_order (\<lambda>l r. if c1 l r \<noteq> 0 then c1 l r else c2 l r) (V \<inter> W)"
proof
  fix x y assume "x \<in> V \<inter> W" "y \<in> V \<inter> W"
  then show "(if c1 x y \<noteq> 0 then c1 x y else c2 x y) < 0 \<longleftrightarrow>
      0 < (if c1 y x \<noteq> 0 then c1 y x else c2 y x)"
    using row_order.cmp_anti [OF assms(1), of x y] row_order.cmp_anti [OF assms(1), of y x]
      row_order.cmp_anti [OF assms(2), of x y] by (cases "c1 x y" "0 :: int" rule: linorder_cases) auto
next
  fix x y z assume V: "x \<in> V \<inter> W" "y \<in> V \<inter> W" "z \<in> V \<inter> W"
    and le: "(if c1 x y \<noteq> 0 then c1 x y else c2 x y) \<le> 0"
      "(if c1 y z \<noteq> 0 then c1 y z else c2 y z) \<le> 0"
  then have c1: "c1 x y \<le> 0" "c1 y z \<le> 0" by (auto split: if_splits)
  then have xz: "c1 x z \<le> 0" using row_order.cmp_trans [OF assms(1), of x y z] V by blast
  show "(if c1 x z \<noteq> 0 then c1 x z else c2 x z) \<le> 0"
  proof (cases "c1 x z = 0")
    case True
    then have "c1 z x \<le> 0" using row_order.cmp_anti [OF assms(1), of x z] V by auto
    then have "c1 y x \<le> 0" "c1 z y \<le> 0"
      using row_order.cmp_trans [OF assms(1), of y z x] row_order.cmp_trans [OF assms(1), of z x y]
        V c1 by blast+
    then have "c1 x y = 0" "c1 y z = 0"
      using row_order.cmp_anti [OF assms(1), of x y] row_order.cmp_anti [OF assms(1), of y z] V c1
      by force+
    with True le show ?thesis using row_order.cmp_trans [OF assms(2), of x y z] V by simp
  qed (use xz in simp)
qed

lemma key_order:
  "row_order (key_cmp reint (expr, asc, null_first)) {r. typed k (expr r)}"
proof
  fix x y assume V: "x \<in> {r. typed k (expr r)}" "y \<in> {r. typed k (expr r)}"
  then show "key_cmp reint (expr, asc, null_first) x y < 0 \<longleftrightarrow>
      0 < key_cmp reint (expr, asc, null_first) y x"
    using ev_compare_key [of k "expr x" "expr y" reint] ev_compare_key [of k "expr y" "expr x" reint]
    by (auto simp: key_cmp_def Let_def)
next
  fix x y z assume V: "x \<in> {r. typed k (expr r)}" "y \<in> {r. typed k (expr r)}" "z \<in> {r. typed k (expr r)}"
    and le: "key_cmp reint (expr, asc, null_first) x y \<le> 0"
      "key_cmp reint (expr, asc, null_first) y z \<le> 0"
  have key: "key_cmp reint (expr, asc, null_first) l r \<le> 0 \<longleftrightarrow>
      (if is_null (expr l) \<or> is_null (expr r)
       then is_null (expr l) \<and> (null_first \<or> is_null (expr r)) \<or>
         \<not> is_null (expr l) \<and> \<not> null_first
       else if asc then ev_key (expr l) \<le> ev_key (expr r) else ev_key (expr r) \<le> ev_key (expr l))"
    if "typed k (expr l)" "typed k (expr r)" for l r
    using ev_compare_key [of k "expr l" "expr r" reint] that
    by (auto simp: key_cmp_def Let_def not_less [symmetric])
  show "key_cmp reint (expr, asc, null_first) x z \<le> 0"
    using V le key [of x y] key [of y z] key [of x z] by (auto split: if_splits)
qed

text \<open>Rows whose order expressions each have values of one kind.\<close>

definition typed_rows :: "'r row_comparer \<Rightarrow> primitive_type list \<Rightarrow> 'r set" where
  "typed_rows c ks = {r. list_all2 (\<lambda>key k. typed k (fst key r)) (order_keys c) ks}"

lemma compare_keys_order:
  "row_order (compare_keys reint keys) {r. list_all2 (\<lambda>key k. typed k (fst key r)) keys ks}"
proof (induction keys arbitrary: ks)
  case Nil
  show ?case by unfold_locales simp_all
next
  case (Cons key keys)
  obtain expr asc nf where key: "key = (expr, asc, nf)" by (cases key)
  show ?case
  proof (cases ks)
    case Nil
    show ?thesis by (unfold_locales; simp add: Nil)
  next
    case ks: (Cons k ks')
    have "{r. list_all2 (\<lambda>key k. typed k (fst key r)) (key # keys) ks} =
        {r. typed k (expr r)} \<inter> {r. list_all2 (\<lambda>key k. typed k (fst key r)) keys ks'}"
      by (auto simp: ks key)
    moreover have "compare_keys reint (key # keys) = (\<lambda>l r. if key_cmp reint key l r \<noteq> 0
        then key_cmp reint key l r else compare_keys reint keys l r)"
      by (intro ext) (rule compare_keys_lex)
    ultimately show ?thesis
      using row_order_lex [OF key_order [of reint expr asc nf k] Cons.IH [of ks']]
      unfolding key by (simp only:)
  qed
qed

interpretation rc: row_order "row_compare reint c" "typed_rows c ks" for reint c ks
  unfolding row_compare_def typed_rows_def by (rule compare_keys_order)

end
