(* ===== verification/HeapSift.thy ===== *)
theory HeapSift
  imports Main "HOL-Library.Multiset"
begin

text \<open>
  The array heaps of the sorters (\<^verbatim>\<open>src/runtime/sorter.cpp\<close> and
  \<^verbatim>\<open>src/runtime/topn_sorter.cpp\<close>): moving an element down and up, and building a
  heap.  Both sorters have the same three loops and differ in the comparison
  only; \<^verbatim>\<open>before\<close> stands for it.  The locale \<^verbatim>\<open>heap_order\<close> is what a comparison
  must satisfy for the root to be an element nothing comes before.
\<close>

definition iter_swap :: "'a list \<Rightarrow> nat \<Rightarrow> nat \<Rightarrow> 'a list" where
  "iter_swap xs i j = xs[i := xs ! j, j := xs ! i]"

definition min_child :: "('a \<Rightarrow> 'a \<Rightarrow> bool) \<Rightarrow> nat \<Rightarrow> 'a list \<Rightarrow> nat \<Rightarrow> nat" where
  "min_child before n xs index =
     (let left_index = index * 2 + 1;
          right_index = left_index + 1;
          min_index = (if left_index < n \<and> before (xs ! left_index) (xs ! index)
                       then left_index else index)
      in if right_index < n \<and> before (xs ! right_index) (xs ! min_index)
         then right_index else min_index)"

lemma min_child_cases: "min_child before n xs i \<noteq> i \<Longrightarrow> i < min_child before n xs i \<and> min_child before n xs i < n"
  by (auto simp: min_child_def Let_def split: if_splits)

function sift_down :: "('a \<Rightarrow> 'a \<Rightarrow> bool) \<Rightarrow> nat \<Rightarrow> 'a list \<Rightarrow> nat \<Rightarrow> 'a list" where
  "sift_down before n xs index =
     (if index * 2 + 1 \<ge> n then xs
      else let min_index = min_child before n xs index in
        if min_index \<noteq> index
        then sift_down before n (iter_swap xs min_index index) min_index
        else xs)"
  by pat_completeness auto
termination
  by (relation "measure (\<lambda>(before, n, xs, index). n - index)")
    (auto dest: min_child_cases)

declare sift_down.simps [simp del]

fun sift_up :: "('a \<Rightarrow> 'a \<Rightarrow> bool) \<Rightarrow> 'a list \<Rightarrow> nat \<Rightarrow> 'a list" where
  "sift_up before xs index =
     (if index = 0 then xs
      else let parent = (index - 1) div 2 in
        if before (xs ! index) (xs ! parent)
        then sift_up before (iter_swap xs index parent) parent
        else xs)"

declare sift_up.simps [simp del]

primrec sift_all :: "('a \<Rightarrow> 'a \<Rightarrow> bool) \<Rightarrow> nat \<Rightarrow> 'a list \<Rightarrow> nat \<Rightarrow> 'a list" where
  "sift_all before n xs 0 = xs"
| "sift_all before n xs (Suc i) = sift_all before n (sift_down before n xs i) i"

text \<open>\<^verbatim>\<open>make_heap\<close>: the inner nodes from the last one to the root.\<close>

definition make_heap :: "('a \<Rightarrow> 'a \<Rightarrow> bool) \<Rightarrow> 'a list \<Rightarrow> 'a list" where
  "make_heap before xs = sift_all before (length xs) xs (length xs div 2)"

section \<open>The elements stay\<close>

lemma length_iter_swap [simp]: "length (iter_swap xs i j) = length xs"
  by (simp add: iter_swap_def)

lemma mset_iter_swap [simp]:
  "i < length xs \<Longrightarrow> j < length xs \<Longrightarrow> mset (iter_swap xs i j) = mset xs"
  unfolding iter_swap_def by (simp add: mset_swap)

lemma nth_iter_swap:
  "i < length xs \<Longrightarrow> j < length xs \<Longrightarrow> k < length xs \<Longrightarrow>
     iter_swap xs i j ! k = (if k = j then xs ! i else if k = i then xs ! j else xs ! k)"
  by (simp add: iter_swap_def nth_list_update)

lemma mset_sift_down:
  "n \<le> length xs \<Longrightarrow> mset (sift_down before n xs i) = mset xs"
proof (induction before n xs i rule: sift_down.induct)
  case (1 before n xs i)
  show ?case
  proof (cases "i * 2 + 1 \<ge> n \<or> min_child before n xs i = i")
    case True
    then show ?thesis by (subst sift_down.simps) (auto simp: Let_def)
  next
    case False
    then have "min_child before n xs i < n" "i < n"
      using min_child_cases [of before n xs i] by auto
    with False 1 show ?thesis by (subst sift_down.simps) (simp add: Let_def)
  qed
qed

lemma mset_sift_up: "i < length xs \<Longrightarrow> mset (sift_up before xs i) = mset xs"
proof (induction before xs i rule: sift_up.induct)
  case (1 before xs i)
  then show ?case by (subst sift_up.simps) (auto simp: Let_def)
qed

lemma mset_sift_all: "n \<le> length xs \<Longrightarrow> mset (sift_all before n xs i) = mset xs"
proof (induction i arbitrary: xs)
  case (Suc i)
  have "length (sift_down before n xs i) = length xs"
    using mset_sift_down [OF Suc.prems] by (metis size_mset)
  with Suc mset_sift_down [OF Suc.prems] show ?case by simp
qed simp

lemma mset_make_heap: "mset (make_heap before xs) = mset xs"
  by (simp add: make_heap_def mset_sift_all)

lemma length_sift [simp]:
  "n \<le> length xs \<Longrightarrow> length (sift_down before n xs i) = length xs"
  "j < length xs \<Longrightarrow> length (sift_up before xs j) = length xs"
  "length (make_heap before xs) = length xs"
  using mset_sift_down mset_sift_up mset_make_heap by (metis size_mset)+

section \<open>The heap property\<close>

abbreviation par :: "nat \<Rightarrow> nat" where
  "par i \<equiv> (i - 1) div 2"

definition heap_from :: "('a \<Rightarrow> 'a \<Rightarrow> bool) \<Rightarrow> nat \<Rightarrow> 'a list \<Rightarrow> bool" where
  "heap_from before k xs \<longleftrightarrow>
     (\<forall>j < length xs. 0 < j \<longrightarrow> k \<le> par j \<longrightarrow> \<not> before (xs ! j) (xs ! par j))"

abbreviation is_heap :: "('a \<Rightarrow> 'a \<Rightarrow> bool) \<Rightarrow> 'a list \<Rightarrow> bool" where
  "is_heap before \<equiv> heap_from before 0"

definition hole_down :: "('a \<Rightarrow> 'a \<Rightarrow> bool) \<Rightarrow> nat \<Rightarrow> nat \<Rightarrow> 'a list \<Rightarrow> bool" where
  "hole_down before k i xs \<longleftrightarrow>
     (\<forall>j < length xs. 0 < j \<longrightarrow> k \<le> par j \<longrightarrow> par j \<noteq> i \<longrightarrow> \<not> before (xs ! j) (xs ! par j)) \<and>
     (\<forall>j < length xs. 0 < j \<longrightarrow> par j = i \<longrightarrow> 0 < i \<longrightarrow> k \<le> par i \<longrightarrow>
        \<not> before (xs ! j) (xs ! par i))"

definition hole_up :: "('a \<Rightarrow> 'a \<Rightarrow> bool) \<Rightarrow> nat \<Rightarrow> 'a list \<Rightarrow> bool" where
  "hole_up before i xs \<longleftrightarrow>
     (\<forall>j < length xs. 0 < j \<longrightarrow> j \<noteq> i \<longrightarrow> \<not> before (xs ! j) (xs ! par j)) \<and>
     (\<forall>j < length xs. 0 < j \<longrightarrow> par j = i \<longrightarrow> 0 < i \<longrightarrow> \<not> before (xs ! j) (xs ! par i))"

lemma par_less: "0 < i \<Longrightarrow> par i < i"
  by presburger

lemma sift_up_swap:
  assumes "0 < i" and "before (xs ! i) (xs ! par i)"
  shows "sift_up before xs i = sift_up before (iter_swap xs i (par i)) (par i)"
  using assms by (subst sift_up.simps) (simp only: Let_def if_True if_False less_irrefl_nat gr_implies_not0 refl not_False_eq_True
      simp_thms split: if_split)

locale heap_order =
  fixes before :: "'a \<Rightarrow> 'a \<Rightarrow> bool" and V :: "'a set"
  assumes asym: "x \<in> V \<Longrightarrow> y \<in> V \<Longrightarrow> before x y \<Longrightarrow> \<not> before y x"
    and neg_trans: "x \<in> V \<Longrightarrow> y \<in> V \<Longrightarrow> z \<in> V \<Longrightarrow>
      \<not> before x y \<Longrightarrow> \<not> before y z \<Longrightarrow> \<not> before x z"
begin

lemma not_before_refl: "x \<in> V \<Longrightarrow> \<not> before x x"
  using asym by blast

lemma min_child_best:
  assumes V: "set xs \<subseteq> V" and "i < length xs" and j: "j < length xs" "0 < j" "par j = i"
  shows "\<not> before (xs ! j) (xs ! min_child before (length xs) xs i)"
proof -
  let ?l = "i * 2 + 1" and ?r = "i * 2 + 1 + 1"
  define m where "m = (if ?l < length xs \<and> before (xs ! ?l) (xs ! i) then ?l else i)"
  have child: "min_child before (length xs) xs i =
      (if ?r < length xs \<and> before (xs ! ?r) (xs ! m) then ?r else m)"
    by (simp add: min_child_def m_def Let_def)
  have jc: "j = ?l \<or> j = ?r" and l: "?l < length xs" using j by presburger+
  have in_V: "k < length xs \<Longrightarrow> xs ! k \<in> V" for k using V by auto
  have m: "m < length xs" using assms(2) l by (simp add: m_def)
  have lm: "\<not> before (xs ! ?l) (xs ! m)"
    using not_before_refl [OF in_V [OF l]] l by (simp add: m_def)
  show ?thesis
  proof (cases "?r < length xs \<and> before (xs ! ?r) (xs ! m)")
    case True
    then have r: "xs ! ?r \<in> V" using in_V by blast
    have "\<not> before (xs ! m) (xs ! ?r)"
      using asym [OF r in_V [OF m]] True by blast
    then have "\<not> before (xs ! ?l) (xs ! ?r)"
      using neg_trans [OF in_V [OF l] in_V [OF m] r lm] by blast
    then show ?thesis using jc True not_before_refl [OF r] by (auto simp: child)
  next
    case False
    then have "min_child before (length xs) xs i = m" by (simp only: child if_False)
    then show ?thesis using jc j(1) False lm by auto
  qed
qed

lemma min_child_before:
  assumes "set xs \<subseteq> V" and "i < length xs" and "min_child before (length xs) xs i \<noteq> i"
  shows "before (xs ! min_child before (length xs) xs i) (xs ! i)"
proof (rule ccontr)
  let ?m = "min_child before (length xs) xs i"
  assume no: "\<not> before (xs ! ?m) (xs ! i)"
  have m: "?m < length xs" using min_child_cases [OF assms(3)] by simp
  have in_V: "k < length xs \<Longrightarrow> xs ! k \<in> V" for k using assms(1) by auto
  show False
  proof (cases "i * 2 + 1 < length xs \<and> before (xs ! (i * 2 + 1)) (xs ! i)")
    case True
    have "\<not> before (xs ! (i * 2 + 1)) (xs ! ?m)"
      using True assms(1,2) by (intro min_child_best) auto
    with no have "\<not> before (xs ! (i * 2 + 1)) (xs ! i)"
      using neg_trans in_V True m assms(2) by blast
    with True show False by simp
  next
    case False
    with no assms(3) show False by (auto simp: min_child_def Let_def split: if_splits)
  qed
qed

lemma hole_down_step:
  assumes V: "set xs \<subseteq> V" and i: "i < length xs" "k \<le> i" and hole: "hole_down before k i xs"
    and m: "m = min_child before (length xs) xs i" "m \<noteq> i"
  shows "hole_down before k m (iter_swap xs m i)"
proof -
  have im: "i < m" "m < length xs" using min_child_cases [of before "length xs" xs i] m by auto
  have par_m: "par m = i" "0 < m"
    using m by (auto simp: min_child_def Let_def split: if_splits)
  have in_V: "j < length xs \<Longrightarrow> xs ! j \<in> V" for j using V by auto
  have best: "j < length xs \<Longrightarrow> 0 < j \<Longrightarrow> par j = i \<Longrightarrow> \<not> before (xs ! j) (xs ! m)" for j
    using min_child_best [OF V i(1)] m(1) by simp
  have "before (xs ! m) (xs ! i)" using min_child_before [OF V i(1)] m by simp
  then have swap: "\<not> before (xs ! i) (xs ! m)" using asym in_V i im by blast
  have nth: "iter_swap xs m i ! j = (if j = i then xs ! m else if j = m then xs ! i else xs ! j)"
    if "j < length xs" for j using nth_iter_swap [OF im(2) i(1) that] by simp
  have hole1: "j < length xs \<Longrightarrow> 0 < j \<Longrightarrow> k \<le> par j \<Longrightarrow> par j \<noteq> i \<Longrightarrow>
      \<not> before (xs ! j) (xs ! par j)" for j
    using hole unfolding hole_down_def by blast
  have hole2: "0 < i \<Longrightarrow> k \<le> par i \<Longrightarrow> \<not> before (xs ! m) (xs ! par i)"
    using hole par_m im(2) unfolding hole_down_def by blast
  have first: "\<not> before (iter_swap xs m i ! j) (iter_swap xs m i ! par j)"
    if j: "j < length xs" "0 < j" "k \<le> par j" "par j \<noteq> m" for j
  proof -
    have pj: "par j < j" "par j < length xs"
      using par_less [OF j(2)] less_trans [OF par_less [OF j(2)] j(1)] by blast+
    consider "j = m" | "j \<noteq> m" "par j = i" | "j = i" | "j \<noteq> m" "j \<noteq> i" "par j \<noteq> i" by blast
    then show ?thesis
    proof cases
      case 1
      then show ?thesis using swap par_m im nth [OF j(1)] nth [OF i(1)] by auto
    next
      case 2
      then show ?thesis using best [OF j(1,2)] pj nth [OF j(1)] nth [OF i(1)] by auto
    next
      case 3
      then show ?thesis using hole2 j pj im nth [OF i(1)] nth [OF pj(2)] by auto
    next
      case 4
      then show ?thesis using hole1 j nth [OF j(1)] nth [OF pj(2)] by auto
    qed
  qed
  have second: "\<not> before (iter_swap xs m i ! j) (iter_swap xs m i ! par m)"
    if j: "j < length xs" "0 < j" "par j = m" for j
  proof -
    have "m < j" using par_less [OF j(2)] j(3) by simp
    then have "iter_swap xs m i ! j = xs ! j" "iter_swap xs m i ! par m = xs ! m"
      using im nth [OF j(1)] nth [OF i(1)] par_m(1) by auto
    then show ?thesis using hole1 [OF j(1,2)] j(3) i(2) im(1) by auto
  qed
  show ?thesis unfolding hole_down_def using first second by simp
qed

lemma hole_down_heap:
  assumes "hole_down before k i xs" and "\<And>j. j < length xs \<Longrightarrow> 0 < j \<Longrightarrow> par j = i \<Longrightarrow> \<not> before (xs ! j) (xs ! i)"
  shows "heap_from before k xs"
  using assms unfolding hole_down_def heap_from_def by metis

lemma sift_down_heap:
  "set xs \<subseteq> V \<Longrightarrow> i < length xs \<Longrightarrow> k \<le> i \<Longrightarrow> hole_down before k i xs \<Longrightarrow>
     heap_from before k (sift_down before (length xs) xs i)"
proof (induction "length xs - i" arbitrary: xs i rule: less_induct)
  case less
  let ?m = "min_child before (length xs) xs i"
  show ?case
  proof (cases "i * 2 + 1 \<ge> length xs \<or> ?m = i")
    case True
    then have "\<not> before (xs ! j) (xs ! i)" if "j < length xs" "0 < j" "par j = i" for j
    proof
      assume "length xs \<le> i * 2 + 1"
      with that show ?thesis by presburger
    next
      assume "?m = i"
      with min_child_best [OF less.prems(1,2) that] show ?thesis by simp
    qed
    then have "heap_from before k xs" by (rule hole_down_heap [OF less.prems(4)])
    with True show ?thesis by (subst sift_down.simps) (auto simp: Let_def)
  next
    case False
    then have m: "i < ?m" "?m < length xs"
      using min_child_cases [of before "length xs" xs i] by auto
    have "set (iter_swap xs ?m i) = set xs"
      using mset_iter_swap [OF m(2) less.prems(2)] by (rule mset_eq_setD)
    moreover have "hole_down before k ?m (iter_swap xs ?m i)"
      using less.prems False by (intro hole_down_step) auto
    ultimately have "heap_from before k (sift_down before (length xs) (iter_swap xs ?m i) ?m)"
      using less.hyps [of "iter_swap xs ?m i" ?m] less.prems(1,3) m by simp
    then show ?thesis using False by (subst sift_down.simps) (simp add: Let_def)
  qed
qed

lemma heap_from_hole:
  assumes "heap_from before (Suc i) xs" shows "hole_down before i i xs"
proof -
  have "\<not> i \<le> par i" if "0 < i" using that by presburger
  with assms show ?thesis
    unfolding heap_from_def hole_down_def by (metis Suc_leI le_neq_implies_less)
qed

lemma sift_all_heap:
  "set xs \<subseteq> V \<Longrightarrow> i \<le> length xs \<Longrightarrow> heap_from before i xs \<Longrightarrow>
     is_heap before (sift_all before (length xs) xs i)"
proof (induction i arbitrary: xs)
  case (Suc i)
  let ?ys = "sift_down before (length xs) xs i"
  have "heap_from before i ?ys"
    using Suc.prems heap_from_hole by (intro sift_down_heap) auto
  moreover have "set ?ys = set xs" using mset_sift_down [of "length xs" xs] by (metis order_refl set_mset_mset)
  ultimately show ?case using Suc.IH [of ?ys] Suc.prems by simp
qed simp

lemma make_heap_heap:
  assumes "set xs \<subseteq> V" shows "is_heap before (make_heap before xs)"
proof -
  have "\<not> length xs div 2 \<le> par j" if "j < length xs" "0 < j" for j
    using that by presburger
  then have "heap_from before (length xs div 2) xs" by (simp add: heap_from_def)
  then show ?thesis unfolding make_heap_def using assms by (intro sift_all_heap) auto
qed

lemma heap_root:
  assumes "is_heap before xs" and V: "set xs \<subseteq> V" and "j < length xs"
  shows "\<not> before (xs ! j) (xs ! 0)"
  using assms(3)
proof (induction j rule: less_induct)
  case (less j)
  show ?case
  proof (cases "j = 0")
    case True
    moreover have "xs ! j \<in> V" using V less.prems by auto
    ultimately show ?thesis using not_before_refl by simp
  next
    case False
    then have "par j < j" by (simp only: par_less neq0_conv)
    then have pj: "par j < j" "par j < length xs" using less_trans [OF _ less.prems] by blast+
    have "\<not> before (xs ! j) (xs ! par j)"
      using assms(1) less.prems False by (simp add: heap_from_def)
    moreover have "\<not> before (xs ! par j) (xs ! 0)" using less.IH pj by blast
    moreover have "k < length xs \<Longrightarrow> xs ! k \<in> V" for k using V by auto
    then have "xs ! j \<in> V" "xs ! par j \<in> V" "xs ! 0 \<in> V"
      using less.prems pj by (blast, blast, force)
    ultimately show ?thesis using neg_trans by blast
  qed
qed

lemma heap_root_changed:
  assumes "is_heap before xs" and "set ys \<subseteq> V" and "ys \<noteq> []" and "length ys \<le> length xs"
    and "\<And>j. 0 < j \<Longrightarrow> j < length ys \<Longrightarrow> ys ! j = xs ! j"
  shows "is_heap before (sift_down before (length ys) ys 0)"
proof -
  have "\<not> before (ys ! j) (ys ! par j)" if "j < length ys" "0 < j" "par j \<noteq> 0" for j
  proof -
    have "par j < length ys" using less_trans [OF par_less [OF that(2)] that(1)] .
    then show ?thesis using assms(1,4,5) that by (auto simp: heap_from_def)
  qed
  then have "hole_down before 0 0 ys" by (simp add: hole_down_def)
  then show ?thesis using assms(2,3) by (intro sift_down_heap) auto
qed

lemma hole_up_step:
  assumes V: "set xs \<subseteq> V" and i: "i < length xs" "0 < i" and hole: "hole_up before i xs"
    and b: "before (xs ! i) (xs ! par i)"
  shows "hole_up before (par i) (iter_swap xs i (par i))"
proof -
  have p: "par i < i" "par i < length xs"
    using par_less [OF i(2)] less_trans [OF par_less [OF i(2)] i(1)] by blast+
  have in_V: "j < length xs \<Longrightarrow> xs ! j \<in> V" for j using V by auto
  have hole1: "j < length xs \<Longrightarrow> 0 < j \<Longrightarrow> j \<noteq> i \<Longrightarrow> \<not> before (xs ! j) (xs ! par j)" for j
    using hole unfolding hole_up_def by blast
  have hole2: "j < length xs \<Longrightarrow> 0 < j \<Longrightarrow> par j = i \<Longrightarrow> \<not> before (xs ! j) (xs ! par i)" for j
    using hole i(2) unfolding hole_up_def by blast
  have swap: "\<not> before (xs ! par i) (xs ! i)" using asym b in_V i p by blast
  have nth: "iter_swap xs i (par i) ! j =
      (if j = par i then xs ! i else if j = i then xs ! par i else xs ! j)"
    if "j < length xs" for j using nth_iter_swap [OF i(1) p(2) that] by simp
  have sib: "\<not> before (xs ! j) (xs ! i)" if "j < length xs" "0 < j" "j \<noteq> i" "par j = par i" for j
    using neg_trans [OF in_V [OF that(1)] in_V [OF p(2)] in_V [OF i(1)]]
      hole1 [OF that(1-3)] swap that(4) by simp
  have first: "\<not> before (iter_swap xs i (par i) ! j) (iter_swap xs i (par i) ! par j)"
    if j: "j < length xs" "0 < j" "j \<noteq> par i" for j
  proof -
    have pj: "par j < j" "par j < length xs"
      using par_less [OF j(2)] less_trans [OF par_less [OF j(2)] j(1)] by blast+
    consider "j = i" | "j \<noteq> i" "par j = par i" | "j \<noteq> i" "par j = i" | "j \<noteq> i" "par j \<noteq> par i" "par j \<noteq> i"
      by blast
    then show ?thesis
    proof cases
      case 1
      then show ?thesis using swap p(1) nth [OF i(1)] nth [OF p(2)] by simp
    next
      case 2
      then show ?thesis using sib [OF j(1,2)] j(3) nth [OF j(1)] nth [OF p(2)] by simp
    next
      case 3
      then show ?thesis using hole2 [OF j(1,2)] j(3) p(1) nth [OF j(1)] nth [OF i(1)] by simp
    next
      case 4
      then show ?thesis using hole1 [OF j(1,2)] j(3) nth [OF j(1)] nth [OF pj(2)] by simp
    qed
  qed
  have second: "\<not> before (iter_swap xs i (par i) ! j) (iter_swap xs i (par i) ! par (par i))"
    if j: "j < length xs" "0 < j" "par j = par i" "0 < par i" for j
  proof -
    have pp: "par (par i) < par i" using j(4) by (rule par_less)
    then have pp2: "par (par i) < length xs" using p(2) by (rule less_trans)
    have top: "\<not> before (xs ! par i) (xs ! par (par i))" using hole1 [OF p(2) j(4)] p(1) by simp
    have "par i \<noteq> j" using pp j(3) by auto
    then have "iter_swap xs i (par i) ! j = (if j = i then xs ! par i else xs ! j)"
      and "iter_swap xs i (par i) ! par (par i) = xs ! par (par i)"
      using nth [OF j(1)] nth [OF pp2] pp p(1) by simp_all
    moreover have "\<not> before (xs ! j) (xs ! par (par i))" if "j \<noteq> i"
      using neg_trans [OF in_V [OF j(1)] in_V [OF p(2)] in_V [OF pp2]]
        hole1 [OF j(1,2) that] top j(3) by simp
    ultimately show ?thesis using top by simp
  qed
  show ?thesis unfolding hole_up_def using first second by simp
qed

lemma sift_up_heap:
  "set xs \<subseteq> V \<Longrightarrow> i < length xs \<Longrightarrow> hole_up before i xs \<Longrightarrow> is_heap before (sift_up before xs i)"
proof (induction i arbitrary: xs rule: less_induct)
  case (less i)
  show ?case
  proof (cases "0 < i \<and> before (xs ! i) (xs ! par i)")
    case True
    then have i: "0 < i" and b: "before (xs ! i) (xs ! par i)" by blast+
    have p1: "par i < i" using i by (rule par_less)
    then have p2: "par i < length xs" using less.prems(2) by (rule less_trans)
    have "set (iter_swap xs i (par i)) = set xs"
      using mset_iter_swap [OF less.prems(2) p2] by (rule mset_eq_setD)
    then have V: "set (iter_swap xs i (par i)) \<subseteq> V" using less.prems(1) by simp
    have hole: "hole_up before (par i) (iter_swap xs i (par i))"
      using less.prems(1,2) i less.prems(3) b by (rule hole_up_step)
    have "par i < length (iter_swap xs i (par i))" using p2 by simp
    from less.IH [OF p1 V this hole]
    have "is_heap before (sift_up before (iter_swap xs i (par i)) (par i))" .
    then show ?thesis unfolding sift_up_swap [of i before xs, OF i b] .
  next
    case False
    have "\<not> before (xs ! j) (xs ! par j)" if "j < length xs" "0 < j" for j
      using False less.prems(3) that unfolding hole_up_def by (cases "j = i") blast+
    then have "is_heap before xs" by (simp add: heap_from_def)
    with False show ?thesis by (subst sift_up.simps) (auto simp: Let_def)
  qed
qed

lemma heap_push:
  assumes "is_heap before xs" and "set xs \<subseteq> V" and "y \<in> V"
  shows "is_heap before (sift_up before (xs @ [y]) (length xs))"
proof -
  have par: "par j < length xs" if "j < length (xs @ [y])" "0 < j" for j
    using par_less [OF that(2)] that(1) by simp
  have "\<not> before ((xs @ [y]) ! j) ((xs @ [y]) ! par j)"
    if "j < length (xs @ [y])" "0 < j" "j \<noteq> length xs" for j
  proof -
    have j: "j < length xs" using that(1,3) by simp
    then have "\<not> before (xs ! j) (xs ! par j)"
      using assms(1) that(2) unfolding heap_from_def by blast
    then show ?thesis unfolding nth_append_left [OF j] nth_append_left [OF par [OF that(1,2)]] .
  qed
  moreover have "par j \<noteq> length xs" if "j < length (xs @ [y])" "0 < j" for j
    using par [OF that] by simp
  ultimately have "hole_up before (length xs) (xs @ [y])"
    unfolding hole_up_def by blast
  then show ?thesis using assms(2,3) by (intro sift_up_heap) auto
qed

end

end
