(* ===== verification/Sorter.thy ===== *)
theory Sorter
  imports RowCompare HeapSift Loops
begin

text \<open>
  The sorters behind ORDER BY: row batches (\<^verbatim>\<open>include/runtime/row_batch.h\<close>), the
  merging sorter (\<^verbatim>\<open>src/runtime/sorter.cpp\<close>), the bounded one for a LIMIT
  (\<^verbatim>\<open>src/runtime/topn_sorter.cpp\<close>) and the sort node that fills and drains them
  (\<^verbatim>\<open>src/exec/sort_node.cpp\<close>).  A sorter sees its rows only through the row
  comparer: \<^verbatim>\<open>cmp\<close> is \<^verbatim>\<open>MemRowCompare::compare\<close> and \<^verbatim>\<open>trivial\<close> its
  \<^verbatim>\<open>need_not_compare\<close>.  \<^verbatim>\<open>std::sort\<close> is a parameter, since the order it leaves
  equal rows in is not determined.  Reading a row at or behind the end of a batch
  is undefined in the code; the invariants show that it does not happen.
\<close>

section \<open>Row batches\<close>

record 'r row_batch =
  rows :: "'r list"
  idx :: nat
  capacity :: nat

definition batch_reset :: "'r row_batch \<Rightarrow> 'r row_batch" where
  "batch_reset b = b\<lparr>idx := 0\<rparr>"

definition is_full :: "'r row_batch \<Rightarrow> bool" where
  "is_full b \<longleftrightarrow> length (rows b) \<ge> capacity b"

definition is_traverse_over :: "'r row_batch \<Rightarrow> bool" where
  "is_traverse_over b \<longleftrightarrow> idx b \<ge> length (rows b)"

definition get_row :: "'r row_batch \<Rightarrow> 'r" where
  "get_row b = rows b ! idx b"

definition move_row :: "'r row_batch \<Rightarrow> 'r \<Rightarrow> 'r row_batch" where
  "move_row b r = b\<lparr>rows := rows b @ [r]\<rparr>"

definition batch_next :: "'r row_batch \<Rightarrow> 'r row_batch" where
  "batch_next b = b\<lparr>idx := idx b + 1\<rparr>"

definition batch_sort ::
  "(('r \<Rightarrow> 'r \<Rightarrow> bool) \<Rightarrow> 'r list \<Rightarrow> 'r list) \<Rightarrow> ('r \<Rightarrow> 'r \<Rightarrow> int) \<Rightarrow> 'r row_batch \<Rightarrow> 'r row_batch" where
  "batch_sort std_sort cmp b = b\<lparr>rows := std_sort (\<lambda>left right. cmp left right < 0) (rows b)\<rparr>"

definition batch_swap :: "'r row_batch \<Rightarrow> 'r row_batch \<Rightarrow> 'r row_batch \<times> 'r row_batch" where
  "batch_swap a b = (a\<lparr>rows := rows b\<rparr>, b\<lparr>rows := rows a\<rparr>)"

definition keep_first_rows :: "'r row_batch \<Rightarrow> int \<Rightarrow> 'r row_batch" where
  "keep_first_rows b num_keep_rows =
     (if num_keep_rows \<ge> int (length (rows b)) then b
      else if num_keep_rows \<le> 0 then b\<lparr>rows := []\<rparr>
      else b\<lparr>rows := take (nat num_keep_rows) (rows b)\<rparr>)"

section \<open>The merging sorter\<close>

record 'r sorter =
  min_heap :: "'r row_batch list"
  s_idx :: nat

definition batch_before :: "('r \<Rightarrow> 'r \<Rightarrow> int) \<Rightarrow> 'r row_batch \<Rightarrow> 'r row_batch \<Rightarrow> bool" where
  "batch_before cmp a b \<longleftrightarrow> cmp (get_row a) (get_row b) < 0"

definition shiftdown :: "('r \<Rightarrow> 'r \<Rightarrow> int) \<Rightarrow> 'r row_batch list \<Rightarrow> nat \<Rightarrow> 'r row_batch list" where
  "shiftdown cmp heap index = sift_down (batch_before cmp) (length heap) heap index"

definition add_batch :: "'r sorter \<Rightarrow> 'r row_batch \<Rightarrow> 'r sorter" where
  "add_batch s batch = s\<lparr>min_heap := min_heap s @ [batch_reset batch]\<rparr>"

definition multi_sort ::
  "(('r \<Rightarrow> 'r \<Rightarrow> bool) \<Rightarrow> 'r list \<Rightarrow> 'r list) \<Rightarrow> ('r \<Rightarrow> 'r \<Rightarrow> int) \<Rightarrow> 'r sorter \<Rightarrow> 'r sorter" where
  "multi_sort std_sort cmp s = s\<lparr>min_heap := map (batch_sort std_sort cmp) (min_heap s)\<rparr>"

definition sorter_make_heap :: "('r \<Rightarrow> 'r \<Rightarrow> int) \<Rightarrow> 'r sorter \<Rightarrow> 'r sorter" where
  "sorter_make_heap cmp s = s\<lparr>min_heap := make_heap (batch_before cmp) (min_heap s)\<rparr>"

definition sorter_sort ::
  "(('r \<Rightarrow> 'r \<Rightarrow> bool) \<Rightarrow> 'r list \<Rightarrow> 'r list) \<Rightarrow> ('r \<Rightarrow> 'r \<Rightarrow> int) \<Rightarrow> bool \<Rightarrow> 'r sorter \<Rightarrow> 'r sorter" where
  "sorter_sort std_sort cmp trivial s =
     (if trivial then s
      else if length (min_heap s) = 1
        then s\<lparr>min_heap := (min_heap s)[0 := batch_sort std_sort cmp (min_heap s ! 0)]\<rparr>
      else if length (min_heap s) > 1
        then sorter_make_heap cmp (multi_sort std_sort cmp s)
      else s)"

definition merge_sort :: "('r \<Rightarrow> 'r \<Rightarrow> int) \<Rightarrow> bool \<Rightarrow> 'r sorter \<Rightarrow> 'r sorter" where
  "merge_sort cmp trivial s =
     (if trivial then s
      else if length (min_heap s) > 1 then sorter_make_heap cmp s
      else s)"

text \<open>
  One round of the loop of \<^verbatim>\<open>Sorter::get_next\<close>: the first row of the first batch
  moves out, and the batch moves on or leaves the heap.
\<close>

definition pop_root :: "('r \<Rightarrow> 'r \<Rightarrow> int) \<Rightarrow> 'r row_batch list \<Rightarrow> 'r row_batch list" where
  "pop_root cmp heap =
     (let heap = heap[0 := batch_next (heap ! 0)] in
      if is_traverse_over (heap ! 0)
      then let heap = butlast (iter_swap heap 0 (length heap - 1)) in
        if heap \<noteq> [] then shiftdown cmp heap 0 else heap
      else shiftdown cmp heap 0)"

definition get_next_step ::
  "('r \<Rightarrow> 'r \<Rightarrow> int) \<Rightarrow> 'r row_batch list \<times> 'r row_batch \<Rightarrow>
     'r row_batch list \<times> 'r row_batch + 'r row_batch list \<times> 'r row_batch \<times> bool" where
  "get_next_step cmp = (\<lambda>(heap, batch).
     if is_full batch then Inr (heap, batch, False)
     else if heap = [] then Inr (heap, batch, True)
     else Inl (pop_root cmp heap, move_row batch (get_row (heap ! 0))))"

definition sorter_get_next ::
  "('r \<Rightarrow> 'r \<Rightarrow> int) \<Rightarrow> bool \<Rightarrow> 'r sorter \<Rightarrow> 'r row_batch \<Rightarrow> bool
     \<Rightarrow> ('r sorter \<times> 'r row_batch \<times> bool) option" where
  "sorter_get_next cmp trivial s batch eos =
     (if length (min_heap s) = 0 then Some (s, batch, True)
      else if trivial then
        (if s_idx s < length (min_heap s)
         then let (batch', other) = batch_swap batch (min_heap s ! s_idx s) in
           Some (s\<lparr>min_heap := (min_heap s)[s_idx s := other], s_idx := s_idx s + 1\<rparr>, batch',
                 if s_idx s = length (min_heap s) - 1 then True else eos)
         else None)
      else map_option (\<lambda>(heap, batch, e). (s\<lparr>min_heap := heap\<rparr>, batch, e \<or> eos))
        (run_loop (get_next_step cmp) (min_heap s, batch)))"

section \<open>The bounded sorter\<close>

record 'r topn =
  mem_row_heap :: "('r \<times> int) list"
  limit :: int
  current_count :: int
  current_idx :: int

definition item_before :: "('r \<Rightarrow> 'r \<Rightarrow> int) \<Rightarrow> 'r \<times> int \<Rightarrow> 'r \<times> int \<Rightarrow> bool" where
  "item_before cmp a b \<longleftrightarrow> cmp (fst a) (fst b) > 0"

definition topn_shiftdown :: "('r \<Rightarrow> 'r \<Rightarrow> int) \<Rightarrow> 'r topn \<Rightarrow> nat \<Rightarrow> 'r topn" where
  "topn_shiftdown cmp t index =
     t\<lparr>mem_row_heap := sift_down (item_before cmp) (nat (current_count t)) (mem_row_heap t) index\<rparr>"

definition topn_shiftup :: "('r \<Rightarrow> 'r \<Rightarrow> int) \<Rightarrow> 'r topn \<Rightarrow> nat \<Rightarrow> 'r topn" where
  "topn_shiftup cmp t index = t\<lparr>mem_row_heap := sift_up (item_before cmp) (mem_row_heap t) index\<rparr>"

text \<open>One row of a batch; the root of an empty heap is read when the limit is not positive.\<close>

definition topn_add_row :: "('r \<Rightarrow> 'r \<Rightarrow> int) \<Rightarrow> bool \<Rightarrow> 'r topn \<Rightarrow> 'r \<Rightarrow> 'r topn option" where
  "topn_add_row cmp trivial t row =
     (let t = t\<lparr>current_idx := current_idx t + 1\<rparr> in
      if current_count t < limit t
      then let t = t\<lparr>mem_row_heap := mem_row_heap t @ [(row, current_idx t)],
                     current_count := current_count t + 1\<rparr> in
        Some (if \<not> trivial then topn_shiftup cmp t (nat (current_count t - 1)) else t)
      else if \<not> trivial
      then (if mem_row_heap t = [] then None
            else if cmp row (fst (mem_row_heap t ! 0)) < 0
            then Some (topn_shiftdown cmp
              (t\<lparr>mem_row_heap := (mem_row_heap t)[0 := (row, current_idx t)]\<rparr>) 0)
            else Some t)
      else Some t)"

fun topn_add_rows :: "('r \<Rightarrow> 'r \<Rightarrow> int) \<Rightarrow> bool \<Rightarrow> 'r topn \<Rightarrow> 'r list \<Rightarrow> 'r topn option" where
  "topn_add_rows cmp trivial t [] = Some t"
| "topn_add_rows cmp trivial t (r # rs) =
     (case topn_add_row cmp trivial t r of
        None \<Rightarrow> None
      | Some t \<Rightarrow> topn_add_rows cmp trivial t rs)"

definition topn_add_batch ::
  "('r \<Rightarrow> 'r \<Rightarrow> int) \<Rightarrow> bool \<Rightarrow> 'r topn \<Rightarrow> 'r row_batch \<Rightarrow> 'r topn option" where
  "topn_add_batch cmp trivial t batch = topn_add_rows cmp trivial t (drop (idx batch) (rows batch))"

definition item_less :: "('r \<Rightarrow> 'r \<Rightarrow> int) \<Rightarrow> 'r \<times> int \<Rightarrow> 'r \<times> int \<Rightarrow> bool" where
  "item_less cmp left right =
     (let comp = cmp (fst left) (fst right) in
      if comp < 0 then True
      else if comp = 0 \<and> snd left < snd right then True
      else False)"

definition topn_sort ::
  "(('r \<times> int \<Rightarrow> 'r \<times> int \<Rightarrow> bool) \<Rightarrow> ('r \<times> int) list \<Rightarrow> ('r \<times> int) list)
     \<Rightarrow> ('r \<Rightarrow> 'r \<Rightarrow> int) \<Rightarrow> bool \<Rightarrow> 'r topn \<Rightarrow> 'r topn" where
  "topn_sort std_sort cmp trivial t =
     (let t = t\<lparr>current_idx := 0\<rparr> in
      if trivial then t
      else t\<lparr>mem_row_heap := std_sort (item_less cmp) (mem_row_heap t)\<rparr>)"

function topn_get_next :: "'r topn \<Rightarrow> 'r row_batch \<Rightarrow> bool \<Rightarrow> 'r topn \<times> 'r row_batch \<times> bool" where
  "topn_get_next t batch eos =
     (if is_full batch then (t, batch, eos)
      else if current_idx t \<ge> int (length (mem_row_heap t)) then (t, batch, True)
      else topn_get_next (t\<lparr>current_idx := current_idx t + 1\<rparr>)
        (move_row batch (fst (mem_row_heap t ! nat (current_idx t)))) eos)"
  by pat_completeness auto
termination
  by (relation "measure (\<lambda>(t, batch, eos). nat (int (length (mem_row_heap t)) - current_idx t))")
    auto

declare topn_get_next.simps [simp del]

section \<open>The sort node\<close>

datatype 'r any_sorter = Merging "'r sorter" | Bounded "'r topn"

record 'r sort_node =
  node_sorter :: "'r any_sorter"
  node_limit :: int
  num_rows_returned :: int

text \<open>What the sorters need from outside: the comparer and the two instances of \<^verbatim>\<open>std::sort\<close>.\<close>

record 'r sort_env =
  env_cmp :: "'r \<Rightarrow> 'r \<Rightarrow> int"
  env_trivial :: bool
  sort_rows :: "('r \<Rightarrow> 'r \<Rightarrow> bool) \<Rightarrow> 'r list \<Rightarrow> 'r list"
  sort_items :: "('r \<times> int \<Rightarrow> 'r \<times> int \<Rightarrow> bool) \<Rightarrow> ('r \<times> int) list \<Rightarrow> ('r \<times> int) list"

fun any_add_batch :: "'r sort_env \<Rightarrow> 'r any_sorter \<Rightarrow> 'r row_batch \<Rightarrow> 'r any_sorter option" where
  "any_add_batch E (Merging s) batch = Some (Merging (add_batch s batch))"
| "any_add_batch E (Bounded t) batch =
     map_option Bounded (topn_add_batch (env_cmp E) (env_trivial E) t batch)"

fun any_sort :: "'r sort_env \<Rightarrow> 'r any_sorter \<Rightarrow> 'r any_sorter" where
  "any_sort E (Merging s) = Merging (sorter_sort (sort_rows E) (env_cmp E) (env_trivial E) s)"
| "any_sort E (Bounded t) = Bounded (topn_sort (sort_items E) (env_cmp E) (env_trivial E) t)"

fun any_get_next ::
  "'r sort_env \<Rightarrow> 'r any_sorter \<Rightarrow> 'r row_batch \<Rightarrow> bool
     \<Rightarrow> ('r any_sorter \<times> 'r row_batch \<times> bool) option" where
  "any_get_next E (Merging s) batch eos =
     map_option (\<lambda>(s, batch, eos). (Merging s, batch, eos))
       (sorter_get_next (env_cmp E) (env_trivial E) s batch eos)"
| "any_get_next E (Bounded t) batch eos =
     (let (t, batch, eos) = topn_get_next t batch eos in Some (Bounded t, batch, eos))"

text \<open>
  \<^verbatim>\<open>SortNode::open\<close>: \<^verbatim>\<open>child\<close> is the sequence of batches the child returns up
  to its end; an empty batch stops the reading.
\<close>

fun fill_sorter :: "'r sort_env \<Rightarrow> 'r any_sorter \<Rightarrow> 'r row_batch list \<Rightarrow> 'r any_sorter option" where
  "fill_sorter E s [] = Some s"
| "fill_sorter E s (batch # child) =
     (if length (rows batch) = 0 then Some s
      else case any_add_batch E s batch of
        None \<Rightarrow> None
      | Some s \<Rightarrow> fill_sorter E s child)"

definition new_sorter :: "int \<Rightarrow> 'r any_sorter" where
  "new_sorter lim =
     (if lim = -1 then Merging \<lparr>min_heap = [], s_idx = 0\<rparr>
      else Bounded \<lparr>mem_row_heap = [], limit = lim, current_count = 0, current_idx = 0\<rparr>)"

definition sort_node_open :: "'r sort_env \<Rightarrow> int \<Rightarrow> 'r row_batch list \<Rightarrow> 'r sort_node option" where
  "sort_node_open E lim child =
     map_option (\<lambda>s. \<lparr>node_sorter = any_sort E s, node_limit = lim, num_rows_returned = 0\<rparr>)
       (fill_sorter E (new_sorter lim) child)"

definition reached_limit :: "'r sort_node \<Rightarrow> bool" where
  "reached_limit n \<longleftrightarrow> node_limit n \<noteq> -1 \<and> num_rows_returned n \<ge> node_limit n"

definition sort_node_get_next ::
  "'r sort_env \<Rightarrow> 'r sort_node \<Rightarrow> 'r row_batch \<Rightarrow> bool
     \<Rightarrow> ('r sort_node \<times> 'r row_batch \<times> bool) option" where
  "sort_node_get_next E n batch eos =
     (if reached_limit n then Some (n, batch, True)
      else case any_get_next E (node_sorter n) batch eos of
        None \<Rightarrow> None
      | Some (s, batch, eos) \<Rightarrow>
          let n = n\<lparr>node_sorter := s,
                    num_rows_returned := num_rows_returned n + int (length (rows batch))\<rparr> in
          if reached_limit n
          then Some (n\<lparr>num_rows_returned := node_limit n\<rparr>,
                     keep_first_rows batch
                       (int (length (rows batch)) - (num_rows_returned n - node_limit n)), True)
          else Some (n, batch, eos))"

text \<open>
  The node above asks with a fresh batch of capacity \<^verbatim>\<open>cap\<close> until the end; the
  answer is the sequence of batches, and a failed read is \<^verbatim>\<open>Inr None\<close>.
\<close>

definition drain_step ::
  "'r sort_env \<Rightarrow> nat \<Rightarrow> 'r sort_node \<times> 'r list list
     \<Rightarrow> 'r sort_node \<times> 'r list list + 'r list list option" where
  "drain_step E cap = (\<lambda>(n, out).
     case sort_node_get_next E n \<lparr>rows = [], idx = 0, capacity = cap\<rparr> False of
       None \<Rightarrow> Inr None
     | Some (n, batch, eos) \<Rightarrow>
         if eos then Inr (Some (out @ [rows batch])) else Inl (n, out @ [rows batch]))"

definition sort_node_run ::
  "'r sort_env \<Rightarrow> int \<Rightarrow> nat \<Rightarrow> 'r row_batch list \<Rightarrow> 'r list list option option" where
  "sort_node_run E lim cap child =
     (case sort_node_open E lim child of
        None \<Rightarrow> Some None
      | Some n \<Rightarrow> run_loop (drain_step E cap) (n, []))"

end
