(* ===== verification/SorterProperties.thy ===== *)
theory SorterProperties
  imports Sorter
begin

text \<open>
  The sorters deliver the order of the row comparer.  For the merging sorter the
  invariant is a heap of sorted batches, each with a row left; for the bounded
  sorter a heap of the least rows so far, its root the greatest of them.  Both
  rest on the locale \<^verbatim>\<open>heap_order\<close>, which every \<^verbatim>\<open>row_order\<close> gives twice.
\<close>

definition pending :: "'r row_batch \<Rightarrow> 'r list" where
  "pending b = drop (idx b) (rows b)"

definition pend_mset :: "'r row_batch list \<Rightarrow> 'r multiset" where
  "pend_mset heap = sum_mset (image_mset (\<lambda>b. mset (pending b)) (mset heap))"

lemma pending_Cons:
  "\<not> is_traverse_over b \<Longrightarrow> pending b = get_row b # pending (batch_next b)"
  by (simp add: pending_def is_traverse_over_def get_row_def batch_next_def Cons_nth_drop_Suc)

lemma pending_over: "is_traverse_over b \<longleftrightarrow> pending b = []"
  by (simp add: pending_def is_traverse_over_def)

lemma pend_mset_simps [simp]:
  "pend_mset [] = {#}" "pend_mset (b # heap) = mset (pending b) + pend_mset heap"
  by (simp_all add: pend_mset_def)

lemma in_pend_mset: "y \<in># pend_mset heap \<longleftrightarrow> (\<exists>b \<in> set heap. y \<in> set (pending b))"
  by (induction heap) auto

lemma butlast_swap_mset:
  assumes "heap \<noteq> []"
  shows "mset heap = add_mset (heap ! 0) (mset (butlast (iter_swap heap 0 (length heap - 1))))"
proof -
  let ?ys = "iter_swap heap 0 (length heap - 1)"
  have len: "0 < length heap" "length heap - 1 < length heap" using assms by auto
  have ne: "?ys \<noteq> []" using assms by (metis length_0_conv length_iter_swap)
  then have "?ys = butlast ?ys @ [?ys ! (length ?ys - 1)]"
    by (metis append_butlast_last_id last_conv_nth)
  moreover have "?ys ! (length ?ys - 1) = heap ! 0"
    using nth_iter_swap [OF len len(2)] by simp
  ultimately have "mset ?ys = add_mset (heap ! 0) (mset (butlast ?ys))"
    by (metis add.right_neutral add_mset_add_single mset.simps(1) mset.simps(2) mset_append
        union_commute)
  then show ?thesis using mset_iter_swap [OF len] by simp
qed

lemma butlast_swap_nth:
  assumes "0 < j" and "j < length (butlast (iter_swap heap 0 (length heap - 1)))"
  shows "butlast (iter_swap heap 0 (length heap - 1)) ! j = heap ! j"
proof -
  have j: "j < length heap - 1" using assms by simp
  then have "0 < length heap" "length heap - 1 < length heap" "j < length heap" by auto
  from nth_iter_swap [OF this] j assms show ?thesis by (simp add: nth_butlast)
qed

section \<open>The rows of the batches\<close>

text \<open>Draining a sort node, with the rows of the batches in one list.\<close>

definition flat_step ::
  "'r sort_env \<Rightarrow> nat \<Rightarrow> 'r sort_node \<times> 'r list \<Rightarrow> 'r sort_node \<times> 'r list + 'r list option" where
  "flat_step E cap = (\<lambda>(n, out).
     case sort_node_get_next E n \<lparr>rows = [], idx = 0, capacity = cap\<rparr> False of
       None \<Rightarrow> Inr None
     | Some (n, batch, eos) \<Rightarrow>
         if eos then Inr (Some (out @ rows batch)) else Inl (n, out @ rows batch))"

lemma flat_run:
  "run_loop (flat_step E cap) (n, []) = map_option (map_option concat) (run_loop (drain_step E cap) (n, []))"
proof -
  have "flat_step E cap (apsnd concat s) =
      map_sum (apsnd concat) (map_option concat) (drain_step E cap s)" for s
    by (cases s) (auto simp: flat_step_def drain_step_def split: option.splits)
  from run_loop_map [of "flat_step E cap" "apsnd concat" "map_option concat" "drain_step E cap" "(n, [])", OF this]
  show ?thesis by simp
qed

section \<open>What the library sort promises\<close>

definition strict_weak_order :: "('a \<Rightarrow> 'a \<Rightarrow> bool) \<Rightarrow> 'a set \<Rightarrow> bool" where
  "strict_weak_order lt A \<longleftrightarrow>
     (\<forall>x \<in> A. \<forall>y \<in> A. lt x y \<longrightarrow> \<not> lt y x) \<and>
     (\<forall>x \<in> A. \<forall>y \<in> A. \<forall>z \<in> A. \<not> lt x y \<longrightarrow> \<not> lt y z \<longrightarrow> \<not> lt x z)"

lemma swo_asym: "strict_weak_order lt A \<Longrightarrow> x \<in> A \<Longrightarrow> y \<in> A \<Longrightarrow> lt x y \<Longrightarrow> \<not> lt y x"
  unfolding strict_weak_order_def by blast

lemma swo_neg_trans:
  "strict_weak_order lt A \<Longrightarrow> x \<in> A \<Longrightarrow> y \<in> A \<Longrightarrow> z \<in> A \<Longrightarrow> \<not> lt x y \<Longrightarrow> \<not> lt y z \<Longrightarrow> \<not> lt x z"
  unfolding strict_weak_order_def by blast

lemma swo_subset: "strict_weak_order lt A \<Longrightarrow> B \<subseteq> A \<Longrightarrow> strict_weak_order lt B"
  unfolding strict_weak_order_def by (meson subsetD)

text \<open>
  \<^verbatim>\<open>std::sort\<close>: under a strict weak order it permutes the range so that no
  element is before an earlier one.
\<close>

definition std_sort_spec :: "(('a \<Rightarrow> 'a \<Rightarrow> bool) \<Rightarrow> 'a list \<Rightarrow> 'a list) \<Rightarrow> bool" where
  "std_sort_spec srt \<longleftrightarrow> (\<forall>lt xs. strict_weak_order lt (set xs) \<longrightarrow>
     mset (srt lt xs) = mset xs \<and> sorted_wrt (\<lambda>a b. \<not> lt b a) (srt lt xs))"

fun insert_by :: "('a \<Rightarrow> 'a \<Rightarrow> bool) \<Rightarrow> 'a \<Rightarrow> 'a list \<Rightarrow> 'a list" where
  "insert_by lt x [] = [x]"
| "insert_by lt x (y # ys) = (if lt y x then y # insert_by lt x ys else x # y # ys)"

definition insertion_sort :: "('a \<Rightarrow> 'a \<Rightarrow> bool) \<Rightarrow> 'a list \<Rightarrow> 'a list" where
  "insertion_sort lt xs = foldr (insert_by lt) xs []"

lemma mset_insert_by [simp]: "mset (insert_by lt x ys) = add_mset x (mset ys)"
  by (induction ys) auto

lemma mset_insertion_sort [simp]: "mset (insertion_sort lt xs) = mset xs"
  by (induction xs) (simp_all add: insertion_sort_def)

lemma sorted_insert_by:
  assumes "strict_weak_order lt (insert x (set ys))" and "sorted_wrt (\<lambda>a b. \<not> lt b a) ys"
  shows "sorted_wrt (\<lambda>a b. \<not> lt b a) (insert_by lt x ys)"
  using assms
proof (induction ys)
  case (Cons y ys)
  have swo: "strict_weak_order lt (insert x (set ys))"
    using Cons.prems(1) by (rule swo_subset) auto
  have set_ins: "set (insert_by lt x ys) = insert x (set ys)"
    using mset_insert_by [of lt x ys] by (metis set_mset_add_mset_insert set_mset_mset)
  show ?case
  proof (cases "lt y x")
    case True
    then have "\<not> lt x y" using swo_asym [OF Cons.prems(1), of y x] by simp
    with True show ?thesis using Cons.IH [OF swo] Cons.prems(2) set_ins by auto
  next
    case False
    have "\<not> lt z x" if "z \<in> set ys" for z
    proof -
      have "\<not> lt z y" using Cons.prems(2) that by simp
      with False show ?thesis using swo_neg_trans [OF Cons.prems(1), of z y x] that by simp
    qed
    with False show ?thesis using Cons.prems(2) by simp
  qed
qed simp

lemma insertion_sort_spec: "std_sort_spec insertion_sort"
  unfolding std_sort_spec_def
proof (intro allI impI)
  fix lt :: "'a \<Rightarrow> 'a \<Rightarrow> bool" and xs
  assume "strict_weak_order lt (set xs)"
  then show "mset (insertion_sort lt xs) = mset xs \<and>
      sorted_wrt (\<lambda>a b. \<not> lt b a) (insertion_sort lt xs)"
  proof (induction xs)
    case (Cons x xs)
    have "strict_weak_order lt (set xs)"
      using Cons.prems by (rule swo_subset) auto
    note IH = Cons.IH [OF this]
    have "set (insertion_sort lt xs) = set xs" by (rule mset_eq_setD) simp
    then show ?case
      using IH sorted_insert_by [of lt x "insertion_sort lt xs"] Cons.prems
      by (simp add: insertion_sort_def)
  qed (simp add: insertion_sort_def)
qed

section \<open>The merging sorter\<close>

context row_order
begin

abbreviation le :: "'r \<Rightarrow> 'r \<Rightarrow> bool" where
  "le x y \<equiv> cmp x y \<le> 0"

definition BV :: "'r row_batch set" where
  "BV = {b. pending b \<noteq> [] \<and> set (pending b) \<subseteq> V}"

definition IV :: "('r \<times> int) set" where
  "IV = {i. fst i \<in> V}"

lemma BV_row: "b \<in> BV \<Longrightarrow> get_row b \<in> V"
  using pending_Cons [of b] by (auto simp: BV_def pending_over)

end

sublocale row_order \<subseteq> batches: heap_order "batch_before cmp" BV
proof
  fix x y assume "x \<in> BV" "y \<in> BV" "batch_before cmp x y"
  then show "\<not> batch_before cmp y x"
    using cmp_anti [OF BV_row BV_row, of x y] by (simp add: batch_before_def)
next
  fix x y z assume xyz: "x \<in> BV" "y \<in> BV" "z \<in> BV"
    and "\<not> batch_before cmp x y" "\<not> batch_before cmp y z"
  then have "le (get_row y) (get_row x)" "le (get_row z) (get_row y)"
    using cmp_le_iff [OF BV_row BV_row] by (simp_all add: batch_before_def)
  then have "le (get_row z) (get_row x)"
    using cmp_trans [OF xyz(3,2,1) [THEN BV_row]] by blast
  then show "\<not> batch_before cmp x z"
    using cmp_le_iff [OF BV_row BV_row, of z x] xyz by (simp add: batch_before_def)
qed

sublocale row_order \<subseteq> items: heap_order "item_before cmp" IV
proof
  fix x y assume "x \<in> IV" "y \<in> IV" "item_before cmp x y"
  then show "\<not> item_before cmp y x"
    using cmp_anti [of "fst y" "fst x"] by (auto simp: item_before_def IV_def)
next
  fix x y z assume xyz: "x \<in> IV" "y \<in> IV" "z \<in> IV"
    and "\<not> item_before cmp x y" "\<not> item_before cmp y z"
  then show "\<not> item_before cmp x z"
    using cmp_trans [of "fst x" "fst y" "fst z"] by (auto simp: item_before_def IV_def)
qed

context row_order
begin

definition heap_inv :: "'r row_batch list \<Rightarrow> bool" where
  "heap_inv heap \<longleftrightarrow> is_heap (batch_before cmp) heap \<and> set heap \<subseteq> BV \<and>
     (\<forall>b \<in> set heap. sorted_wrt le (pending b))"

lemma heap_inv_least:
  assumes "heap_inv heap" and "heap \<noteq> []" and "y \<in># pend_mset heap"
  shows "le (get_row (heap ! 0)) y"
proof -
  from assms(3) obtain j where j: "j < length heap" "y \<in> set (pending (heap ! j))"
    unfolding in_pend_mset by (metis in_set_conv_nth)
  have BV: "heap ! j \<in> BV" "heap ! 0 \<in> BV" and sorted: "sorted_wrt le (pending (heap ! j))"
    using assms(1,2) j(1) by (auto simp: heap_inv_def)
  have row: "le (get_row (heap ! 0)) (get_row (heap ! j))"
    using batches.heap_root [of heap j] assms(1) j(1) cmp_le_iff [OF BV_row [OF BV(2)] BV_row [OF BV(1)]]
    by (simp add: heap_inv_def batch_before_def)
  have "le (get_row (heap ! j)) y"
    using j(2) sorted pending_Cons [of "heap ! j"] BV(1) cmp_refl [OF BV_row [OF BV(1)]]
    by (auto simp: BV_def pending_over)
  moreover have "y \<in> V" using BV(1) j(2) by (auto simp: BV_def)
  ultimately show ?thesis using row cmp_trans BV_row [OF BV(1)] BV_row [OF BV(2)] by blast
qed

text \<open>Taking the root: the row is a least one, and the rest is a heap again.\<close>

lemma pop_root_inv:
  assumes inv: "heap_inv heap" and ne: "heap \<noteq> []"
  shows "heap_inv (pop_root cmp heap)"
    and "pend_mset heap = add_mset (get_row (heap ! 0)) (pend_mset (pop_root cmp heap))"
proof -
  let ?b = "heap ! 0" and ?h = "heap[0 := batch_next (heap ! 0)]"
  obtain rest where heap: "heap = ?b # rest" using ne by (cases heap) auto
  then have h: "?h = batch_next ?b # rest" by (metis list_update_code(2))
  have BV: "set heap \<subseteq> BV" and heap_ok: "is_heap (batch_before cmp) heap"
    and sorted: "b \<in> set heap \<Longrightarrow> sorted_wrt le (pending b)" for b
    using inv by (auto simp: heap_inv_def)
  have b: "?b \<in> BV" using BV heap by (metis list.set_intros(1) subsetD)
  have pend: "pending ?b = get_row ?b # pending (batch_next ?b)"
    using pending_Cons [of ?b] b by (simp add: BV_def pending_over)
  have len: "length ?h = length heap" by simp
  have total: "pend_mset heap = add_mset (get_row ?b) (mset (pending (batch_next ?b)) + pend_mset rest)"
    using pend_mset_simps(2) [of ?b rest] pend heap by simp
  have rest_ok: "set rest \<subseteq> BV" "\<And>b. b \<in> set rest \<Longrightarrow> sorted_wrt le (pending b)"
    using BV sorted heap by (metis list.set_intros(2) subset_code(1))+
  define ys where "ys = (if is_traverse_over (batch_next ?b)
    then butlast (iter_swap ?h 0 (length ?h - 1)) else ?h)"
  have pop: "pop_root cmp heap = (if ys \<noteq> [] then shiftdown cmp ys 0 else ys)"
    using h by (auto simp: pop_root_def ys_def Let_def)
  have ys: "mset ys = (if is_traverse_over (batch_next ?b) then mset rest
      else add_mset (batch_next ?b) (mset rest))"
    using butlast_swap_mset [of ?h] h by (auto simp: ys_def)
  have mset_pop: "mset (pop_root cmp heap) = mset ys"
    by (simp add: pop shiftdown_def mset_sift_down)
  then have "pend_mset (pop_root cmp heap) = pend_mset ys" by (simp add: pend_mset_def)
  also have "\<dots> = mset (pending (batch_next ?b)) + pend_mset rest"
    by (simp add: pend_mset_def ys pending_over)
  finally show "pend_mset heap = add_mset (get_row ?b) (pend_mset (pop_root cmp heap))"
    using total by simp
  have next_ok: "set (pending (batch_next ?b)) \<subseteq> V" "sorted_wrt le (pending (batch_next ?b))"
    using b pend sorted [of ?b] heap
    by (auto simp: BV_def) (metis list.set_intros(1) sorted_wrt.simps(2))
  have set_ys: "set ys = (if is_traverse_over (batch_next ?b) then set rest
      else insert (batch_next ?b) (set rest))"
    using ys by (metis (full_types) set_mset_add_mset_insert set_mset_mset)
  then have ys_ok: "set ys \<subseteq> BV" "\<And>b. b \<in> set ys \<Longrightarrow> sorted_wrt le (pending b)"
    using rest_ok next_ok by (auto simp: BV_def pending_over split: if_splits)
  have "is_heap (batch_before cmp) (pop_root cmp heap)"
  proof (cases "ys = []")
    case True
    then show ?thesis by (simp add: pop heap_from_def)
  next
    case False
    have "length ys \<le> length heap" by (simp add: ys_def)
    moreover have "ys ! j = heap ! j" if "0 < j" "j < length ys" for j
      using butlast_swap_nth [of j ?h] that by (auto simp: ys_def split: if_splits)
    ultimately show ?thesis
      using batches.heap_root_changed [OF heap_ok ys_ok(1) False] False by (simp add: pop shiftdown_def)
  qed
  moreover have "set (pop_root cmp heap) = set ys" using mset_pop by (rule mset_eq_setD)
  ultimately show "heap_inv (pop_root cmp heap)" using ys_ok by (simp add: heap_inv_def)
qed

text \<open>
  \<^verbatim>\<open>merged heap out heap'\<close>: the rows \<^verbatim>\<open>out\<close> have left the heap in order, before
  every row still in it.
\<close>

definition merged :: "'r row_batch list \<Rightarrow> 'r list \<Rightarrow> 'r row_batch list \<Rightarrow> bool" where
  "merged heap out heap' \<longleftrightarrow> heap_inv heap' \<and> pend_mset heap = mset out + pend_mset heap' \<and>
     sorted_wrt le out \<and> (\<forall>x \<in> set out. \<forall>y \<in># pend_mset heap'. le x y)"

lemma merged_start: "heap_inv heap \<Longrightarrow> merged heap [] heap"
  by (simp add: merged_def)

lemma merged_step:
  assumes "merged heap out heap'" and "heap' \<noteq> []"
  shows "merged heap (out @ [get_row (heap' ! 0)]) (pop_root cmp heap')"
proof -
  have inv: "heap_inv heap'" using assms(1) by (simp add: merged_def)
  note pop = pop_root_inv [OF inv assms(2)]
  have "\<forall>y \<in># pend_mset (pop_root cmp heap'). le (get_row (heap' ! 0)) y"
    using heap_inv_least [OF inv assms(2)] pop(2) by auto
  then show ?thesis using assms(1) pop by (auto simp: merged_def sorted_wrt_append)
qed

lemma merged_trans:
  assumes "merged heap out heap'" and "merged heap' out' heap''"
  shows "merged heap (out @ out') heap''"
  using assms by (auto simp: merged_def sorted_wrt_append)

lemma get_next_loop:
  assumes "heap_inv heap"
  shows "\<exists>heap' batch' eos. run_loop (get_next_step cmp) (heap, batch) = Some (heap', batch', eos) \<and>
    (\<exists>out. rows batch' = rows batch @ out \<and> merged heap out heap') \<and>
    capacity batch' = capacity batch \<and> (if eos then heap' = [] else is_full batch')"
proof -
  define I where "I = (\<lambda>(h, b :: 'r row_batch). \<exists>out. rows b = rows batch @ out \<and> merged heap out h \<and>
    capacity b = capacity batch)"
  define post where "post = (\<lambda>(h, b :: 'r row_batch, eos). (\<exists>out. rows b = rows batch @ out \<and> merged heap out h) \<and>
    capacity b = capacity batch \<and> (if eos then h = [] else is_full b))"
  let ?R = "measure (\<lambda>(h :: 'r row_batch list, b :: 'r row_batch). size (pend_mset h))"
  have "\<exists>r. run_loop (get_next_step cmp) (heap, batch) = Some r \<and> post r"
  proof (rule run_loop_rule [where I = I and R = ?R])
    show "I (heap, batch)" using merged_start [OF assms] by (simp add: I_def)
  next
    fix s s' assume I: "I s" and step: "get_next_step cmp s = Inl s'"
    obtain h b where s: "s = (h, b)" by (cases s)
    from I s obtain out where out: "rows b = rows batch @ out" "merged heap out h" "capacity b = capacity batch"
      by (auto simp: I_def)
    from step s have h: "h \<noteq> []" and s': "s' = (pop_root cmp h, move_row b (get_row (h ! 0)))"
      by (auto simp: get_next_step_def split: if_splits)
    have inv: "heap_inv h" using out(2) by (simp add: merged_def)
    have "I s'"
      using merged_step [OF out(2) h] out by (auto simp: I_def s' move_row_def)
    moreover have "(s', s) \<in> ?R" using pop_root_inv(2) [OF inv h] by (simp add: s s')
    ultimately show "I s' \<and> (s', s) \<in> ?R" ..
  next
    fix s r assume "I s" and "get_next_step cmp s = Inr r"
    then show "post r"
      by (auto simp: I_def post_def get_next_step_def split: if_splits prod.splits)
  qed simp
  then show ?thesis by (auto simp: post_def)
qed

subsection \<open>Sorting the batches\<close>

lemma cmp_strict_weak: "A \<subseteq> V \<Longrightarrow> strict_weak_order (\<lambda>x y. cmp x y < 0) A"
  unfolding strict_weak_order_def
proof (intro conjI ballI impI)
  fix x y assume "A \<subseteq> V" "x \<in> A" "y \<in> A" "cmp x y < 0"
  then show "\<not> cmp y x < 0" using cmp_anti [of x y] by (simp add: subset_iff)
next
  fix x y z assume A: "A \<subseteq> V" "x \<in> A" "y \<in> A" "z \<in> A" "\<not> cmp x y < 0" "\<not> cmp y z < 0"
  then have "x \<in> V" "y \<in> V" "z \<in> V" by blast+
  with A show "\<not> cmp x z < 0" using cmp_le_iff cmp_trans [of z y x] by simp
qed

lemma std_sort_le:
  assumes "std_sort_spec srt" and "set xs \<subseteq> V"
  shows "mset (srt (\<lambda>x y. cmp x y < 0) xs) = mset xs \<and> sorted_wrt le (srt (\<lambda>x y. cmp x y < 0) xs)"
proof -
  let ?ys = "srt (\<lambda>x y. cmp x y < 0) xs"
  have ys: "mset ?ys = mset xs" "sorted_wrt (\<lambda>a b. \<not> cmp b a < 0) ?ys"
    using assms cmp_strict_weak by (auto simp: std_sort_spec_def)
  then have "set ?ys \<subseteq> V" using assms(2) mset_eq_setD by blast
  then have "sorted_wrt le ?ys"
    using ys(2) cmp_le_iff by (auto elim!: sorted_wrt_mono_rel [rotated])
  with ys(1) show ?thesis ..
qed

definition fresh :: "'r row_batch \<Rightarrow> bool" where
  "fresh b \<longleftrightarrow> idx b = 0 \<and> rows b \<noteq> [] \<and> set (rows b) \<subseteq> V"

lemma batch_sort_ok:
  assumes "std_sort_spec srt" and "fresh b"
  shows "batch_sort srt cmp b \<in> BV" "sorted_wrt le (pending (batch_sort srt cmp b))"
    "mset (pending (batch_sort srt cmp b)) = mset (rows b)"
proof -
  have b: "idx b = 0" "rows b \<noteq> []" "set (rows b) \<subseteq> V" using assms(2) by (auto simp: fresh_def)
  note srt = std_sort_le [OF assms(1) b(3)]
  then have "set (srt (\<lambda>x y. cmp x y < 0) (rows b)) = set (rows b)"
    using mset_eq_setD by blast
  with srt b show "batch_sort srt cmp b \<in> BV" "sorted_wrt le (pending (batch_sort srt cmp b))"
    "mset (pending (batch_sort srt cmp b)) = mset (rows b)"
    by (auto simp: batch_sort_def pending_def BV_def)
qed

lemma sorter_sort_inv:
  assumes "std_sort_spec srt" and fresh: "list_all fresh (min_heap s)"
  shows "heap_inv (min_heap (sorter_sort srt cmp False s))"
    and "pend_mset (min_heap (sorter_sort srt cmp False s)) = mset (concat (map rows (min_heap s)))"
proof -
  let ?hs = "map (batch_sort srt cmp) (min_heap s)"
  have hs: "min_heap (sorter_sort srt cmp False s) =
      (if length (min_heap s) > 1 then make_heap (batch_before cmp) ?hs else ?hs)"
    by (cases "min_heap s") (auto simp: sorter_sort_def sorter_make_heap_def multi_sort_def)
  have ok: "set ?hs \<subseteq> BV" "\<forall>b \<in> set ?hs. sorted_wrt le (pending b)"
    using fresh batch_sort_ok [OF assms(1)] by (auto simp: list_all_iff)
  have pend: "pend_mset ?hs = mset (concat (map rows (min_heap s)))"
    using fresh
  proof (induction "min_heap s" arbitrary: s)
    case (Cons b bs)
    then show ?case
      using batch_sort_ok(3) [OF assms(1), of b] Cons(1) [of "s\<lparr>min_heap := bs\<rparr>"]
      by (simp flip: Cons(2))
  qed simp
  have m: "mset (min_heap (sorter_sort srt cmp False s)) = mset ?hs"
    by (simp add: hs mset_make_heap)
  then show "pend_mset (min_heap (sorter_sort srt cmp False s)) = mset (concat (map rows (min_heap s)))"
    using pend by (simp add: pend_mset_def)
  have "is_heap (batch_before cmp) (min_heap (sorter_sort srt cmp False s))"
    using batches.make_heap_heap [OF ok(1)] by (auto simp: hs heap_from_def)
  then show "heap_inv (min_heap (sorter_sort srt cmp False s))"
    using ok mset_eq_setD [OF m] by (simp add: heap_inv_def)
qed

subsection \<open>Draining it\<close>

lemma sorter_get_next_merged:
  assumes "heap_inv (min_heap s)"
  shows "\<exists>s' batch' eos. sorter_get_next cmp False s \<lparr>rows = [], idx = 0, capacity = cap\<rparr> False =
      Some (s', batch', eos) \<and> merged (min_heap s) (rows batch') (min_heap s') \<and>
      (if eos then min_heap s' = [] else cap \<le> length (rows batch'))"
proof (cases "min_heap s = []")
  case True
  then show ?thesis using merged_start [OF assms] by (auto simp: sorter_get_next_def)
next
  case False
  then show ?thesis
    using get_next_loop [OF assms, of "\<lparr>rows = [], idx = 0, capacity = cap\<rparr>"]
    by (fastforce simp: sorter_get_next_def is_full_def)
qed

lemma drain_merging:
  assumes E: "env_cmp E = cmp" "\<not> env_trivial E" and inv: "heap_inv (min_heap s)" and "0 < cap"
  shows "\<exists>out. run_loop (flat_step E cap)
        (\<lparr>node_sorter = Merging s, node_limit = -1, num_rows_returned = k\<rparr>, []) = Some (Some out) \<and>
      mset out = pend_mset (min_heap s) \<and> sorted_wrt le out"
proof -
  define I where "I = (\<lambda>(n, out). \<exists>s' k. n = \<lparr>node_sorter = Merging s', node_limit = -1,
    num_rows_returned = k\<rparr> \<and> merged (min_heap s) out (min_heap s'))"
  define left where "left n = (case node_sorter n of Merging s \<Rightarrow> size (pend_mset (min_heap s)) | _ \<Rightarrow> 0)"
    for n :: "'r sort_node"
  let ?R = "measure (\<lambda>(n, out :: 'r list). left n)"
  let ?s0 = "(\<lparr>node_sorter = Merging s, node_limit = -1, num_rows_returned = k\<rparr>, [])"
  have step: "\<exists>s'' (batch :: 'r row_batch) eos. flat_step E cap (n, out) =
      (if eos then Inr (Some (out @ rows batch))
       else Inl (\<lparr>node_sorter = Merging s'', node_limit = -1,
         num_rows_returned = k + int (length (rows batch))\<rparr>, out @ rows batch)) \<and>
      merged (min_heap s') (rows batch) (min_heap s'') \<and>
      (if eos then min_heap s'' = [] else cap \<le> length (rows batch))"
    if n: "n = \<lparr>node_sorter = Merging s', node_limit = -1, num_rows_returned = k\<rparr>"
      and inv': "heap_inv (min_heap s')" for n out s' k
  proof -
    obtain s'' batch eos where next_batch:
      "sorter_get_next cmp False s' \<lparr>rows = [], idx = 0, capacity = cap\<rparr> False = Some (s'', batch, eos)"
      "merged (min_heap s') (rows batch) (min_heap s'')"
      "if eos then min_heap s'' = [] else cap \<le> length (rows batch)"
      using sorter_get_next_merged [OF inv', of cap] by blast
    have "flat_step E cap (n, out) = (if eos then Inr (Some (out @ rows batch))
        else Inl (\<lparr>node_sorter = Merging s'', node_limit = -1,
          num_rows_returned = k + int (length (rows batch))\<rparr>, out @ rows batch))"
      using next_batch(1) E(2)
      by (simp add: flat_step_def sort_node_get_next_def reached_limit_def Let_def n E(1))
    with next_batch(2,3) show ?thesis by blast
  qed
  have "\<exists>r. run_loop (flat_step E cap) ?s0 = Some r \<and>
      (\<exists>out. r = Some out \<and> mset out = pend_mset (min_heap s) \<and> sorted_wrt le out)"
  proof (rule run_loop_rule [where I = I and R = ?R])
    show "I ?s0" using merged_start [OF inv] by (simp add: I_def)
  next
    fix st st' assume I: "I st" and st': "flat_step E cap st = Inl st'"
    from I obtain s' k out where st: "st = (\<lparr>node_sorter = Merging s', node_limit = -1,
        num_rows_returned = k\<rparr>, out)" and m: "merged (min_heap s) out (min_heap s')"
      by (auto simp: I_def)
    from m have "heap_inv (min_heap s')" by (simp add: merged_def)
    from step [OF refl this, of k out] st' obtain s'' :: "'r sorter" and batch :: "'r row_batch" where
      new: "st' = (\<lparr>node_sorter = Merging s'', node_limit = -1,
         num_rows_returned = k + int (length (rows batch))\<rparr>, out @ rows batch)"
      and m': "merged (min_heap s') (rows batch) (min_heap s'')" and c: "cap \<le> length (rows batch)"
      unfolding st by (auto split: if_splits)
    have "I st'" using merged_trans [OF m m'] by (auto simp: I_def new)
    moreover have "size (pend_mset (min_heap s'')) < size (pend_mset (min_heap s'))"
      using m' c \<open>0 < cap\<close> by (auto simp: merged_def)
    ultimately show "I st' \<and> (st', st) \<in> ?R" by (simp add: st new left_def)
  next
    fix st r assume I: "I st" and st': "flat_step E cap st = Inr r"
    from I obtain s' k out where st: "st = (\<lparr>node_sorter = Merging s', node_limit = -1,
        num_rows_returned = k\<rparr>, out)" and m: "merged (min_heap s) out (min_heap s')"
      by (auto simp: I_def)
    from m have "heap_inv (min_heap s')" by (simp add: merged_def)
    from step [OF refl this, of k out] st' obtain s'' :: "'r sorter" and batch :: "'r row_batch" where
      "r = Some (out @ rows batch)" "merged (min_heap s') (rows batch) (min_heap s'')" "min_heap s'' = []"
      unfolding st by (auto split: if_splits)
    with merged_trans [OF m, of "rows batch" "min_heap s''"]
    show "\<exists>out. r = Some out \<and> mset out = pend_mset (min_heap s) \<and> sorted_wrt le out"
      by (auto simp: merged_def)
  qed simp
  then show ?thesis by auto
qed

end

end
