(* ===== verification/SortNodeProperties.thy ===== *)
theory SortNodeProperties
  imports SorterProperties
begin

text \<open>
  The bounded sorter keeps the least rows, both sorters are drained completely,
  and so the sort node answers ORDER BY with and without a LIMIT.
\<close>

section \<open>The bounded sorter\<close>

context row_order
begin

text \<open>
  \<^verbatim>\<open>kept rs t rest\<close>: of the rows \<^verbatim>\<open>rs\<close> seen so far the heap holds the least
  ones, up to the limit, and \<^verbatim>\<open>rest\<close> are the others.
\<close>

definition kept :: "'r list \<Rightarrow> 'r topn \<Rightarrow> 'r list \<Rightarrow> bool" where
  "kept rs t rest \<longleftrightarrow>
     current_count t = int (length (mem_row_heap t)) \<and>
     int (length (mem_row_heap t)) = min (limit t) (int (length rs)) \<and>
     mset rs = mset (map fst (mem_row_heap t)) + mset rest \<and>
     (\<forall>x \<in> set (mem_row_heap t). \<forall>y \<in> set rest. le (fst x) y)"

definition topn_inv :: "'r list \<Rightarrow> 'r topn \<Rightarrow> 'r list \<Rightarrow> bool" where
  "topn_inv rs t rest \<longleftrightarrow> kept rs t rest \<and> set rs \<subseteq> V \<and> 0 < limit t \<and>
     is_heap (item_before cmp) (mem_row_heap t)"

lemma kept_rows: "kept rs t rest \<Longrightarrow> set rs = fst ` set (mem_row_heap t) \<union> set rest"
  unfolding kept_def by (metis list.set_map set_mset_mset set_mset_union)

lemma topn_inv_heap: "topn_inv rs t rest \<Longrightarrow> set (mem_row_heap t) \<subseteq> IV"
  using kept_rows [of rs t rest] by (auto simp: topn_inv_def IV_def)

lemma topn_root:
  assumes "topn_inv rs t rest" and "x \<in> set (mem_row_heap t)"
  shows "le (fst x) (fst (mem_row_heap t ! 0))"
proof -
  from assms(2) obtain j where j: "j < length (mem_row_heap t)" "x = mem_row_heap t ! j"
    by (metis in_set_conv_nth)
  then show ?thesis
    using items.heap_root [OF _ topn_inv_heap [OF assms(1)] j(1)] assms(1)
    by (simp add: topn_inv_def item_before_def)
qed

lemma topn_add_below:
  assumes inv: "topn_inv rs t rest" and row: "row \<in> V" and "current_count t < limit t"
  shows "\<exists>t'. topn_add_row cmp False t row = Some t' \<and> limit t' = limit t \<and> topn_inv (rs @ [row]) t' []"
proof -
  let ?h = "mem_row_heap t @ [(row, current_idx t + 1)]"
  have len: "current_count t = int (length (mem_row_heap t))"
    "int (length (mem_row_heap t)) = int (length rs)"
    using inv assms(3) by (auto simp: topn_inv_def kept_def)
  have "size (mset rs) = size (mset (map fst (mem_row_heap t)) + mset rest)"
    using inv by (simp add: topn_inv_def kept_def)
  then have rest: "rest = []" using len(2) by simp
  let ?t' = "t\<lparr>current_idx := current_idx t + 1,
    mem_row_heap := sift_up (item_before cmp) ?h (length (mem_row_heap t)),
    current_count := current_count t + 1\<rparr>"
  have add: "topn_add_row cmp False t row = Some ?t'"
    using assms(3) len(1) by (simp add: topn_add_row_def topn_shiftup_def Let_def)
  have m: "mset (sift_up (item_before cmp) ?h (length (mem_row_heap t))) = mset ?h"
    by (rule mset_sift_up) simp
  have "is_heap (item_before cmp) (sift_up (item_before cmp) ?h (length (mem_row_heap t)))"
    using inv row topn_inv_heap [OF inv] by (intro items.heap_push) (auto simp: topn_inv_def IV_def)
  moreover have "mset (map fst (mem_row_heap ?t')) = mset (rs @ [row])"
    using inv m rest by (simp add: topn_inv_def kept_def)
  moreover have "length (mem_row_heap ?t') = length (mem_row_heap t) + 1"
    using arg_cong [OF m, of size] by simp
  ultimately have "topn_inv (rs @ [row]) ?t' []"
    using inv row len assms(3) by (auto simp: topn_inv_def kept_def)
  with add show ?thesis by auto
qed

lemma topn_add_full:
  assumes inv: "topn_inv rs t rest" and row: "row \<in> V" and full: "\<not> current_count t < limit t"
  shows "\<exists>t' rest'. topn_add_row cmp False t row = Some t' \<and> limit t' = limit t \<and>
    topn_inv (rs @ [row]) t' rest'"
proof -
  let ?h = "mem_row_heap t" and ?root = "fst (mem_row_heap t ! 0)"
  have len: "current_count t = int (length ?h)" "int (length ?h) = limit t"
    "limit t \<le> int (length rs)" "0 < limit t"
    using inv full by (auto simp: topn_inv_def kept_def)
  then have ne: "?h \<noteq> []" by auto
  obtain i hs where h: "?h = i # hs" using ne by (cases ?h) auto
  have V: "?root \<in> V" "set rs \<subseteq> V" "\<And>x. x \<in> set ?h \<Longrightarrow> fst x \<in> V" "\<And>y. y \<in> set rest \<Longrightarrow> y \<in> V"
    using topn_inv_heap [OF inv] kept_rows [of rs t rest] inv h
    by (auto simp: topn_inv_def IV_def)
  have rest: "\<And>x y. x \<in> set ?h \<Longrightarrow> y \<in> set rest \<Longrightarrow> le (fst x) y"
    and mset: "mset rs = mset (map fst ?h) + mset rest"
    using inv by (auto simp: topn_inv_def kept_def)
  have root: "\<And>x. x \<in> set ?h \<Longrightarrow> le (fst x) ?root" using topn_root [OF inv] .
  show ?thesis
  proof (cases "cmp row ?root < 0")
    case True
    let ?h' = "?h[0 := (row, current_idx t + 1)]"
    let ?t' = "t\<lparr>current_idx := current_idx t + 1,
      mem_row_heap := sift_down (item_before cmp) (length ?h) ?h' 0\<rparr>"
    have add: "topn_add_row cmp False t row = Some ?t'"
      using full True ne len(1) by (simp add: topn_add_row_def topn_shiftdown_def Let_def)
    have h': "?h' = (row, current_idx t + 1) # hs" using h by simp
    have m: "mset (mem_row_heap ?t') = add_mset (row, current_idx t + 1) (mset hs)"
      using mset_sift_down [of "length ?h" ?h' "item_before cmp" 0] h' h by simp
    have set': "set (mem_row_heap ?t') = insert (row, current_idx t + 1) (set hs)"
      using m by (metis set_mset_add_mset_insert set_mset_mset)
    have len': "length (mem_row_heap ?t') = length ?h" by simp
    have "is_heap (item_before cmp) (mem_row_heap ?t')"
      using items.heap_root_changed [of ?h ?h'] inv row topn_inv_heap [OF inv] ne h
        set_update_subset_insert [of ?h 0] by (auto simp: topn_inv_def IV_def)
    moreover have "le row y" if "y \<in> set rest" for y
    proof -
      have "le ?root y" using rest [of i y] that h by simp
      then show ?thesis using cmp_trans [OF row V(1) V(4) [OF that]] True by simp
    qed
    then have "\<forall>x \<in> set (mem_row_heap ?t'). \<forall>y \<in> set (?root # rest). le (fst x) y"
      using set' rest root True h by auto
    moreover have "mset (rs @ [row]) = mset (map fst (mem_row_heap ?t')) + mset (?root # rest)"
      using mset m h by simp
    ultimately have "topn_inv (rs @ [row]) ?t' (?root # rest)"
      using len len' V(2) row by (simp add: topn_inv_def kept_def)
    with add show ?thesis by auto
  next
    case False
    let ?t' = "t\<lparr>current_idx := current_idx t + 1\<rparr>"
    have add: "topn_add_row cmp False t row = Some ?t'"
      using full False ne by (simp add: topn_add_row_def Let_def)
    have "le ?root row" using False cmp_le_iff [OF V(1) row] by simp
    then have "le (fst x) row" if "x \<in> set ?h" for x
      using cmp_trans [OF V(3) [OF that] V(1) row] root [OF that] by simp
    then have "topn_inv (rs @ [row]) ?t' (row # rest)"
      using inv row len rest mset by (auto simp: topn_inv_def kept_def)
    with add show ?thesis by auto
  qed
qed

lemma topn_add_rows_inv:
  assumes "topn_inv rs t rest" and "set new \<subseteq> V"
  shows "\<exists>t' rest'. topn_add_rows cmp False t new = Some t' \<and> limit t' = limit t \<and>
    topn_inv (rs @ new) t' rest'"
  using assms
proof (induction new arbitrary: rs t rest)
  case (Cons row new)
  have row: "row \<in> V" using Cons.prems(2) by simp
  have "\<exists>t' rest'. topn_add_row cmp False t row = Some t' \<and> limit t' = limit t \<and>
      topn_inv (rs @ [row]) t' rest'"
    using topn_add_below [OF Cons.prems(1) row] topn_add_full [OF Cons.prems(1) row] by blast
  then obtain t' rest' where "topn_add_row cmp False t row = Some t'" "limit t' = limit t"
    "topn_inv (rs @ [row]) t' rest'" by blast
  with Cons.IH [OF this(3)] Cons.prems(2) show ?case by auto
qed auto

text \<open>Sorting the kept rows, equal ones by the order they came in.\<close>

lemma item_less_swo:
  assumes "A \<subseteq> IV" shows "strict_weak_order (item_less cmp) A"
proof -
  have ord: "row_order (\<lambda>a b. if cmp (fst a) (fst b) \<noteq> 0 then cmp (fst a) (fst b) else snd a - snd b)
      (IV \<inter> UNIV)"
  proof (rule row_order_lex)
    show "row_order (\<lambda>a b. cmp (fst a) (fst b)) IV"
      by unfold_locales (auto simp: IV_def intro: cmp_trans simp: cmp_anti)
    show "row_order (\<lambda>a b :: 'r \<times> int. snd a - snd b) UNIV"
      by unfold_locales auto
  qed
  define c where "c a b = (if cmp (fst a) (fst b) \<noteq> 0 then cmp (fst a) (fst b) else snd a - snd b)"
    for a b :: "'r \<times> int"
  have less: "item_less cmp a b \<longleftrightarrow> c a b < 0" for a b
    by (auto simp: item_less_def c_def Let_def)
  have "strict_weak_order (\<lambda>a b. c a b < 0) A"
    using ord assms row_order.cmp_strict_weak [of c "IV \<inter> UNIV" A] by (simp add: c_def [abs_def])
  then show ?thesis by (simp add: less [abs_def])
qed

lemma topn_sort_rows:
  assumes "std_sort_spec srt" and "set h \<subseteq> IV"
  shows "mset (srt (item_less cmp) h) = mset h \<and>
    sorted_wrt le (map fst (srt (item_less cmp) h))"
proof -
  let ?s = "srt (item_less cmp) h"
  have m: "mset ?s = mset h" and sorted: "sorted_wrt (\<lambda>a b. \<not> item_less cmp b a) ?s"
    using assms item_less_swo by (auto simp: std_sort_spec_def)
  have "set ?s \<subseteq> IV" using assms(2) mset_eq_setD [OF m] by simp
  moreover have "le (fst a) (fst b)" if "a \<in> IV" "b \<in> IV" "\<not> item_less cmp b a" for a b
    using that cmp_le_iff [of "fst a" "fst b"] by (auto simp: item_less_def IV_def Let_def)
  ultimately have "sorted_wrt (\<lambda>a b. le (fst a) (fst b)) ?s"
    using sorted by (rule_tac sorted_wrt_mono_rel [rotated]) blast+
  with m show ?thesis by (simp add: sorted_wrt_map)
qed

end

section \<open>Reading the sorters without a comparison\<close>

text \<open>Without order expressions the bounded sorter keeps the first rows.\<close>

lemma topn_add_rows_trivial:
  assumes "current_count t = int (length (mem_row_heap t))" and "0 \<le> limit t"
    and "map fst (mem_row_heap t) = take (nat (limit t)) rs"
  shows "\<exists>t'. topn_add_rows cmp True t new = Some t' \<and> limit t' = limit t \<and>
    map fst (mem_row_heap t') = take (nat (limit t)) (rs @ new)"
  using assms
proof (induction new arbitrary: rs t)
  case (Cons row new)
  have len: "length (mem_row_heap t) = min (nat (limit t)) (length rs)"
    using arg_cong [OF Cons.prems(3), of length] by simp
  show ?case
  proof (cases "current_count t < limit t")
    case True
    let ?t = "t\<lparr>current_idx := current_idx t + 1,
      mem_row_heap := mem_row_heap t @ [(row, current_idx t + 1)], current_count := current_count t + 1\<rparr>"
    have "length rs < nat (limit t)" using True Cons.prems(1) len by linarith
    then have "map fst (mem_row_heap ?t) = take (nat (limit t)) (rs @ [row])"
      using Cons.prems(3) by simp
    with Cons.IH [of ?t "rs @ [row]"] Cons.prems True show ?thesis
      by (simp add: topn_add_row_def Let_def)
  next
    case False
    then have "nat (limit t) \<le> length rs" using Cons.prems(1,2) len by linarith
    then have "map fst (mem_row_heap t) = take (nat (limit t)) (rs @ [row])"
      using Cons.prems(3) by simp
    with Cons.IH [of "t\<lparr>current_idx := current_idx t + 1\<rparr>" "rs @ [row]"] Cons.prems False
    show ?thesis by (simp add: topn_add_row_def Let_def)
  qed
qed auto

section \<open>Draining the bounded sorter\<close>

definition topn_read :: "'r topn \<Rightarrow> 'r row_batch \<Rightarrow> nat \<Rightarrow> nat \<Rightarrow> bool \<Rightarrow> 'r topn \<times> 'r row_batch \<times> bool" where
  "topn_read t batch k n eos = (t\<lparr>current_idx := int (k + n)\<rparr>,
     batch\<lparr>rows := rows batch @ map fst (take n (drop k (mem_row_heap t)))\<rparr>, eos)"

lemma topn_get_next_rows:
  assumes "current_idx t = int k" and "k \<le> length (mem_row_heap t)"
  shows "\<exists>n eos. topn_get_next t batch False = topn_read t batch k n eos \<and>
    k + n \<le> length (mem_row_heap t) \<and>
    (if eos then k + n = length (mem_row_heap t) else capacity batch \<le> length (rows batch) + n)"
  using assms
proof (induction "length (mem_row_heap t) - k" arbitrary: t k batch rule: less_induct)
  case less
  consider "is_full batch" | "\<not> is_full batch" "k = length (mem_row_heap t)"
    | "\<not> is_full batch" "k < length (mem_row_heap t)" using less.prems(2) by linarith
  then show ?case
  proof cases
    case 1
    then have "topn_get_next t batch False = topn_read t batch k 0 False"
      using less.prems by (subst topn_get_next.simps) (simp add: topn_read_def)
    with 1 less.prems(2) show ?thesis
      by (rule_tac x = 0 in exI, rule_tac x = False in exI) (simp add: is_full_def)
  next
    case 2
    then have "topn_get_next t batch False = topn_read t batch k 0 True"
      using less.prems by (subst topn_get_next.simps) (simp add: topn_read_def)
    with 2 show ?thesis by (rule_tac x = 0 in exI, rule_tac x = True in exI) simp
  next
    case 3
    let ?t = "t\<lparr>current_idx := current_idx t + 1\<rparr>"
    let ?b = "move_row batch (fst (mem_row_heap t ! k))"
    have step: "topn_get_next t batch False = topn_get_next ?t ?b False"
      using 3 less.prems by (subst topn_get_next.simps) simp
    have dec: "length (mem_row_heap ?t) - Suc k < length (mem_row_heap t) - k"
      "current_idx ?t = int (Suc k)" "Suc k \<le> length (mem_row_heap ?t)"
      using 3(2) less.prems(1) by simp_all
    obtain n eos where n: "topn_get_next ?t ?b False = topn_read ?t ?b (Suc k) n eos"
      "Suc k + n \<le> length (mem_row_heap ?t)"
      "if eos then Suc k + n = length (mem_row_heap ?t) else capacity ?b \<le> length (rows ?b) + n"
      using less.hyps [OF dec, of ?b] by blast
    have "topn_read ?t ?b (Suc k) n eos = topn_read t batch k (Suc n) eos"
      using 3(2) by (simp add: topn_read_def move_row_def take_Suc_conv_app_nth Cons_nth_drop_Suc [symmetric])
    with n step show ?thesis
      by (rule_tac x = "Suc n" in exI, rule_tac x = eos in exI) (simp add: move_row_def split: if_splits)
  qed
qed

definition topn_node :: "'r topn \<Rightarrow> int \<Rightarrow> nat \<Rightarrow> 'r sort_node" where
  "topn_node t lim k = \<lparr>node_sorter = Bounded (t\<lparr>current_idx := int k\<rparr>), node_limit = lim,
     num_rows_returned = int k\<rparr>"

lemma topn_drain_step:
  fixes t :: "'r topn"
  assumes "k \<le> length (mem_row_heap t)" and "int (length (mem_row_heap t)) \<le> lim" and "0 < lim"
  shows "\<exists>n. k + n \<le> length (mem_row_heap t) \<and>
    (flat_step E cap (topn_node t lim k, map fst (take k (mem_row_heap t))) =
       Inr (Some (map fst (mem_row_heap t))) \<or>
     cap \<le> n \<and> flat_step E cap (topn_node t lim k, map fst (take k (mem_row_heap t))) =
       Inl (topn_node t lim (k + n), map fst (take (k + n) (mem_row_heap t))))"
proof (cases "lim \<le> int k")
  case True
  with assms have "k = length (mem_row_heap t)" by linarith
  with True assms show ?thesis
    by (intro exI [of _ 0]) (simp add: flat_step_def sort_node_get_next_def reached_limit_def topn_node_def)
next
  case False
  let ?h = "mem_row_heap t" and ?b = "\<lparr>rows = [], idx = 0, capacity = cap\<rparr> :: 'r row_batch"
  let ?t = "t\<lparr>current_idx := int k\<rparr>"
  have "current_idx ?t = int k" "k \<le> length (mem_row_heap ?t)" using assms(1) by simp_all
  then obtain n eos where read: "topn_get_next ?t ?b False = topn_read ?t ?b k n eos"
    "k + n \<le> length (mem_row_heap ?t)"
    "if eos then k + n = length (mem_row_heap ?t) else capacity ?b \<le> length (rows ?b) + n"
    using topn_get_next_rows [of ?t k ?b] by blast
  then have n: "topn_get_next ?t ?b False = topn_read ?t ?b k n eos" "k + n \<le> length ?h"
    "if eos then k + n = length ?h else cap \<le> n" by (simp_all split: if_splits)
  have out: "map fst (take k ?h) @ map fst (take n (drop k ?h)) = map fst (take (k + n) ?h)"
    by (metis map_append take_add)
  have len: "length (take n (drop k ?h)) = n" using n(2) by simp
  show ?thesis
  proof (cases "eos \<or> lim \<le> int (k + n)")
    case True
    then have "k + n = length ?h" using n assms(2) by (auto split: if_splits)
    with True False n(1) out len assms show ?thesis
      by (intro exI [of _ n]) (auto simp: flat_step_def sort_node_get_next_def reached_limit_def
          topn_node_def topn_read_def Let_def keep_first_rows_def)
  next
    case False2: False
    with False n out len assms show ?thesis
      by (intro exI [of _ n]) (auto simp: flat_step_def sort_node_get_next_def reached_limit_def
          topn_node_def topn_read_def Let_def)
  qed
qed

lemma drain_topn:
  assumes "int (length (mem_row_heap t)) \<le> lim" and "0 < lim" and "0 < cap"
  shows "run_loop (flat_step E cap) (topn_node t lim 0, []) = Some (Some (map fst (mem_row_heap t)))"
proof -
  let ?h = "mem_row_heap t"
  define I where "I = (\<lambda>(n, out). \<exists>k \<le> length ?h. n = topn_node t lim k \<and> out = map fst (take k ?h))"
  let ?R = "measure (\<lambda>(n, out). length ?h - nat (num_rows_returned n))"
  have "\<exists>r. run_loop (flat_step E cap) (topn_node t lim 0, []) = Some r \<and> r = Some (map fst ?h)"
  proof (rule run_loop_rule [where I = I and R = ?R])
    show "I (topn_node t lim 0, [])" unfolding I_def by (auto intro!: exI [of _ 0])
  next
    fix s s' assume "I s" and step: "flat_step E cap s = Inl s'"
    then obtain k where k: "k \<le> length ?h" "s = (topn_node t lim k, map fst (take k ?h))"
      by (auto simp: I_def)
    from topn_drain_step [OF k(1) assms(1,2), of E cap] step k(2) obtain n where
      n: "k + n \<le> length ?h" "cap \<le> n" "s' = (topn_node t lim (k + n), map fst (take (k + n) ?h))"
      by auto
    have "I s'" using n(1,3) by (auto simp: I_def)
    moreover have "(s', s) \<in> ?R" using n k(2) assms(3) by (simp add: topn_node_def)
    ultimately show "I s' \<and> (s', s) \<in> ?R" ..
  next
    fix s r assume "I s" and step: "flat_step E cap s = Inr r"
    then obtain k where k: "k \<le> length ?h" "s = (topn_node t lim k, map fst (take k ?h))"
      by (auto simp: I_def)
    from topn_drain_step [OF k(1) assms(1,2), of E cap] step k(2)
    show "r = Some (map fst ?h)" by auto
  qed simp
  then show ?thesis by simp
qed

section \<open>Draining the merging sorter without a comparison\<close>

lemma drain_trivial:
  assumes "env_trivial E" and bs: "bs \<noteq> []"
  shows "run_loop (flat_step E cap) (\<lparr>node_sorter = Merging \<lparr>min_heap = bs, s_idx = 0\<rparr>,
      node_limit = -1, num_rows_returned = r\<rparr>, []) = Some (Some (concat (map rows bs)))"
proof -
  define I where "I = (\<lambda>(n, out). \<exists>h k r. n = \<lparr>node_sorter = Merging \<lparr>min_heap = h, s_idx = k\<rparr>,
      node_limit = -1, num_rows_returned = r\<rparr> \<and> k < length bs \<and> length h = length bs \<and>
      drop k h = drop k bs \<and> out = concat (map rows (take k bs)))"
  define pos where "pos n = (case node_sorter n of Merging s \<Rightarrow> s_idx s | _ \<Rightarrow> 0)" for n :: "'a sort_node"
  let ?R = "measure (\<lambda>(n, out :: 'a list). length bs - pos n)"
  let ?s0 = "(\<lparr>node_sorter = Merging \<lparr>min_heap = bs, s_idx = 0\<rparr>,
      node_limit = -1, num_rows_returned = r\<rparr>, [])"
  have step: "flat_step E cap (\<lparr>node_sorter = Merging \<lparr>min_heap = h, s_idx = k\<rparr>,
        node_limit = -1, num_rows_returned = r\<rparr>, concat (map rows (take k bs))) =
      (if k = length bs - 1 then Inr (Some (concat (map rows bs)))
       else Inl (\<lparr>node_sorter = Merging \<lparr>min_heap = h[k := (bs ! k)\<lparr>rows := []\<rparr>], s_idx = Suc k\<rparr>,
         node_limit = -1, num_rows_returned = r + int (length (rows (bs ! k)))\<rparr>,
         concat (map rows (take (Suc k) bs))))"
    if "k < length bs" "length h = length bs" "drop k h = drop k bs" for h k r
  proof -
    have "h ! k = bs ! k" using that by (metis hd_drop_conv_nth)
    moreover have "concat (map rows (take (Suc k) bs)) = concat (map rows (take k bs)) @ rows (bs ! k)"
      using that(1) by (simp add: take_Suc_conv_app_nth)
    moreover have "take (Suc k) bs = bs" if "k = length bs - 1" using that bs by simp
    ultimately show ?thesis
      using assms that by (auto simp: flat_step_def sort_node_get_next_def reached_limit_def
          sorter_get_next_def batch_swap_def Let_def)
  qed
  have "\<exists>res. run_loop (flat_step E cap) ?s0 = Some res \<and> res = Some (concat (map rows bs))"
  proof (rule run_loop_rule [where I = I and R = ?R])
    show "I ?s0" using bs by (simp add: I_def)
  next
    fix s s' assume "I s" and st: "flat_step E cap s = Inl s'"
    then obtain h k r where s: "s = (\<lparr>node_sorter = Merging \<lparr>min_heap = h, s_idx = k\<rparr>,
        node_limit = -1, num_rows_returned = r\<rparr>, concat (map rows (take k bs)))"
      and k: "k < length bs" "length h = length bs" "drop k h = drop k bs" by (auto simp: I_def)
    from st step [OF k, of r] have k': "k \<noteq> length bs - 1"
      and s': "s' = (\<lparr>node_sorter = Merging \<lparr>min_heap = h[k := (bs ! k)\<lparr>rows := []\<rparr>], s_idx = Suc k\<rparr>,
         node_limit = -1, num_rows_returned = r + int (length (rows (bs ! k)))\<rparr>,
         concat (map rows (take (Suc k) bs)))"
      by (auto simp: s split: if_splits)
    have "drop (Suc k) h = drop (Suc k) bs" using k by (metis drop_Suc tl_drop)
    then have "I s'" using k k' by (auto simp: I_def s')
    then show "I s' \<and> (s', s) \<in> ?R" using k by (simp add: s s' pos_def)
  next
    fix s res assume "I s" and st: "flat_step E cap s = Inr res"
    then obtain h k r where s: "s = (\<lparr>node_sorter = Merging \<lparr>min_heap = h, s_idx = k\<rparr>,
        node_limit = -1, num_rows_returned = r\<rparr>, concat (map rows (take k bs)))"
      and k: "k < length bs" "length h = length bs" "drop k h = drop k bs" by (auto simp: I_def)
    from st step [OF k, of r] show "res = Some (concat (map rows bs))" by (auto simp: s split: if_splits)
  qed simp
  then show ?thesis by simp
qed

section \<open>Filling the sorters\<close>

lemma fill_merging:
  "list_all (\<lambda>b. rows b \<noteq> []) child \<Longrightarrow>
     fill_sorter E (Merging s) child = Some (Merging (s\<lparr>min_heap := min_heap s @ map batch_reset child\<rparr>))"
  by (induction child arbitrary: s) (auto simp: add_batch_def)

lemma fill_bounded:
  assumes "list_all (\<lambda>b. rows b \<noteq> [] \<and> idx b = 0) child"
  shows "fill_sorter E (Bounded t) child =
    map_option Bounded (topn_add_rows (env_cmp E) (env_trivial E) t (concat (map rows child)))"
  using assms
proof (induction child arbitrary: t)
  case (Cons b child)
  have "topn_add_rows cmp tr t (xs @ ys) = (case topn_add_rows cmp tr t xs of None \<Rightarrow> None
      | Some t \<Rightarrow> topn_add_rows cmp tr t ys)" for cmp tr t xs and ys :: "'a list"
    by (induction xs arbitrary: t) (auto split: option.splits)
  with Cons show ?case by (auto simp: topn_add_batch_def split: option.splits)
qed simp

section \<open>ORDER BY and LIMIT\<close>

definition run_rows ::
  "'r sort_env \<Rightarrow> int \<Rightarrow> nat \<Rightarrow> 'r row_batch list \<Rightarrow> 'r list option option" where
  "run_rows E lim cap child = map_option (map_option concat) (sort_node_run E lim cap child)"

lemma run_rows_batches:
  "run_rows E lim cap child = Some (Some out) \<Longrightarrow>
     \<exists>batches. sort_node_run E lim cap child = Some (Some batches) \<and> concat batches = out"
  by (auto simp: run_rows_def)

definition sort_env_for ::
  "(expr_value \<Rightarrow> expr_value \<Rightarrow> int) \<Rightarrow> 'r row_comparer \<Rightarrow> 'r sort_env \<Rightarrow> bool" where
  "sort_env_for reint c E \<longleftrightarrow> env_cmp E = row_compare reint c \<and> env_trivial E = need_not_compare c \<and>
     std_sort_spec (sort_rows E) \<and> std_sort_spec (sort_items E)"

lemma trivial_compare: "need_not_compare c \<Longrightarrow> row_compare reint c x y = 0"
  by (simp add: need_not_compare_def row_compare_def order_keys_def)

lemma sorted_trivial: "need_not_compare c \<Longrightarrow> sorted_wrt (\<lambda>x y. row_compare reint c x y \<le> 0) xs"
  by (induction xs) (simp_all add: trivial_compare)

abbreviation new_topn :: "int \<Rightarrow> 'r topn" where
  "new_topn lim \<equiv> \<lparr>mem_row_heap = [], limit = lim, current_count = 0, current_idx = 0\<rparr>"

lemma run_bounded:
  assumes child: "list_all (\<lambda>b. rows b \<noteq> [] \<and> idx b = 0) child" and "0 < cap" "0 < lim"
    and t: "topn_add_rows (env_cmp E) (env_trivial E) (new_topn lim) (concat (map rows child)) = Some t"
    and t': "topn_sort (sort_items E) (env_cmp E) (env_trivial E) t = t'"
    and len: "int (length (mem_row_heap t')) \<le> lim"
  shows "run_rows E lim cap child = Some (Some (map fst (mem_row_heap t')))"
proof -
  have "t' = t'\<lparr>current_idx := int 0\<rparr>"
    using t' by (auto simp: topn_sort_def Let_def)
  then have "run_rows E lim cap child = run_loop (flat_step E cap) (topn_node t' lim 0, [])"
    using fill_bounded [OF child, of E "new_topn lim"] t t' assms(3)
    by (simp add: run_rows_def flat_run sort_node_run_def sort_node_open_def new_sorter_def topn_node_def)
  then show ?thesis using drain_topn [OF len assms(3,2)] by simp
qed

lemma limit_without_order:
  assumes "env_trivial E" and "0 < cap" "0 < lim"
    and child: "list_all (\<lambda>b. rows b \<noteq> [] \<and> idx b = 0) child"
  shows "run_rows E lim cap child = Some (Some (take (nat lim) (concat (map rows child))))"
proof -
  let ?rs = "concat (map rows child)"
  obtain t where t: "topn_add_rows (env_cmp E) True (new_topn lim) ?rs = Some t"
    "map fst (mem_row_heap t) = take (nat lim) ?rs"
    using topn_add_rows_trivial [of "new_topn lim" "[]" "env_cmp E" ?rs] assms(3) by auto
  have "length (mem_row_heap t) \<le> nat lim" using arg_cong [OF t(2), of length] by simp
  then show ?thesis
    using run_bounded [OF child assms(2,3) _ refl, of E t] t assms(1,3)
    by (simp add: topn_sort_def Let_def)
qed

context row_order
begin

lemma limit_with_order:
  assumes E: "env_cmp E = cmp" "\<not> env_trivial E" "std_sort_spec (sort_items E)" and "0 < cap" "0 < lim"
    and child: "list_all (\<lambda>b. rows b \<noteq> [] \<and> idx b = 0) child" and V: "set (concat (map rows child)) \<subseteq> V"
  shows "\<exists>out rest. run_rows E lim cap child = Some (Some out) \<and>
    mset (concat (map rows child)) = mset out + mset rest \<and>
    length out = min (nat lim) (length (concat (map rows child))) \<and>
    sorted_wrt le out \<and> (\<forall>x \<in> set out. \<forall>y \<in> set rest. le x y)"
proof -
  let ?rs = "concat (map rows child)"
  have "topn_inv [] (new_topn lim) []"
    using assms(5) by (simp add: topn_inv_def kept_def heap_from_def)
  from topn_add_rows_inv [OF this V] obtain t rest where
    t: "topn_add_rows cmp False (new_topn lim) ?rs = Some t" "limit t = lim" "topn_inv ?rs t rest"
    by auto
  let ?h = "sort_items E (item_less cmp) (mem_row_heap t)"
  have srt: "mset ?h = mset (mem_row_heap t)" "sorted_wrt le (map fst ?h)"
    using topn_sort_rows [OF E(3) topn_inv_heap [OF t(3)]] by auto
  have kept: "int (length (mem_row_heap t)) = min lim (int (length ?rs))"
    "mset ?rs = mset (map fst (mem_row_heap t)) + mset rest"
    "\<forall>x \<in> set (mem_row_heap t). \<forall>y \<in> set rest. le (fst x) y"
    using t(2,3) by (auto simp: topn_inv_def kept_def)
  have len: "length ?h = length (mem_row_heap t)" using arg_cong [OF srt(1), of size] by simp
  with kept(1) have "run_rows E lim cap child = Some (Some (map fst ?h))"
    using run_bounded [OF child assms(4,5) _ refl, of E t] t(1) E by (simp add: topn_sort_def Let_def)
  moreover have "mset (map fst ?h) = mset (map fst (mem_row_heap t))"
    using srt(1) by simp
  ultimately show ?thesis
    using kept srt(2) len mset_eq_setD [OF srt(1)]
    by (intro exI [of _ "map fst ?h"] exI [of _ rest]) auto
qed

end

lemma order_by_rows:
  assumes env: "sort_env_for reint c E" and "0 < cap"
    and child: "list_all (\<lambda>b. rows b \<noteq> [] \<and> set (rows b) \<subseteq> typed_rows c ks) child"
  shows "\<exists>out. run_rows E (-1) cap child = Some (Some out) \<and>
    mset out = mset (concat (map rows child)) \<and>
    sorted_wrt (\<lambda>x y. row_compare reint c x y \<le> 0) out"
proof -
  let ?s = "\<lparr>min_heap = map batch_reset child, s_idx = 0\<rparr> :: 'a sorter"
  have "list_all (\<lambda>b. rows b \<noteq> []) child" using child by (auto simp: list_all_iff)
  from fill_merging [OF this, of E "\<lparr>min_heap = [], s_idx = 0\<rparr>"]
  have run: "run_rows E (-1) cap child = run_loop (flat_step E cap)
      (\<lparr>node_sorter = Merging (sorter_sort (sort_rows E) (env_cmp E) (env_trivial E) ?s),
        node_limit = -1, num_rows_returned = 0\<rparr>, [])"
    by (simp add: run_rows_def flat_run sort_node_run_def sort_node_open_def new_sorter_def)
  have all: "concat (map rows (map batch_reset child)) = concat (map rows child)"
    by (simp add: comp_def batch_reset_def)
  show ?thesis
  proof (cases "need_not_compare c")
    case True
    then have E: "env_trivial E" using env by (simp add: sort_env_for_def)
    show ?thesis
    proof (cases "child = []")
      case True
      with run show ?thesis
        by (subst (asm) run_loop.simps)
          (simp add: flat_step_def sort_node_get_next_def reached_limit_def sorter_get_next_def
            sorter_sort_def Let_def)
    next
      case False
      with run drain_trivial [OF E, of "map batch_reset child" cap 0] all
      show ?thesis using sorted_trivial [OF True] E by (simp add: sorter_sort_def)
    qed
  next
    case False
    have fresh: "list_all (rc.fresh c ks) (min_heap ?s)"
      using child by (auto simp: list_all_iff rc.fresh_def batch_reset_def)
    have E: "env_cmp E = row_compare reint c" "\<not> env_trivial E" "std_sort_spec (sort_rows E)"
      using env False by (simp_all add: sort_env_for_def)
    note sort = rc.sorter_sort_inv [OF E(3) fresh, of reint]
    from rc.drain_merging [OF E(1,2) sort(1) assms(2), of 0] sort(2) show ?thesis
      using run E all by simp
  qed
qed

lemma order_by_limit_rows:
  assumes env: "sort_env_for reint c E" and "0 < cap" and "0 < lim"
    and child: "list_all (\<lambda>b. rows b \<noteq> [] \<and> idx b = 0 \<and> set (rows b) \<subseteq> typed_rows c ks) child"
  shows "\<exists>out rest. run_rows E lim cap child = Some (Some out) \<and>
    mset (concat (map rows child)) = mset out + mset rest \<and>
    length out = min (nat lim) (length (concat (map rows child))) \<and>
    sorted_wrt (\<lambda>x y. row_compare reint c x y \<le> 0) out \<and>
    (\<forall>x \<in> set out. \<forall>y \<in> set rest. row_compare reint c x y \<le> 0)"
proof (cases "need_not_compare c")
  case True
  let ?rs = "concat (map rows child)"
  have "env_trivial E" using True env by (simp add: sort_env_for_def)
  moreover have "list_all (\<lambda>b. rows b \<noteq> [] \<and> idx b = 0) child"
    using child by (auto simp: list_all_iff)
  ultimately have "run_rows E lim cap child = Some (Some (take (nat lim) ?rs))"
    using assms(2,3) by (intro limit_without_order)
  moreover have "mset ?rs = mset (take (nat lim) ?rs) + mset (drop (nat lim) ?rs)"
    by (metis append_take_drop_id mset_append)
  ultimately show ?thesis
    using sorted_trivial [OF True] trivial_compare [OF True]
    by (intro exI [of _ "take (nat lim) ?rs"] exI [of _ "drop (nat lim) ?rs"]) simp
next
  case False
  show ?thesis
    using env False assms(2,3) child
    by (intro rc.limit_with_order [of E reint c cap lim child ks])
      (auto simp: sort_env_for_def list_all_iff)
qed

section \<open>Properties\<close>

text \<open>The witnesses order 64-bit integers, ascending, with a stable insertion sort.\<close>

definition by_value :: "64 word row_comparer" where
  "by_value = \<lparr>slot_order_exprs = [VInt64], is_asc = [True], is_null_first = [True]\<rparr>"

definition by_value_env :: "64 word sort_env" where
  "by_value_env = \<lparr>env_cmp = row_compare (\<lambda>_ _. 0) by_value, env_trivial = False,
     sort_rows = insertion_sort, sort_items = insertion_sort\<rparr>"

lemma by_value_env: "sort_env_for (\<lambda>_ _. 0) by_value by_value_env"
  by (simp add: sort_env_for_def by_value_env_def by_value_def need_not_compare_def insertion_sort_spec)

lemma by_value_compares: "\<not> need_not_compare by_value"
  by (simp add: need_not_compare_def by_value_def)

lemma by_value_rows: "typed_rows by_value [INT64] = UNIV"
  by (simp add: typed_rows_def by_value_def order_keys_def typed_def kind_def)

text \<open>
  (C15) ORDER BY without a LIMIT: when the child delivers non-empty batches whose
  order expressions have one type each, the sort node returns all its rows and
  nothing else, in the order of the row comparer, through output batches of any
  positive capacity.
\<close>

theorem order_by:
  assumes "sort_env_for reint c E" and "0 < cap"
    and "list_all (\<lambda>b. rows b \<noteq> [] \<and> set (rows b) \<subseteq> typed_rows c ks) child"
  shows "\<exists>batches. sort_node_run E (-1) cap child = Some (Some batches) \<and>
    mset (concat batches) = mset (concat (map rows child)) \<and>
    sorted_wrt (\<lambda>x y. row_compare reint c x y \<le> 0) (concat batches)"
  using order_by_rows [OF assms] run_rows_batches by blast

theorem order_by_witness:
  "\<exists>batches. sort_node_run by_value_env (-1) 2
      [\<lparr>rows = [3, 1], idx = 0, capacity = 2\<rparr>, \<lparr>rows = [2], idx = 0, capacity = 2\<rparr>] = Some (Some batches) \<and>
    mset (concat batches) = mset [3, 1, 2] \<and>
    sorted_wrt (\<lambda>x y. row_compare (\<lambda>_ _. 0) by_value x y \<le> 0) (concat batches)"
  using order_by [OF by_value_env, of 2 "[INT64]"
      "[\<lparr>rows = [3, 1], idx = 0, capacity = 2\<rparr>, \<lparr>rows = [2], idx = 0, capacity = 2\<rparr>]"]
  by (simp add: by_value_rows)

text \<open>
  (C16) ORDER BY with a LIMIT: the sort node returns as many rows as the limit
  asks for (all of them when there are fewer), in order, and every row it leaves
  out comes at or behind every row it returns.
\<close>

theorem order_by_limit:
  assumes "sort_env_for reint c E" and "0 < cap" and "0 < lim"
    and "list_all (\<lambda>b. rows b \<noteq> [] \<and> idx b = 0 \<and> set (rows b) \<subseteq> typed_rows c ks) child"
  shows "\<exists>batches rest. sort_node_run E lim cap child = Some (Some batches) \<and>
    mset (concat (map rows child)) = mset (concat batches) + mset rest \<and>
    length (concat batches) = min (nat lim) (length (concat (map rows child))) \<and>
    sorted_wrt (\<lambda>x y. row_compare reint c x y \<le> 0) (concat batches) \<and>
    (\<forall>x \<in> set (concat batches). \<forall>y \<in> set rest. row_compare reint c x y \<le> 0)"
  using order_by_limit_rows [OF assms] run_rows_batches by metis

theorem order_by_limit_witness:
  "\<exists>batches rest. sort_node_run by_value_env 2 2
      [\<lparr>rows = [3, 1], idx = 0, capacity = 2\<rparr>, \<lparr>rows = [2], idx = 0, capacity = 2\<rparr>] = Some (Some batches) \<and>
    mset [3, 1, 2] = mset (concat batches) + mset rest \<and>
    length (concat batches) = 2 \<and>
    sorted_wrt (\<lambda>x y. row_compare (\<lambda>_ _. 0) by_value x y \<le> 0) (concat batches)"
  using order_by_limit [OF by_value_env, of 2 2 "[INT64]"
      "[\<lparr>rows = [3, 1], idx = 0, capacity = 2\<rparr>, \<lparr>rows = [2], idx = 0, capacity = 2\<rparr>]"]
  by (auto simp: by_value_rows)

end
