(* ===== verification/LimitNode.thy ===== *)
theory LimitNode
  imports SortNodeProperties
begin

text \<open>
  The limit node (\<^verbatim>\<open>src/exec/limit_node.cpp\<close>), the limit it hands down to the
  nodes below it (\<^verbatim>\<open>src/physical_plan/limit_calc.cpp\<close>), and the two nodes
  together: ORDER BY with LIMIT offset, count.  The child of a limit node is the
  sequence of batches it still delivers, the end being announced with the last.
\<close>

section \<open>The node\<close>

record limit_node =
  l_limit :: int
  l_offset :: int
  l_skipped :: int
  l_returned :: int

definition l_reached_limit :: "limit_node \<Rightarrow> bool" where
  "l_reached_limit l \<longleftrightarrow> l_limit l \<noteq> -1 \<and> l_returned l \<ge> l_limit l"

fun child_next :: "'r list list \<Rightarrow> 'r list \<times> bool \<times> 'r list list" where
  "child_next [] = ([], True, [])"
| "child_next [b] = (b, True, [])"
| "child_next (b # bs) = (b, False, bs)"

definition skip_rows :: "'r list \<Rightarrow> int \<Rightarrow> 'r list" where
  "skip_rows b num_skip_rows =
     (if num_skip_rows \<le> 0 then b
      else if num_skip_rows \<ge> int (length b) then []
      else drop (nat num_skip_rows) b)"

lemma child_next_less:
  "(case child_next child of (b, eos, rest) \<Rightarrow> length rest + (if eos then 0 else 1)) < Suc (length child)"
  by (cases child rule: child_next.cases) auto

text \<open>
  The skipping loop; the last component tells that the child ended in it, which
  makes \<^verbatim>\<open>get_next\<close> return at once.
\<close>

function skip_loop ::
  "limit_node \<Rightarrow> 'r list \<Rightarrow> bool \<Rightarrow> 'r list list
     \<Rightarrow> limit_node \<times> 'r list \<times> bool \<times> 'r list list \<times> bool" where
  "skip_loop l batch eos child =
     (if l_skipped l < l_offset l
      then (if l_skipped l + int (length batch) \<le> l_offset l
            then let l = l\<lparr>l_skipped := l_skipped l + int (length batch)\<rparr> in
              if eos then (l, [], eos, child, True)
              else let (batch, eos, child) = child_next child in skip_loop l batch eos child
            else (l\<lparr>l_skipped := l_offset l\<rparr>, skip_rows batch (l_offset l - l_skipped l),
                  eos, child, False))
      else (l, batch, eos, child, False))"
  by pat_completeness auto
termination
  by (relation "measure (\<lambda>(l, batch, eos, child). length child + (if eos then 0 else 1))")
    (auto simp: child_next_less)

declare skip_loop.simps [simp del]

definition limit_get_next ::
  "limit_node \<Rightarrow> 'r list list \<Rightarrow> limit_node \<times> 'r list \<times> bool \<times> 'r list list" where
  "limit_get_next l child =
     (if l_reached_limit l then (l, [], True, child)
      else let (batch, eos, child) = child_next child;
               (l, batch, eos, child, ended) = skip_loop l batch eos child
        in if ended then (l, batch, eos, child)
           else let l = l\<lparr>l_returned := l_returned l + int (length batch)\<rparr> in
             if l_reached_limit l
             then (l\<lparr>l_returned := l_limit l\<rparr>,
                   rows (keep_first_rows \<lparr>rows = batch, idx = 0, capacity = 0\<rparr>
                     (int (length batch) - (l_returned l - l_limit l))), True, child)
             else (l, batch, eos, child))"

definition limit_step ::
  "limit_node \<times> 'r list list \<times> 'r list list
     \<Rightarrow> limit_node \<times> 'r list list \<times> 'r list list + 'r list list" where
  "limit_step = (\<lambda>(l, child, out).
     let (l, batch, eos, child) = limit_get_next l child in
     if eos then Inr (out @ [batch]) else Inl (l, child, out @ [batch]))"

definition new_limit_node :: "int \<Rightarrow> int \<Rightarrow> limit_node" where
  "new_limit_node offset cnt = \<lparr>l_limit = cnt, l_offset = offset, l_skipped = 0, l_returned = 0\<rparr>"

definition limit_run :: "limit_node \<Rightarrow> 'r list list \<Rightarrow> 'r list list option" where
  "limit_run l child = run_loop limit_step (l, child, [])"

section \<open>The limit below the node\<close>

text \<open>
  A literal is read by \<^verbatim>\<open>strtoull\<close> into an \<^verbatim>\<open>int64_t\<close>.  The limit of the child is
  the sum of offset and count, wrapping, and a negative one is no limit.
\<close>

definition int_literal :: "nat \<Rightarrow> int" where
  "int_literal n = sint (of_nat (min n (2 ^ 64 - 1)) :: 64 word)"

definition other_limit :: "limit_node \<Rightarrow> int" where
  "other_limit l = sint (word_of_int (l_offset l + l_limit l) :: 64 word)"

definition set_limit :: "int \<Rightarrow> int" where
  "set_limit lim = (if lim < 0 then -1 else lim)"

definition order_limit_run ::
  "'r sort_env \<Rightarrow> int \<Rightarrow> int \<Rightarrow> nat \<Rightarrow> 'r row_batch list \<Rightarrow> 'r list list option option" where
  "order_limit_run E offset cnt cap child =
     (let l = new_limit_node offset cnt in
      case sort_node_run E (set_limit (other_limit l)) cap child of
        None \<Rightarrow> None
      | Some None \<Rightarrow> Some None
      | Some (Some batches) \<Rightarrow> map_option Some (limit_run l batches))"

section \<open>What the node lets through\<close>

definition l_ok :: "limit_node \<Rightarrow> bool" where
  "l_ok l \<longleftrightarrow> 0 \<le> l_skipped l \<and> l_skipped l \<le> l_offset l \<and> 0 \<le> l_returned l \<and>
     (l_limit l = -1 \<or> l_returned l \<le> l_limit l)"

definition cut :: "limit_node \<Rightarrow> 'r list \<Rightarrow> 'r list" where
  "cut l xs = (let ys = drop (nat (l_offset l - l_skipped l)) xs in
     if l_limit l = -1 then ys else take (nat (l_limit l - l_returned l)) ys)"

lemma child_next_concat:
  "child_next child = (b, eos, child') \<Longrightarrow>
     concat child = b @ concat child' \<and> (eos \<longrightarrow> child' = []) \<and> (eos \<or> length child' < length child)"
  by (cases child rule: child_next.cases) auto

lemma skip_loop_eqs:
  "l_skipped l < l_offset l \<Longrightarrow> l_skipped l + int (length b) \<le> l_offset l \<Longrightarrow> \<not> eos \<Longrightarrow>
     child_next child = (b1, eos1, child1) \<Longrightarrow>
     skip_loop l b eos child = skip_loop (l\<lparr>l_skipped := l_skipped l + int (length b)\<rparr>) b1 eos1 child1"
  "l_skipped l < l_offset l \<Longrightarrow> l_skipped l + int (length b) \<le> l_offset l \<Longrightarrow> eos \<Longrightarrow>
     skip_loop l b eos child = (l\<lparr>l_skipped := l_skipped l + int (length b)\<rparr>, [], True, child, True)"
  "l_skipped l < l_offset l \<Longrightarrow> \<not> l_skipped l + int (length b) \<le> l_offset l \<Longrightarrow>
     skip_loop l b eos child =
       (l\<lparr>l_skipped := l_offset l\<rparr>, skip_rows b (l_offset l - l_skipped l), eos, child, False)"
  "\<not> l_skipped l < l_offset l \<Longrightarrow> skip_loop l b eos child = (l, b, eos, child, False)"
  by (subst skip_loop.simps, simp)+

lemma skip_loop_rows:
  assumes "skip_loop l b eos child = (l', b', eos', child', ended)" and "l_ok l" and "eos \<longrightarrow> child = []"
  shows "l_ok l' \<and> l_limit l' = l_limit l \<and> l_offset l' = l_offset l \<and> l_returned l' = l_returned l \<and>
    drop (nat (l_offset l - l_skipped l)) (b @ concat child) = b' @ concat child' \<and>
    (eos' \<longrightarrow> child' = []) \<and> length child' \<le> length child \<and> (eos \<longrightarrow> eos') \<and>
    (if ended then b' = [] \<and> eos' else l_skipped l' = l_offset l')"
  using assms
proof (induction l b eos child rule: skip_loop.induct)
  case (1 l b eos child)
  note ok = "1.prems"(2) [unfolded l_ok_def]
  consider (more) "l_skipped l < l_offset l" "l_skipped l + int (length b) \<le> l_offset l" "\<not> eos"
    | (last) "l_skipped l < l_offset l" "l_skipped l + int (length b) \<le> l_offset l" eos
    | (part) "l_skipped l < l_offset l" "\<not> l_skipped l + int (length b) \<le> l_offset l"
    | (none) "\<not> l_skipped l < l_offset l" by blast
  then show ?case
  proof cases
    case more
    let ?l = "l\<lparr>l_skipped := l_skipped l + int (length b)\<rparr>"
    obtain b1 eos1 child1 where n: "child_next child = (b1, eos1, child1)" by (cases "child_next child")
    note cn = child_next_concat [OF n]
    have "nat (l_offset l - (l_skipped l + int (length b))) = nat (l_offset l - l_skipped l) - length b"
      and "length b \<le> nat (l_offset l - l_skipped l)" using more by linarith+
    moreover have sel: "l_offset ?l = l_offset l" "l_skipped ?l = l_skipped l + int (length b)"
      "l_limit ?l = l_limit l" "l_returned ?l = l_returned l" by simp_all
    ultimately have drop: "drop (nat (l_offset ?l - l_skipped ?l)) (b1 @ concat child1) =
        drop (nat (l_offset l - l_skipped l)) (b @ concat child)"
      using cn by (simp only: sel drop_append drop_all append_Nil)
    have skip: "skip_loop ?l b1 eos1 child1 = (l', b', eos', child', ended)"
      using "1.prems"(1) skip_loop_eqs(1) [OF more n] by simp
    have l_ok: "l_ok ?l" using ok more by (simp add: l_ok_def)
    have eos1: "eos1 \<longrightarrow> child1 = []" using cn by blast
    have "length child1 \<le> length child" using n by (cases child rule: child_next.cases) auto
    moreover note "1.IH" [OF more(1,2) refl more(3) n [symmetric] refl refl skip l_ok eos1, unfolded drop]
    ultimately show ?thesis using more(3) by (simp only: sel) auto
  next
    case last
    then show ?thesis using "1.prems" ok skip_loop_eqs(2) [OF last, of child] by (simp add: l_ok_def)
  next
    case part
    have "drop (nat (l_offset l - l_skipped l)) (b @ concat child) =
        skip_rows b (l_offset l - l_skipped l) @ concat child"
      using part by (simp add: skip_rows_def nat_less_iff)
    then show ?thesis using "1.prems" ok skip_loop_eqs(3) [OF part, of eos child] by (auto simp: l_ok_def)
  next
    case none
    then show ?thesis using "1.prems" ok skip_loop_eqs(4) [OF none, of b eos child] by (auto simp: l_ok_def)
  qed
qed

lemma keep_first: "k \<le> int (length b) \<Longrightarrow>
    rows (keep_first_rows \<lparr>rows = b, idx = i, capacity = c\<rparr> k) = take (nat k) b"
  by (auto simp: keep_first_rows_def)

lemma limit_get_next_cut:
  assumes "limit_get_next l child = (l', b, eos, child')" and ok: "l_ok l"
  shows "cut l (concat child) = b @ (if eos then [] else cut l' (concat child')) \<and>
    (\<not> eos \<longrightarrow> l_ok l' \<and> length child' < length child)"
proof (cases "l_reached_limit l")
  case True
  with assms show ?thesis by (auto simp: limit_get_next_def cut_def l_reached_limit_def l_ok_def)
next
  case False
  obtain b0 e0 c0 where n: "child_next child = (b0, e0, c0)" by (cases "child_next child")
  obtain l1 b1 e1 c1 ended where s: "skip_loop l b0 e0 c0 = (l1, b1, e1, c1, ended)"
    by (cases "skip_loop l b0 e0 c0")
  note cn = child_next_concat [OF n]
  have "e0 \<longrightarrow> c0 = []" using cn by blast
  note sk = skip_loop_rows [OF s ok this]
  have ys: "drop (nat (l_offset l - l_skipped l)) (concat child) = b1 @ concat c1"
    using cn sk by simp
  have fewer: "\<not> e1 \<Longrightarrow> length c1 < length child" using cn sk by auto
  let ?l = "l1\<lparr>l_returned := l_returned l1 + int (length b1)\<rparr>"
  show ?thesis
  proof (cases ended)
    case True
    with sk have "b1 = []" "e1" "c1 = []" by auto
    with True False n s ys assms(1) show ?thesis by (auto simp: limit_get_next_def cut_def)
  next
    case not_ended: False
    show ?thesis
    proof (cases "l_reached_limit ?l")
      case True
      then have k: "l_limit l \<noteq> -1" "l_limit l - l_returned l \<le> int (length b1)"
        using sk by (auto simp: l_reached_limit_def)
      have "b = take (nat (l_limit l - l_returned l)) b1" "eos"
        using assms(1) False not_ended True n s sk keep_first [OF k(2)] by (auto simp: limit_get_next_def)
      then show ?thesis using k ys by (simp add: cut_def nat_le_iff)
    next
      case more: False
      then have out: "b = b1" "eos = e1" "l' = ?l" "child' = c1"
        using assms(1) False not_ended n s by (auto simp: limit_get_next_def)
      have "l_limit l = -1 \<or> l_returned l + int (length b1) < l_limit l"
        using more sk by (auto simp: l_reached_limit_def)
      moreover have "l_ok ?l" using calculation sk by (auto simp: l_ok_def)
      moreover have "nat (l_limit l - l_returned l) - length b1 =
          nat (l_limit l - (l_returned l + int (length b1)))" by linarith
      ultimately show ?thesis using sk ys fewer not_ended out by (auto simp: cut_def nat_le_iff)
    qed
  qed
qed

lemma limit_run_cut:
  assumes "l_ok l" shows "\<exists>out. limit_run l child = Some out \<and> concat out = cut l (concat child)"
proof -
  define I where "I = (\<lambda>(l', child', out). l_ok l' \<and> concat out @ cut l' (concat child') = cut l (concat child))"
  let ?R = "measure (\<lambda>(l', child', out). length child')"
  have "\<exists>r. run_loop limit_step (l, child, []) = Some r \<and> concat r = cut l (concat child)"
  proof (rule run_loop_rule [where I = I and R = ?R])
    show "I (l, child, [])" using assms by (simp add: I_def)
  next
    fix s s' assume I: "I s" and step: "limit_step s = Inl s'"
    obtain l1 c1 out1 where s: "s = (l1, c1, out1)" by (cases s)
    obtain l2 b eos c2 where n: "limit_get_next l1 c1 = (l2, b, eos, c2)" by (cases "limit_get_next l1 c1")
    with step s have "\<not> eos" "s' = (l2, c2, out1 @ [b])" by (auto simp: limit_step_def split: if_splits)
    with limit_get_next_cut [OF n] I s show "I s' \<and> (s', s) \<in> ?R" by (auto simp: I_def)
  next
    fix s r assume I: "I s" and step: "limit_step s = Inr r"
    obtain l1 c1 out1 where s: "s = (l1, c1, out1)" by (cases s)
    obtain l2 b eos c2 where n: "limit_get_next l1 c1 = (l2, b, eos, c2)" by (cases "limit_get_next l1 c1")
    with step s have "eos" "r = out1 @ [b]" by (auto simp: limit_step_def split: if_splits)
    with limit_get_next_cut [OF n] I s show "concat r = cut l (concat child)" by (auto simp: I_def)
  qed simp
  then show ?thesis by (simp add: limit_run_def)
qed

section \<open>The limit handed down\<close>

lemma other_limit_sum:
  assumes "0 \<le> off + cnt" and "off + cnt < 2 ^ 63"
  shows "set_limit (other_limit (new_limit_node off cnt)) = off + cnt"
proof -
  have "sint (word_of_int (off + cnt) :: 64 word) = off + cnt"
    using assms by (subst sint_sbintrunc') (simp add: signed_take_bit_int_eq_self)
  then show ?thesis using assms(1) by (simp only: set_limit_def other_limit_def new_limit_node_def
        limit_node.simps) simp
qed

lemma new_limit_ok: "0 \<le> off \<Longrightarrow> -1 \<le> cnt \<Longrightarrow> l_ok (new_limit_node off cnt)"
  by (auto simp: l_ok_def new_limit_node_def)

lemma new_limit_cut:
  "cut (new_limit_node off cnt) xs =
     (if cnt = -1 then drop (nat off) xs else take (nat cnt) (drop (nat off) xs))"
  by (simp add: cut_def new_limit_node_def Let_def)

lemma largest_literal: "int_literal 18446744073709551615 = -1"
  by (simp add: int_literal_def)

lemma order_limit_run_cut:
  assumes "run_rows E (set_limit (other_limit (new_limit_node off cnt))) cap child = Some (Some out)"
    and "l_ok (new_limit_node off cnt)"
  shows "\<exists>batches. order_limit_run E off cnt cap child = Some (Some batches) \<and>
    concat batches = cut (new_limit_node off cnt) out"
  using run_rows_batches [OF assms(1)] limit_run_cut [OF assms(2)]
  by (fastforce simp: order_limit_run_def Let_def)

lemma sort_no_rows:
  assumes "sort_env_for reint c E" and "\<not> need_not_compare c" and "rows b \<noteq> []" and "idx b = 0"
  shows "sort_node_run E 0 cap (b # child) = Some None"
proof -
  obtain r rs where "rows b = r # rs" using assms(3) by (cases "rows b") auto
  with assms show ?thesis
    by (simp add: sort_node_run_def sort_node_open_def new_sorter_def topn_add_batch_def
        topn_add_row_def sort_env_for_def)
qed

lemma sorted_extension:
  assumes "set rest \<subseteq> typed_rows c ks"
    and "sorted_wrt (\<lambda>x y. row_compare reint c x y \<le> 0) out"
    and "\<forall>x \<in> set out. \<forall>y \<in> set rest. row_compare reint c x y \<le> 0"
  shows "\<exists>rest'. mset rest' = mset rest \<and> sorted_wrt (\<lambda>x y. row_compare reint c x y \<le> 0) (out @ rest')"
proof -
  let ?r = "insertion_sort (\<lambda>x y. row_compare reint c x y < 0) rest"
  have r: "mset ?r = mset rest" "sorted_wrt (\<lambda>x y. \<not> row_compare reint c y x < 0) ?r"
    using insertion_sort_spec rc.cmp_strict_weak [OF assms(1)] unfolding std_sort_spec_def by blast+
  have set: "set ?r = set rest" using mset_eq_setD [OF r(1)] .
  have "sorted_wrt (\<lambda>x y. row_compare reint c x y \<le> 0) ?r"
  proof (rule sorted_wrt_mono_rel [OF _ r(2)])
    fix x y assume "x \<in> set ?r" "y \<in> set ?r" "\<not> row_compare reint c y x < 0"
    then show "row_compare reint c x y \<le> 0"
      using assms(1) set rc.cmp_anti [of y c ks x reint] rc.cmp_anti [of x c ks y reint]
      by (auto simp: subset_iff not_less)
  qed
  with r set assms show ?thesis by (intro exI [of _ ?r]) (auto simp: sorted_wrt_append)
qed

text \<open>
  LIMIT offset, count on its own: the node passes on the rows behind the first
  offset ones, at most count of them, however they are cut into batches.
\<close>

lemma limit_offset:
  assumes "0 \<le> off" and "-1 \<le> cnt"
  shows "\<exists>batches. limit_run (new_limit_node off cnt) child = Some batches \<and>
    concat batches = (if cnt = -1 then drop (nat off) (concat child)
      else take (nat cnt) (drop (nat off) (concat child)))"
  using limit_run_cut [OF new_limit_ok [OF assms]] by (simp only: new_limit_cut)

section \<open>Properties\<close>

text \<open>
  (C3) ORDER BY with LIMIT offset, count: the sort node under the limit node keeps
  only offset + count rows, yet the rows the query returns are those at the
  positions offset to offset + count of one ordering of all the rows.
\<close>

theorem order_limit_offset:
  assumes "sort_env_for reint c E" and "0 < cap" and "0 \<le> off" and "0 < cnt" and "off + cnt < 2 ^ 63"
    and "list_all (\<lambda>b. rows b \<noteq> [] \<and> idx b = 0 \<and> set (rows b) \<subseteq> typed_rows c ks) child"
  shows "\<exists>batches ordered. order_limit_run E off cnt cap child = Some (Some batches) \<and>
    mset ordered = mset (concat (map rows child)) \<and>
    sorted_wrt (\<lambda>x y. row_compare reint c x y \<le> 0) ordered \<and>
    concat batches = take (nat cnt) (drop (nat off) ordered)"
proof -
  have lim: "0 < off + cnt" "set_limit (other_limit (new_limit_node off cnt)) = off + cnt"
    using assms(3-5) other_limit_sum [of off cnt] by auto
  from order_by_limit_rows [OF assms(1,2) lim(1) assms(6)] obtain out rest where
    run: "run_rows E (off + cnt) cap child = Some (Some out)" and
    all: "mset (concat (map rows child)) = mset out + mset rest" and
    len: "length out = min (nat (off + cnt)) (length (concat (map rows child)))" and
    ord: "sorted_wrt (\<lambda>x y. row_compare reint c x y \<le> 0) out"
      "\<forall>x \<in> set out. \<forall>y \<in> set rest. row_compare reint c x y \<le> 0" by blast
  have "set (concat (map rows child)) = set out \<union> set rest" using all by (metis mset_append mset_eq_setD set_append)
  then have "set rest \<subseteq> typed_rows c ks" using assms(6) by (auto simp: list_all_iff)
  from sorted_extension [OF this ord] obtain rest' where rest':
    "mset rest' = mset rest" "sorted_wrt (\<lambda>x y. row_compare reint c x y \<le> 0) (out @ rest')" by blast
  have "length (concat (map rows child)) = length out + length rest'"
    using arg_cong [OF all, of size] arg_cong [OF rest'(1), of size] by simp
  with len have short: "rest' = [] \<or> length out = nat off + nat cnt"
    using assms(3,4) by (cases rest') (auto simp: nat_add_distrib)
  have "take (nat cnt) (drop (nat off) (out @ rest')) = take (nat cnt) (drop (nat off) out)"
    using short by auto
  moreover obtain batches where "order_limit_run E off cnt cap child = Some (Some batches)"
    "concat batches = take (nat cnt) (drop (nat off) out)"
    using order_limit_run_cut [of E off cnt cap child out] new_limit_ok [of off cnt] run lim(2) assms(3,4)
    by (auto simp: new_limit_cut)
  moreover have "mset (out @ rest') = mset (concat (map rows child))" using all rest'(1) by simp
  ultimately show ?thesis using rest'(2) by metis
qed

theorem order_limit_offset_witness:
  "\<exists>batches ordered. order_limit_run by_value_env 1 1 2
      [\<lparr>rows = [3, 1], idx = 0, capacity = 2\<rparr>, \<lparr>rows = [2], idx = 0, capacity = 2\<rparr>] = Some (Some batches) \<and>
    mset ordered = mset [3, 1, 2] \<and>
    sorted_wrt (\<lambda>x y. row_compare (\<lambda>_ _. 0) by_value x y \<le> 0) ordered \<and>
    concat batches = take 1 (drop 1 ordered)"
  using order_limit_offset [OF by_value_env, of 2 1 1 "[INT64]"
      "[\<lparr>rows = [3, 1], idx = 0, capacity = 2\<rparr>, \<lparr>rows = [2], idx = 0, capacity = 2\<rparr>]"]
  by (simp add: by_value_rows)

text \<open>
  (C32) The count 18446744073709551615, which asks for every row behind the offset,
  is read as -1.  The limit node takes that for no limit, but the sort node below it
  is given offset - 1: with an offset of at least 2 the query returns no row,
  whatever the table holds, and with the offset 1 the sort node reads the root of an
  empty heap.
\<close>

theorem largest_count_loses_rows:
  assumes "sort_env_for reint c E" and "\<not> need_not_compare c" and "0 < cap" and "1 \<le> off" and "off < 2 ^ 63"
    and "child \<noteq> []"
    and "list_all (\<lambda>b. rows b \<noteq> [] \<and> idx b = 0 \<and> set (rows b) \<subseteq> typed_rows c ks) child"
  shows "if off = 1 then order_limit_run E off (int_literal 18446744073709551615) cap child = Some None
    else \<exists>batches. order_limit_run E off (int_literal 18446744073709551615) cap child =
      Some (Some batches) \<and> concat batches = []"
proof -
  have lim: "set_limit (other_limit (new_limit_node off (-1))) = off - 1"
    using other_limit_sum [of off "-1"] assms(4,5) by simp
  show ?thesis
  proof (cases "off = 1")
    case True
    obtain b bs where "child = b # bs" using assms(6) by (cases child) auto
    with True lim assms(7) sort_no_rows [OF assms(1,2), of b cap bs] show ?thesis
      by (simp add: largest_literal order_limit_run_def)
  next
    case False
    then have "0 < off - 1" using assms(4) by simp
    from order_by_limit_rows [OF assms(1,3) this assms(7)] obtain out where
      "run_rows E (off - 1) cap child = Some (Some out)" "length out \<le> nat (off - 1)" by auto
    then show ?thesis
      using order_limit_run_cut [of E off "-1" cap child out] new_limit_ok [of off "-1"] lim False assms(4)
      by (auto simp: largest_literal new_limit_cut)
  qed
qed

theorem largest_count_loses_rows_witness:
  "\<exists>batches. order_limit_run by_value_env 2 (int_literal 18446744073709551615) 2
      [\<lparr>rows = [3, 1], idx = 0, capacity = 2\<rparr>, \<lparr>rows = [2], idx = 0, capacity = 2\<rparr>] = Some (Some batches) \<and>
    concat batches = []"
  using largest_count_loses_rows [OF by_value_env by_value_compares, of 2 2
      "[\<lparr>rows = [3, 1], idx = 0, capacity = 2\<rparr>, \<lparr>rows = [2], idx = 0, capacity = 2\<rparr>]" "[INT64]"]
  by (simp add: by_value_rows)

end
