(* ===== verification/Spec2Isabelle.thy ===== *)
theory Spec2Isabelle
  imports TableRecord RaftLogProperties TsoProperties MetaProperties AutoIncrProperties
    MetaWriterSnapshots RaftMetaStorage LruCache LikeProperties LimitNode
begin

text \<open>
  Verification of parts of BaikalDB, a distributed SQL database in C++ (sources under \<^verbatim>\<open>src/\<close>).

  \<^bold>\<open>The program.\<close> Clients speak SQL to a front end, which plans queries and sends them to stores. A
  store holds regions of tables in RocksDB; a region is a Raft group. A meta server, itself a Raft
  group, keeps the schema, users and placement, hands out timestamps for transactions and ids for
  auto-increment columns. The development covers the layers in which data and promises are kept: how
  rows become keys, how a Raft node keeps its log, its term and its vote, what a store records about
  its regions, and the state machines of the meta server for namespaces, databases, users, timestamps
  and ids. Of query execution it covers filtering by LIKE and ordering with a limit, in which a limit node
  reads a sort node, which compares rows by their values. The meta server's managers call each other over one state; the Raft log, the term and vote and the
  meta information of a store all rest on the model of RocksDB.

  \<^bold>\<open>Conventions.\<close> Bytes are \<^typ>\<open>8 word\<close>s and machine integers words where their width matters,
  otherwise integers with their bounds as explicit hypotheses. The byte order of the host is a
  parameter. Output parameters are returned; undefined behaviour, an exception or an abort is \<^term>\<open>None\<close>.
  RocksDB is the record \<open>rocks\<close> of its operations with the hypothesis \<open>rocks_ok\<close>, its documented behaviour, and \<open>rocks_up\<close> where no
  operation may fail; \<open>mem_rocks\<close> is an instance. Protobuf, braft, boost, the JSON library, clocks and files are parameters too.

  \<^bold>\<open>Theories and sources.\<close>

  \<^item> \<open>Prelude\<close>: memory images of words and the lexicographic order of byte strings.
  \<^item> \<open>KeyEncoder\<close>: \<^verbatim>\<open>KeyEncoder\<close> in \<^verbatim>\<open>include/common/key_encoder.h\<close>. \<open>TableKeys\<close>: \<^verbatim>\<open>MutTableKey\<close> and
    \<^verbatim>\<open>TableKey\<close> (\<^verbatim>\<open>common/mut_table_key\<close>, \<^verbatim>\<open>common/table_key\<close>). \<open>TableRecord\<close>: the key codec of
    \<^verbatim>\<open>common/table_record.cpp\<close>. The locale \<open>key_codec\<close> is the contract of an encoding that
    preserves order and is read back; it is interpreted for every scalar type. Shown: keys
    decode to their rows, and bytes compare like values.
  \<^item> \<open>Rocks\<close>: RocksDB and the logic of \<^verbatim>\<open>engine/rocks_wrapper.cpp\<close>.
  \<^item> \<open>IndexTermMap\<close>: \<^verbatim>\<open>raft/index_term_map.h\<close>, with the locale \<open>term_index\<close> for what the log relies on.
    \<open>RaftLogStorage\<close>, \<open>RaftLogRefinement\<close>, \<open>RaftLogProperties\<close>: \<^verbatim>\<open>raft/my_raft_log_storage.cpp\<close> and the compaction
    filter. Shown: the storage refines an abstract log, over restarts and failed writes; the filter drops
    nothing the log holds; two failures that the code does not handle.
  \<^item> \<open>RaftMetaStorage\<close>: \<^verbatim>\<open>raft/my_raft_meta_storage.cpp\<close>. Shown: term and vote survive a restart, and a
    failed read at start-up forgets them.
  \<^item> \<open>MetaWriter\<close>: \<^verbatim>\<open>store/meta_writer.cpp\<close>, one definition per key, value and operation. \<open>MetaWriterSteps\<close>
    gives the operations as steps with what they touch, and the locale \<open>store_view\<close>, by which a relation to an abstract
    state that calls keep is kept by runs. \<open>MetaWriterTxns\<close> and \<open>MetaWriterSnapshots\<close> interpret it for the prepared transactions and the
    interrupted snapshots. \<open>MetaWriterProperties\<close>: isolation of regions, recovery, commits, clearing,
    and a loop that does not end.
  \<^item> \<open>LruCache\<close>: \<^verbatim>\<open>include/common/lru_cache.hpp\<close>, nodes in an explicit heap, refined from a list of items.
  \<^item> \<open>MetaCommon\<close>, \<open>NamespaceManager\<close>, \<open>PrivilegeManager\<close>, \<open>DatabaseManager\<close>, \<open>MetaSnapshot\<close>: the messages, the store
    \<^verbatim>\<open>meta_rocksdb.cpp\<close> and the managers of the same names under \<^verbatim>\<open>meta_server/\<close>, one definition per handler over the
    record \<open>meta_state\<close>; loading from \<^verbatim>\<open>schema_manager.cpp\<close> and \<^verbatim>\<open>meta_state_machine.cpp\<close>. \<open>MetaInvariant\<close>,
    \<open>UserInvariant\<close>, \<open>MetaRun\<close>, \<open>MetaReload\<close>, \<open>MetaProperties\<close>: the invariants, that each handler keeps them also when
    writes fail, sequences of requests, and reloading.
  \<^item> \<open>TsoStateMachine\<close>, \<open>TsoCluster\<close>, \<open>TsoProperties\<close>: \<^verbatim>\<open>meta_server/tso_state_machine.cpp\<close>, one node and a group of
    nodes as an inductive step relation. Shown: timestamps are not handed out twice, and where they are.
  \<^item> \<open>AutoIncr\<close>, \<open>AutoIncrProperties\<close>: \<^verbatim>\<open>meta_server/auto_incr_state_machine.cpp\<close> with 64-bit counters.

  \<^item> \<open>Loops\<close>: \<open>run_loop\<close>, a loop over a step function that may not end, with the rule for total correctness by an
    invariant and a well-founded relation.
  \<^item> \<open>LikePredicate\<close>: \<^verbatim>\<open>LikePredicate\<close> in \<^verbatim>\<open>expr/predicate\<close>, its rewriting in \<^verbatim>\<open>ExprNode::like_node_optimize\<close>
    (\<^verbatim>\<open>expr/expr_node.cpp\<close>) and the loops of \<^verbatim>\<open>exec/filter_node.cpp\<close> that rewrite and evaluate the conjuncts. \<open>LikeMatch\<close> has the
    recursive matching of patterns, that the backtracking loop ends, and the locales \<open>char_cut\<close>, \<open>char_code\<close> and \<open>ascii_code\<close> for what
    a character set must provide; they are interpreted for bytes, UTF-8 and GBK. \<open>LikeProperties\<close>: the loop computes the
    recursive matching, the rewriting keeps the rows, and the patterns for which it does not.
  \<^item> \<open>RowCompare\<close>: \<^verbatim>\<open>mem_row/mem_row_compare\<close> and \<^verbatim>\<open>ExprValue::compare\<close>; the locale \<open>row_order\<close> is the contract of a
    comparison, interpreted for rows whose order expressions have one type each. \<open>HeapSift\<close>: the heap loops the two sorters share, over
    the locale \<open>heap_order\<close>. \<open>Sorter\<close>: \<^verbatim>\<open>runtime/row_batch.h\<close>, \<^verbatim>\<open>runtime/sorter.cpp\<close>, \<^verbatim>\<open>runtime/topn_sorter.cpp\<close> and
    \<^verbatim>\<open>exec/sort_node.cpp\<close>. \<open>SorterProperties\<close>, \<open>SortNodeProperties\<close>: the merging sorter returns all rows in order, the
    bounded one the first rows. \<open>LimitNode\<close>: \<^verbatim>\<open>exec/limit_node.cpp\<close> above the sort node, and a count for which the two
    disagree. \<^verbatim>\<open>std::sort\<close> is a parameter with the hypothesis \<open>std_sort_spec\<close>, of which \<open>insertion_sort\<close> is an instance.

  \<^bold>\<open>Loops and bounds.\<close> Loops over containers are structural recursions and need no fuel. The binary search of
  the term map has a termination proof by a measure. The retry loop of the oracle has the fifty attempts of
  the code. The loop of \<open>clear_rollup_batch_version\<close> is a \<^theory_text>\<open>partial_function\<close>, since
  it may not end. The LIKE matcher, the merging loop and the loops that read a node to its end are instances of \<open>run_loop\<close>, and the
  properties show that they return; the heap loops and the skipping loop of the limit node are functions with a measure. Batches
  have fewer than \<open>2^31\<close> rows, so the \<^verbatim>\<open>int\<close> row counts of the limit node do not wrap. Indexes, ids and times stay below their 64-bit bounds by hypothesis where
  the code does not check them; where passing a bound matters it is a theorem of its own. Counters of the cache are unbounded.

  \<^bold>\<open>Concurrency.\<close> An operation under a lock is one step. For the oracle, what other threads and
  nodes do between the steps of a request is part of the model. A store's operations on its meta
  information are taken one at a time.

  \<^bold>\<open>Not modelled.\<close> The managers of tables, regions and clusters and the DDL work of the meta server; regions
  and stores beyond their meta information; RocksDB transactions and iterators for rows; SQL parsing
  and planning, the other expressions and operators, execution on Arrow columns, the network protocol, inverted and vector indexes, the schema cache and the tools. They are
  large, work over generated messages and parsers, RPCs, timers and external libraries, and most of what they do is
  input and output or a call of such a library. Of the modelled files, printing, metrics, start-up and RPC entry points are left out.
\<close>

end
